(* ===== verification/Ryu_Prelude.thy ===== *)
theory Ryu_Prelude
  imports Main "HOL-Library.Word"
begin

text \<open>
  The prelude of the development: the machine types and constants the storage layer shares
  (\<^verbatim>\<open>common/types/types.h\<close>, \<^verbatim>\<open>transaction/transaction.h\<close>), the exceptions of the program as values,
  and the generic facts on lists, options and loops the component theories use.
\<close>

named_theorems inv_defs \<open>definitions of the component invariants\<close>
named_theorems op_defs \<open>definitions of the operations of a component\<close>

section \<open>Types and constants\<close>

text \<open>
  Transaction identifiers and timestamps are \<^verbatim>\<open>uint64_t\<close>. The two spaces are kept apart by
  the top bit: identifiers start at \<open>START_TRANSACTION_ID = 2 ^ 63\<close>, commit timestamps stay below.
\<close>

type_synonym transaction_t = "64 word"

definition INVALID_TRANSACTION :: transaction_t where
  "INVALID_TRANSACTION = - 1"

definition DUMMY_TRANSACTION_ID :: transaction_t where
  "DUMMY_TRANSACTION_ID = 0"

definition DUMMY_START_TIMESTAMP :: transaction_t where
  "DUMMY_START_TIMESTAMP = 0"

definition START_TRANSACTION_ID :: transaction_t where
  "START_TRANSACTION_ID = push_bit 63 1"

text \<open>Exceptions the modelled code throws, by class, with the distinguishing part of the message.\<close>

datatype exn =
    RuntimeException string
  | TransactionManagerException string
  | CheckpointException exn
  | CatalogException string
  | ConversionException string
  | InternalException string
  | OverflowException string
  | IOException string
  | StorageException string

lemma START_TRANSACTION_ID_eq [code]: "START_TRANSACTION_ID = 0x8000000000000000"
  by (simp add: START_TRANSACTION_ID_def)

lemma INVALID_TRANSACTION_eq [code]: "INVALID_TRANSACTION = 0xFFFFFFFFFFFFFFFF"
  by (simp add: INVALID_TRANSACTION_def)

lemma le_INVALID_TRANSACTION [simp]: "v \<le> INVALID_TRANSACTION"
  by (simp add: INVALID_TRANSACTION_def)

lemma START_less_INVALID [simp]: "START_TRANSACTION_ID < INVALID_TRANSACTION"
  by (simp add: START_TRANSACTION_ID_eq INVALID_TRANSACTION_eq)

lemma zero_less_START [simp]: "0 < START_TRANSACTION_ID"
  by (simp add: START_TRANSACTION_ID_eq)

lemma INVALID_neq_0 [simp]: "INVALID_TRANSACTION \<noteq> 0" "0 \<noteq> INVALID_TRANSACTION"
  by (simp_all add: INVALID_TRANSACTION_eq)

text \<open>Incrementing a counter that has not reached a bound does not wrap.\<close>

lemma unat_plus_one:
  assumes "(v :: 'a :: len word) < b"
  shows "unat (v + 1) = Suc (unat v)"
proof -
  have "unat v < unat b" using assms by (simp add: word_less_nat_alt)
  moreover have "unat b < 2 ^ LENGTH('a)" by simp
  ultimately have "Suc (unat v) < 2 ^ LENGTH('a)" by linarith
  then show ?thesis by (simp add: unat_word_ariths)
qed

lemma word_less_Suc: "(v :: 'a :: len word) < b \<Longrightarrow> v < v + 1"
  by (simp add: word_less_nat_alt unat_plus_one)

lemma word_Suc_le: "(v :: 'a :: len word) < b \<Longrightarrow> v + 1 \<le> b"
  using unat_plus_one [of v b] by (simp add: word_less_nat_alt word_le_nat_alt)

lemma word_less_Suc_iff: "(v :: 'a :: len word) < b \<Longrightarrow> w < v + 1 \<longleftrightarrow> w \<le> v"
  using unat_plus_one [of v b] by (simp add: word_less_nat_alt word_le_nat_alt less_Suc_eq_le)

section \<open>Array loops\<close>

text \<open>
  \<open>fill_range a s n x\<close> is the loop \<^verbatim>\<open>for (i = 0; i < n; i++) a[s + i] = x\<close> the version arrays and
  the null masks are written with.
\<close>

fun fill_range :: "'a list \<Rightarrow> nat \<Rightarrow> nat \<Rightarrow> 'a \<Rightarrow> 'a list" where
  "fill_range a s 0 x = a"
| "fill_range a s (Suc n) x = fill_range (a[s := x]) (Suc s) n x"

lemma length_fill_range [simp]: "length (fill_range a s n x) = length a"
  by (induction a s n x rule: fill_range.induct) simp_all

lemma nth_fill_range:
  "i < length a \<Longrightarrow> fill_range a s n x ! i = (if s \<le> i \<and> i < s + n then x else a ! i)"
  by (induction a s n x rule: fill_range.induct) (auto simp: nth_list_update)

lemma set_fill_range_subset: "set (fill_range a s n x) \<subseteq> insert x (set a)"
proof (induction a s n x rule: fill_range.induct)
  case (2 a s n x)
  then show ?case using set_update_subset_insert [of a s x] by auto
qed auto

text \<open>The two ways the code walks a list of optional slots: out of range and null read alike.\<close>

definition opt_nth :: "'a option list \<Rightarrow> nat \<Rightarrow> 'a option" where
  "opt_nth xs i = (if i < length xs then xs ! i else None)"

text \<open>\<^verbatim>\<open>std::vector::resize(n)\<close> growing a vector of null pointers.\<close>

definition resize_null :: "'a option list \<Rightarrow> nat \<Rightarrow> 'a option list" where
  "resize_null xs n = (if n \<le> length xs then take n xs else xs @ replicate (n - length xs) None)"

lemma opt_nth_resize_null:
  "length xs \<le> n \<Longrightarrow> opt_nth (resize_null xs n) i = opt_nth xs i"
  by (auto simp: opt_nth_def resize_null_def nth_append)

lemma length_resize_null [simp]: "length (resize_null xs n) = n"
  by (simp add: resize_null_def)

lemma opt_nth_update:
  "opt_nth (xs[i := x]) j = (if j = i \<and> i < length xs then x else opt_nth xs j)"
  by (auto simp: opt_nth_def)

end
