(* ===== verification/Snapshot.thy ===== *)
theory Snapshot
  imports Ryu_Prelude
begin

text \<open>
  The multi-version contract shared by the row versions (\<^verbatim>\<open>storage/table/version_info.cpp\<close>), the
  update chains (\<^verbatim>\<open>storage/table/update_info.cpp\<close>) and the catalog chains
  (\<^verbatim>\<open>catalog/catalog_set.cpp\<close>): every versioned cell carries a \<^typ>\<open>transaction_t\<close>, which is the
  identifier of the transaction that wrote it until that transaction commits and its commit
  timestamp afterwards. The locale states what a store of such cells promises when the undo buffer
  commits or rolls back a record, and derives from it what other transactions can observe.
\<close>

section \<open>What a transaction carries\<close>

datatype TransactionType = READ_ONLY | WRITE | CHECKPOINT | DUMMY | RECOVERY

record Transaction =
  txnType :: TransactionType
  txnID :: transaction_t
  txnStartTS :: transaction_t
  txnCommitTS :: transaction_t

definition shouldAppendToUndoBuffer :: "'a Transaction_scheme \<Rightarrow> bool" where
  "shouldAppendToUndoBuffer transaction \<longleftrightarrow>
     txnType transaction = WRITE \<or> txnType transaction = RECOVERY"

section \<open>Visibility\<close>

definition visible :: "transaction_t \<Rightarrow> transaction_t \<Rightarrow> transaction_t \<Rightarrow> bool" where
  "visible startTS transactionID v \<longleftrightarrow> v = transactionID \<or> v \<le> startTS"

text \<open>
  A snapshot is the pair of start timestamp and identifier of a running transaction; the pair is
  well-formed when the timestamp is a commit timestamp and the identifier is not.
\<close>

definition snapshot_ok :: "transaction_t \<Rightarrow> transaction_t \<Rightarrow> bool" where
  "snapshot_ok startTS transactionID \<longleftrightarrow>
     startTS < START_TRANSACTION_ID \<and> START_TRANSACTION_ID \<le> transactionID \<and>
     transactionID < INVALID_TRANSACTION"

lemma visible_INVALID [simp]: "snapshot_ok ts i \<Longrightarrow> \<not> visible ts i INVALID_TRANSACTION"
  using START_less_INVALID by (auto simp: visible_def snapshot_ok_def)

lemma visible_0 [simp]: "visible ts i 0"
  by (simp add: visible_def)

lemma visible_own [simp]: "visible ts i i"
  by (simp add: visible_def)

lemma visible_other_uncommitted:
  "snapshot_ok ts i \<Longrightarrow> START_TRANSACTION_ID \<le> t \<Longrightarrow> t \<noteq> i \<Longrightarrow> \<not> visible ts i t"
  by (auto simp: visible_def snapshot_ok_def)

lemma visible_committed:
  "snapshot_ok ts i \<Longrightarrow> c < START_TRANSACTION_ID \<Longrightarrow> visible ts i c \<longleftrightarrow> c \<le> ts"
  by (auto simp: visible_def snapshot_ok_def)

text \<open>
  A store whose records can be stamped with a commit timestamp: \<open>owned t r s\<close> says that the cells
  of the record \<open>r\<close> carry the identifier of the transaction \<open>t\<close>.
\<close>

locale stamp_store =
  fixes ver :: "'s \<Rightarrow> 'k \<Rightarrow> transaction_t"
    and cells :: "'r \<Rightarrow> 'k set"
    and owned :: "transaction_t \<Rightarrow> 'r \<Rightarrow> 's \<Rightarrow> bool"
    and stamp :: "transaction_t \<Rightarrow> 'r \<Rightarrow> 's \<Rightarrow> 's"
  assumes stamp_cells: "owned t r s \<Longrightarrow> c < START_TRANSACTION_ID \<Longrightarrow> k \<in> cells r \<Longrightarrow>
      ver (stamp c r s) k = c"
    and stamp_frame: "owned t r s \<Longrightarrow> c < START_TRANSACTION_ID \<Longrightarrow>
      ver (stamp c r s) k = ver s k \<or> ver s k = t \<and> ver (stamp c r s) k = c"
begin

lemma commit_hidden_from_older:
  assumes "owned t r s" and snap: "snapshot_ok ts i" and "i \<noteq> t" "START_TRANSACTION_ID \<le> t"
    and "ts < c" "c < START_TRANSACTION_ID"
  shows "visible ts i (ver (stamp c r s) k) = visible ts i (ver s k)"
  using stamp_frame [OF assms(1,6), of k] assms visible_other_uncommitted [OF snap, of t]
    visible_committed [OF snap, of c] by auto

lemma commit_seen_by_later:
  assumes "owned t r s" "k \<in> cells r" "c \<le> ts" "c < START_TRANSACTION_ID"
  shows "visible ts i (ver (stamp c r s) k)"
  using stamp_cells [OF assms(1,4,2)] assms(3) by (simp add: visible_def)

end

text \<open>A store whose records can be undone, leaving their cells to nobody.\<close>

locale undo_store =
  fixes ver :: "'s \<Rightarrow> 'k \<Rightarrow> transaction_t"
    and cells :: "'r \<Rightarrow> 'k set"
    and owned :: "transaction_t \<Rightarrow> 'r \<Rightarrow> 's \<Rightarrow> bool"
    and undo :: "'r \<Rightarrow> 's \<Rightarrow> 's"
  assumes undo_cells: "owned t r s \<Longrightarrow> k \<in> cells r \<Longrightarrow> ver (undo r s) k = INVALID_TRANSACTION"
    and undo_frame: "owned t r s \<Longrightarrow>
      ver (undo r s) k = ver s k \<or> ver s k = t \<and> ver (undo r s) k = INVALID_TRANSACTION"
begin

lemma rollback_hidden_from_others:
  assumes "owned t r s" and snap: "snapshot_ok ts i" and "i \<noteq> t" "START_TRANSACTION_ID \<le> t"
  shows "visible ts i (ver (undo r s) k) = visible ts i (ver s k)"
  using undo_frame [OF assms(1), of k] assms visible_other_uncommitted [OF snap, of t] by auto

lemma rollback_gone:
  assumes "owned t r s" "k \<in> cells r" "snapshot_ok ts i"
  shows "\<not> visible ts i (ver (undo r s) k)"
  using undo_cells [OF assms(1,2)] assms(3) by simp

end

locale version_store = stamp_store ver cells owned stamp + undo_store ver cells owned undo
  for ver :: "'s \<Rightarrow> 'k \<Rightarrow> transaction_t"
    and cells :: "'r \<Rightarrow> 'k set"
    and owned :: "transaction_t \<Rightarrow> 'r \<Rightarrow> 's \<Rightarrow> bool"
    and stamp :: "transaction_t \<Rightarrow> 'r \<Rightarrow> 's \<Rightarrow> 's"
    and undo :: "'r \<Rightarrow> 's \<Rightarrow> 's"

end
