(* ===== verification/Selection_Vector.thy ===== *)
theory Selection_Vector
  imports Ryu_Prelude
begin

text \<open>
  Selection vectors (\<^verbatim>\<open>include/common/data_chunk/sel_vector.h\<close>, \<^verbatim>\<open>common/data_chunk/sel_vector.cpp\<close>).
  \<^verbatim>\<open>selectedPositions\<close> points either to the constant array \<^verbatim>\<open>INCREMENTAL_SELECTED_POS\<close> or to the
  vector's own buffer; the pointer is a value of \<open>PositionsPtr\<close>. The number of entries of the
  constant array, \<^verbatim>\<open>DEFAULT_VECTOR_CAPACITY\<close>, is a value of the generated \<^verbatim>\<open>system_config.h\<close>, so it
  is the parameter \<open>cap\<close> here and in the theories that use the vector capacity.
\<close>

section \<open>State and operations\<close>

datatype SelState = DYNAMIC | STATIC

datatype PositionsPtr = INCREMENTAL_SELECTED_POS | OWN_BUFFER

record SelectionVector =
  selectedPositions :: PositionsPtr
  selectedSize :: nat
  selState :: SelState
  selectedPositionsBuffer :: "nat list"
  selCapacity :: nat

definition SelectionVector_new :: "nat \<Rightarrow> SelectionVector" where
  "SelectionVector_new capacity =
     \<lparr>selectedPositions = INCREMENTAL_SELECTED_POS, selectedSize = 0, selState = STATIC,
      selectedPositionsBuffer = replicate capacity 0, selCapacity = capacity\<rparr>"

fun positionsArray :: "nat \<Rightarrow> SelectionVector \<Rightarrow> nat list" where
  "positionsArray cap sel =
     (case selectedPositions sel of
        INCREMENTAL_SELECTED_POS \<Rightarrow> [0..<cap]
      | OWN_BUFFER \<Rightarrow> selectedPositionsBuffer sel)"

definition isUnfiltered :: "nat \<Rightarrow> SelectionVector \<Rightarrow> bool" where
  "isUnfiltered cap sel \<longleftrightarrow> selState sel = STATIC \<and> positionsArray cap sel ! 0 = 0"

definition getSelectedPositions :: "nat \<Rightarrow> SelectionVector \<Rightarrow> nat list" where
  "getSelectedPositions cap sel = take (selectedSize sel) (positionsArray cap sel)"

text \<open>\<open>forEach\<close> returns the positions handed to the callback, in call order.\<close>

definition forEach :: "nat \<Rightarrow> SelectionVector \<Rightarrow> nat list" where
  "forEach cap sel =
     (if selState sel = DYNAMIC
      then map (\<lambda>i. positionsArray cap sel ! i) [0..<selectedSize sel]
      else (let start = positionsArray cap sel ! 0 in [start..<start + selectedSize sel]))"

definition setToUnfiltered :: "nat \<Rightarrow> SelectionVector \<Rightarrow> SelectionVector" where
  "setToUnfiltered newSize sel =
     sel\<lparr>selectedPositions := INCREMENTAL_SELECTED_POS, selectedSize := newSize, selState := STATIC\<rparr>"

definition setRange :: "nat \<Rightarrow> nat \<Rightarrow> SelectionVector \<Rightarrow> SelectionVector" where
  "setRange startPos newSize sel =
     sel\<lparr>selectedPositions := OWN_BUFFER,
         selectedPositionsBuffer :=
           fold (\<lambda>i buf. buf[i := startPos + i]) [0..<newSize] (selectedPositionsBuffer sel),
         selectedSize := newSize, selState := DYNAMIC\<rparr>"

definition setToFiltered :: "nat \<Rightarrow> SelectionVector \<Rightarrow> SelectionVector" where
  "setToFiltered newSize sel =
     sel\<lparr>selectedPositions := OWN_BUFFER, selState := DYNAMIC, selectedSize := newSize\<rparr>"

definition makeDynamic :: "nat \<Rightarrow> SelectionVector \<Rightarrow> SelectionVector" where
  "makeDynamic cap sel =
     sel\<lparr>selectedPositionsBuffer :=
           take (selectedSize sel) (positionsArray cap sel) @
           drop (selectedSize sel) (selectedPositionsBuffer sel),
         selState := DYNAMIC, selectedPositions := OWN_BUFFER\<rparr>"

definition setSelSize :: "nat \<Rightarrow> SelectionVector \<Rightarrow> SelectionVector" where
  "setSelSize newSize sel = sel\<lparr>selectedSize := newSize\<rparr>"

definition incrementSelSize :: "nat \<Rightarrow> SelectionVector \<Rightarrow> SelectionVector" where
  "incrementSelSize increment sel = sel\<lparr>selectedSize := selectedSize sel + increment\<rparr>"

text \<open>
  The write \<^verbatim>\<open>getMutableBuffer()[numSelected++] = pos\<close>, the idiom every producer of a selection
  uses, and the loop of such writes over the rows that satisfy a test.
\<close>

definition push_pos :: "nat \<Rightarrow> SelectionVector \<times> nat \<Rightarrow> SelectionVector \<times> nat" where
  "push_pos pos = (\<lambda>(sel, numSelected).
     (sel\<lparr>selectedPositionsBuffer := (selectedPositionsBuffer sel)[numSelected := pos]\<rparr>,
      Suc numSelected))"

definition push_rows ::
    "(nat \<Rightarrow> bool) \<Rightarrow> nat \<Rightarrow> nat \<Rightarrow> SelectionVector \<times> nat \<Rightarrow> SelectionVector \<times> nat" where
  "push_rows P startOutputPos numRows =
     fold (\<lambda>i st. if P i then push_pos (startOutputPos + i) st else st) [0..<numRows]"

section \<open>Invariant and behaviour\<close>

definition sel_inv :: "nat \<Rightarrow> SelectionVector \<Rightarrow> bool" where
  "sel_inv cap sel \<longleftrightarrow>
     (selState sel = STATIC \<longleftrightarrow> selectedPositions sel = INCREMENTAL_SELECTED_POS) \<and>
     length (selectedPositionsBuffer sel) = cap \<and> selectedSize sel \<le> cap \<and> 0 < cap"

lemmas sel_defs = setToUnfiltered_def setToFiltered_def makeDynamic_def setSelSize_def
  isUnfiltered_def getSelectedPositions_def

lemma isUnfiltered_iff: "sel_inv cap sel \<Longrightarrow> isUnfiltered cap sel \<longleftrightarrow> selState sel = STATIC"
  by (auto simp: isUnfiltered_def sel_inv_def split: PositionsPtr.splits)

lemma getSelectedPositions_static:
  "sel_inv cap sel \<Longrightarrow> selState sel = STATIC \<Longrightarrow>
     getSelectedPositions cap sel = [0..<selectedSize sel]"
  by (auto simp: getSelectedPositions_def sel_inv_def take_upt)

lemma getSelectedPositions_dynamic:
  "sel_inv cap sel \<Longrightarrow> selState sel = DYNAMIC \<Longrightarrow>
     getSelectedPositions cap sel = take (selectedSize sel) (selectedPositionsBuffer sel)"
  by (cases "selectedPositions sel") (auto simp: getSelectedPositions_def sel_inv_def)

lemma forEach_eq: "sel_inv cap sel \<Longrightarrow> forEach cap sel = getSelectedPositions cap sel"
proof (cases "selState sel")
  case DYNAMIC
  moreover assume inv: "sel_inv cap sel"
  ultimately have "selectedPositions sel = OWN_BUFFER"
    by (cases "selectedPositions sel") (auto simp: sel_inv_def)
  with DYNAMIC inv show ?thesis
    by (auto simp: forEach_def getSelectedPositions_def sel_inv_def intro: nth_equalityI)
next
  case STATIC
  moreover assume inv: "sel_inv cap sel"
  ultimately show ?thesis
    by (auto simp: forEach_def getSelectedPositions_static Let_def) (auto simp: sel_inv_def)
qed

lemma sel_inv_setToUnfiltered: "sel_inv cap sel \<Longrightarrow> n \<le> cap \<Longrightarrow> sel_inv cap (setToUnfiltered n sel)"
  by (simp add: sel_inv_def setToUnfiltered_def)

lemma sel_inv_setToFiltered: "sel_inv cap sel \<Longrightarrow> n \<le> cap \<Longrightarrow> sel_inv cap (setToFiltered n sel)"
  by (simp add: sel_inv_def setToFiltered_def)

lemma sel_inv_setSelSize: "sel_inv cap sel \<Longrightarrow> n \<le> cap \<Longrightarrow> sel_inv cap (setSelSize n sel)"
  by (simp add: sel_inv_def setSelSize_def)

lemma makeDynamic_props:
  assumes "sel_inv cap sel"
  shows "sel_inv cap (makeDynamic cap sel)" "selState (makeDynamic cap sel) = DYNAMIC"
    "selectedSize (makeDynamic cap sel) = selectedSize sel"
    "getSelectedPositions cap (makeDynamic cap sel) = getSelectedPositions cap sel"
  using assms by (auto simp: sel_inv_def makeDynamic_def getSelectedPositions_def
      split: PositionsPtr.splits)

text \<open>The pushes append exactly the positions of the rows that pass the test, in order.\<close>

lemma fold_push_pos:
  "n + length ps \<le> length (selectedPositionsBuffer sel) \<Longrightarrow>
   fold push_pos ps (sel, n) =
     (sel\<lparr>selectedPositionsBuffer := take n (selectedPositionsBuffer sel) @ ps @
        drop (n + length ps) (selectedPositionsBuffer sel)\<rparr>, n + length ps)"
proof (induction ps arbitrary: sel n)
  case Nil
  then show ?case by simp
next
  case (Cons p ps)
  then show ?case
    by (simp add: push_pos_def take_Suc_conv_app_nth)
qed

lemma push_rows_eq:
  "push_rows P pos numRows st = fold push_pos (map ((+) pos) (filter P [0..<numRows])) st"
proof -
  have "fold (\<lambda>i st. if P i then push_pos (pos + i) st else st) xs st =
      fold push_pos (map ((+) pos) (filter P xs)) st" for xs
    by (induction xs arbitrary: st) simp_all
  then show ?thesis by (simp add: push_rows_def)
qed

lemma setToFiltered_push_rows:
  assumes inv: "sel_inv cap sel" and dyn: "selState sel = DYNAMIC"
    and fits: "selectedSize sel + numRows \<le> cap"
    and res: "push_rows P pos numRows (sel, selectedSize sel) = (sel', n')"
  shows "sel_inv cap (setToFiltered n' sel') \<and> selState (setToFiltered n' sel') = DYNAMIC \<and>
    getSelectedPositions cap (setToFiltered n' sel') =
      getSelectedPositions cap sel @ map ((+) pos) (filter P [0..<numRows]) \<and>
    n' \<le> selectedSize sel + numRows"
proof -
  let ?ps = "map ((+) pos) (filter P [0..<numRows])"
  have len: "length ?ps \<le> numRows"
    using length_filter_le [of P "[0..<numRows]"] by simp
  with fits inv have "selectedSize sel + length ?ps \<le> length (selectedPositionsBuffer sel)"
    by (simp add: sel_inv_def)
  from fold_push_pos [OF this] res
  have eqs: "sel' = sel\<lparr>selectedPositionsBuffer :=
      take (selectedSize sel) (selectedPositionsBuffer sel) @ ?ps @
      drop (selectedSize sel + length ?ps) (selectedPositionsBuffer sel)\<rparr>"
    "n' = selectedSize sel + length ?ps"
    by (auto simp: push_rows_eq)
  from inv dyn have "getSelectedPositions cap sel = take (selectedSize sel) (selectedPositionsBuffer sel)"
    by (rule getSelectedPositions_dynamic)
  with eqs inv len fits show ?thesis
    by (auto simp: sel_inv_def setToFiltered_def getSelectedPositions_def)
qed

end
