(* ===== verification/Serializer.thy ===== *)
theory Serializer
  imports Ryu_Prelude
begin

text \<open>
  Serialization (\<^verbatim>\<open>include/common/serializer/serializer.h\<close>, \<^verbatim>\<open>deserializer.h\<close>): a value is written as
  the bytes of its object representation, a string or a vector with its 64-bit length in front. The
  writer is the byte list produced, the reader the bytes left to read; a read past the end is
  \<open>None\<close>. The object representation of an integer is the little-endian one of the supported
  platforms. Debugging keys are written in neither the release nor the default debug build
  (\<^verbatim>\<open>RYU_DESER_DEBUG\<close>), so \<^verbatim>\<open>writeDebuggingInfo\<close> and \<^verbatim>\<open>validateDebuggingInfo\<close> produce and consume
  nothing here.
\<close>

unbundle bit_operations_syntax

type_synonym byte = "8 word"

type_synonym 'a reader = "byte list \<Rightarrow> ('a \<times> byte list) option"

section \<open>Values\<close>

definition serializeValue :: "'a :: len word \<Rightarrow> byte list" where
  "serializeValue w = map (\<lambda>i. ucast (drop_bit (8 * i) w)) [0..<LENGTH('a) div 8]"

fun word_of_bytes :: "byte list \<Rightarrow> 'a :: len word" where
  "word_of_bytes [] = 0"
| "word_of_bytes (b # bs) = ucast b OR push_bit 8 (word_of_bytes bs)"

definition deserializeValue :: "'a :: len word reader" where
  "deserializeValue bs =
     (let n = LENGTH('a) div 8 in
      if length bs < n then None else Some (word_of_bytes (take n bs), drop n bs))"

definition serializeBool :: "bool \<Rightarrow> byte list" where
  "serializeBool b = [if b then 1 else 0]"

definition deserializeBool :: "bool reader" where
  "deserializeBool bs = (case bs of [] \<Rightarrow> None | b # bs' \<Rightarrow> Some (b \<noteq> 0, bs'))"

definition serializeString :: "string \<Rightarrow> byte list" where
  "serializeString s =
     serializeValue (of_nat (length s) :: 64 word) @ map (\<lambda>c. of_nat (of_char c)) s"

definition deserializeString :: "string reader" where
  "deserializeString bs =
     (case deserializeValue bs of
        None \<Rightarrow> None
      | Some (n :: 64 word, bs') \<Rightarrow>
          if length bs' < unat n then None
          else Some (map (\<lambda>b. char_of (unat b)) (take (unat n) bs'), drop (unat n) bs'))"

definition serializeArray :: "('a \<Rightarrow> byte list) \<Rightarrow> 'a list \<Rightarrow> byte list" where
  "serializeArray ser xs = concat (map ser xs)"

fun deserializeArray :: "'a reader \<Rightarrow> nat \<Rightarrow> 'a list reader" where
  "deserializeArray deser 0 bs = Some ([], bs)"
| "deserializeArray deser (Suc n) bs =
     (case deser bs of
        None \<Rightarrow> None
      | Some (x, bs') \<Rightarrow>
          (case deserializeArray deser n bs' of
             None \<Rightarrow> None
           | Some (xs, bs'') \<Rightarrow> Some (x # xs, bs'')))"

definition serializeVector :: "('a \<Rightarrow> byte list) \<Rightarrow> 'a list \<Rightarrow> byte list" where
  "serializeVector ser xs = serializeValue (of_nat (length xs) :: 64 word) @ serializeArray ser xs"

definition deserializeVector :: "'a reader \<Rightarrow> 'a list reader" where
  "deserializeVector deser bs =
     (case deserializeValue bs of
        None \<Rightarrow> None
      | Some (n :: 64 word, bs') \<Rightarrow> deserializeArray deser (unat n) bs')"

definition serializeOptionalValue :: "('a \<Rightarrow> byte list) \<Rightarrow> 'a option \<Rightarrow> byte list" where
  "serializeOptionalValue ser val =
     serializeBool (val = None) @ (case val of None \<Rightarrow> [] | Some v \<Rightarrow> ser v)"

definition deserializeOptionalValue :: "'a reader \<Rightarrow> 'a option reader" where
  "deserializeOptionalValue deser bs =
     (case deserializeBool bs of
        None \<Rightarrow> None
      | Some (isNull, bs') \<Rightarrow>
          if isNull then Some (None, bs')
          else (case deser bs' of None \<Rightarrow> None | Some (v, bs'') \<Rightarrow> Some (Some v, bs'')))"

text \<open>
  A map is the list of its entries in iteration order, \<^verbatim>\<open>emplace\<close> keeps the entry already there, and
  a pointer to a val is written as the val. The unordered containers differ only in that order.
\<close>

definition serializePair ::
    "('k \<Rightarrow> byte list) \<Rightarrow> ('v \<Rightarrow> byte list) \<Rightarrow> 'k \<times> 'v \<Rightarrow> byte list" where
  "serializePair serK serV kv = serK (fst kv) @ serV (snd kv)"

definition deserializePair :: "'k reader \<Rightarrow> 'v reader \<Rightarrow> ('k \<times> 'v) reader" where
  "deserializePair deserK deserV bs =
     (case deserK bs of
        None \<Rightarrow> None
      | Some (k, bs') \<Rightarrow>
          (case deserV bs' of None \<Rightarrow> None | Some (v, bs'') \<Rightarrow> Some ((k, v), bs'')))"

definition serializeMap ::
    "('k \<Rightarrow> byte list) \<Rightarrow> ('v \<Rightarrow> byte list) \<Rightarrow> ('k \<times> 'v) list \<Rightarrow> byte list" where
  "serializeMap serK serV entries =
     serializeValue (of_nat (length entries) :: 64 word) @ serializeArray (serializePair serK serV) entries"

definition emplace :: "'k \<times> 'v \<Rightarrow> ('k \<times> 'v) list \<Rightarrow> ('k \<times> 'v) list" where
  "emplace kv entries = (if fst kv \<in> fst ` set entries then entries else entries @ [kv])"

definition deserializeMap :: "'k reader \<Rightarrow> 'v reader \<Rightarrow> ('k \<times> 'v) list reader" where
  "deserializeMap deserK deserV bs =
     (case deserializeValue bs of
        None \<Rightarrow> None
      | Some (n :: 64 word, bs') \<Rightarrow>
          (case deserializeArray (deserializePair deserK deserV) (unat n) bs' of
             None \<Rightarrow> None
           | Some (kvs, bs'') \<Rightarrow> Some (fold emplace kvs [], bs'')))"

section \<open>The contract of a pair of writer and reader\<close>

locale codec =
  fixes ser :: "'a \<Rightarrow> byte list"
    and deser :: "'a reader"
    and valid :: "'a \<Rightarrow> bool"
  assumes roundtrip: "valid x \<Longrightarrow> deser (ser x @ rest) = Some (x, rest)"
begin

text \<open>Encodings are self-delimiting: what follows a val never changes how it is read.\<close>

lemma self_delimiting:
  assumes "valid x" "valid y" "ser x @ r = ser y @ r'"
  shows "x = y \<and> r = r'"
  using roundtrip [OF assms(1), of r] roundtrip [OF assms(2), of r'] unfolding assms(3) by simp

lemma array_roundtrip:
  "list_all valid xs \<Longrightarrow>
     deserializeArray deser (length xs) (serializeArray ser xs @ rest) = Some (xs, rest)"
  by (induction xs) (simp_all add: serializeArray_def roundtrip)

end

section \<open>Integers\<close>

lemma bit_word_of_bytes:
  "bit (word_of_bytes bs :: 'a :: len word) n \<longleftrightarrow>
     n < LENGTH('a) \<and> n div 8 < length bs \<and> bit (bs ! (n div 8)) (n mod 8)"
proof (induction bs arbitrary: n)
  case Nil
  then show ?case by simp
next
  case (Cons b bs)
  show ?case
  proof (cases "n < 8")
    case True
    then have "n div 8 = 0" "n mod 8 = n" "\<not> 8 \<le> n" by simp_all
    moreover have "bit b n \<Longrightarrow> n < 8" using True by simp
    ultimately show ?thesis
      by (simp only: word_of_bytes.simps bit_or_iff bit_ucast_iff bit_push_bit_iff nth_Cons_0
          length_Cons zero_less_Suc) auto
  next
    case False
    then obtain m where m: "n = 8 + m" using le_iff_add [of 8 n] by auto
    have "\<not> bit b n" using False by (simp add: bit_word.rep_eq)
    then have "bit (word_of_bytes (b # bs) :: 'a word) n \<longleftrightarrow>
        n < LENGTH('a) \<and> bit (word_of_bytes bs :: 'a word) m"
      by (simp add: bit_or_iff bit_ucast_iff bit_push_bit_iff m)
    also have "\<dots> \<longleftrightarrow> n < LENGTH('a) \<and> m div 8 < length bs \<and> bit (bs ! (m div 8)) (m mod 8)"
      using Cons [of m] m by auto
    moreover have "(8 + m) div 8 = Suc (m div 8)" by simp
    ultimately show ?thesis by (simp only: m length_Cons nth_Cons_Suc mod_add_self1 Suc_less_eq)
  qed
qed

lemma length_serializeValue [simp]: "length (serializeValue (w :: 'a :: len word)) = LENGTH('a) div 8"
  unfolding serializeValue_def length_map length_upt by (rule diff_zero)

lemma nth_serializeValue:
  "i < LENGTH('a) div 8 \<Longrightarrow>
     serializeValue (w :: 'a :: len word) ! i = ucast (drop_bit (8 * i) w)"
  by (simp add: serializeValue_def)

lemma word_of_bytes_serializeValue:
  assumes "8 dvd LENGTH('a)"
  shows "word_of_bytes (serializeValue (w :: 'a :: len word)) = w"
proof (rule bit_word_eqI)
  fix n assume n: "n < LENGTH('a)"
  obtain k where k: "LENGTH('a) = 8 * k" using assms by (rule dvdE)
  have "n div 8 < LENGTH('a) div 8" using n unfolding k by (simp add: less_mult_imp_div_less)
  moreover have "bit (ucast (drop_bit (8 * (n div 8)) w) :: byte) (n mod 8) = bit w n"
    unfolding bit_ucast_iff bit_drop_bit_eq o_def mult_div_mod_eq by simp
  ultimately show "bit (word_of_bytes (serializeValue w) :: 'a word) n = bit w n"
    using n by (simp only: bit_word_of_bytes nth_serializeValue length_serializeValue simp_thms)
qed

lemma deserializeValue_serializeValue:
  assumes "8 dvd LENGTH('a)"
  shows "deserializeValue (serializeValue (w :: 'a :: len word) @ rest) = Some (w, rest)"
  unfolding deserializeValue_def Let_def length_append length_serializeValue
  using word_of_bytes_serializeValue [OF assms, of w] by simp

interpretation u8_codec: codec "serializeValue :: 8 word \<Rightarrow> byte list" deserializeValue "\<lambda>_. True"
  by unfold_locales (rule deserializeValue_serializeValue, simp)

interpretation u32_codec: codec "serializeValue :: 32 word \<Rightarrow> byte list" deserializeValue "\<lambda>_. True"
  by unfold_locales (rule deserializeValue_serializeValue, simp)

interpretation u64_codec: codec "serializeValue :: 64 word \<Rightarrow> byte list" deserializeValue "\<lambda>_. True"
  by unfold_locales (rule deserializeValue_serializeValue, simp)

interpretation bool_codec: codec serializeBool deserializeBool "\<lambda>_. True"
  by unfold_locales (simp add: serializeBool_def deserializeBool_def)

section \<open>Strings and vectors\<close>

definition fits_u64 :: "'a list \<Rightarrow> bool" where
  "fits_u64 xs \<longleftrightarrow> length xs < 2 ^ 64"

lemma fits_u64_code [code]: "fits_u64 xs \<longleftrightarrow> int (length xs) < 2 ^ 64"
  unfolding fits_u64_def by (metis of_nat_less_iff of_nat_numeral of_nat_power)

lemma unat_length_u64: "fits_u64 xs \<Longrightarrow> unat (of_nat (length xs) :: 64 word) = length xs"
  by (simp add: fits_u64_def unat_of_nat)

lemma char_byte_roundtrip: "char_of (unat (of_nat (of_char c) :: byte)) = c"
  by (simp add: unat_of_nat)

interpretation string_codec: codec serializeString deserializeString fits_u64
proof
  fix x :: string and rest :: "byte list"
  assume x: "fits_u64 x"
  have bytes: "map (\<lambda>b. char_of (unat b)) (map (\<lambda>c. of_nat (of_char c) :: byte) x) = x"
    by (induction x) (simp_all add: char_byte_roundtrip del: unat_of_nat)
  show "deserializeString (serializeString x @ rest) = Some (x, rest)"
    unfolding deserializeString_def serializeString_def append_assoc u64_codec.roundtrip [OF TrueI]
    using unat_length_u64 [OF x] bytes by simp
qed

context codec begin

lemma vector_roundtrip:
  "list_all valid xs \<Longrightarrow> fits_u64 xs \<Longrightarrow>
     deserializeVector deser (serializeVector ser xs @ rest) = Some (xs, rest)"
  unfolding deserializeVector_def serializeVector_def append_assoc u64_codec.roundtrip [OF TrueI]
  using unat_length_u64 [of xs] array_roundtrip by simp

end

section \<open>Composed codecs\<close>

text \<open>The combinators keep the contract: what the parts promise, the optional value, the pair and
  the map promise.\<close>

locale codec_pair = kc: codec serK deserK validK + vc: codec serV deserV validV
  for serK :: "'k \<Rightarrow> byte list" and deserK and validK
    and serV :: "'v \<Rightarrow> byte list" and deserV and validV
begin

lemma pair_roundtrip:
  "validK (fst kv) \<Longrightarrow> validV (snd kv) \<Longrightarrow>
     deserializePair deserK deserV (serializePair serK serV kv @ rest) = Some (kv, rest)"
  by (simp add: deserializePair_def serializePair_def kc.roundtrip vc.roundtrip)

lemma optional_roundtrip:
  "pred_option validV val \<Longrightarrow>
     deserializeOptionalValue deserV (serializeOptionalValue serV val @ rest) = Some (val, rest)"
  by (cases val) (simp_all add: deserializeOptionalValue_def serializeOptionalValue_def
      bool_codec.roundtrip vc.roundtrip)

lemma entries_roundtrip:
  "list_all (\<lambda>kv. validK (fst kv) \<and> validV (snd kv)) entries \<Longrightarrow>
     deserializeArray (deserializePair deserK deserV) (length entries)
       (serializeArray (serializePair serK serV) entries @ rest) = Some (entries, rest)"
  by (induction entries) (simp_all add: serializeArray_def pair_roundtrip)

lemma emplace_distinct:
  "distinct (map fst (acc @ entries)) \<Longrightarrow> fold emplace entries acc = acc @ entries"
  by (induction entries arbitrary: acc) (auto simp: emplace_def)

lemma map_roundtrip:
  assumes "list_all (\<lambda>kv. validK (fst kv) \<and> validV (snd kv)) entries"
    and "distinct (map fst entries)" "fits_u64 entries"
  shows "deserializeMap deserK deserV (serializeMap serK serV entries @ rest) = Some (entries, rest)"
  unfolding deserializeMap_def serializeMap_def append_assoc u64_codec.roundtrip [OF TrueI]
  using unat_length_u64 [OF assms(3)] entries_roundtrip [OF assms(1)] emplace_distinct [of "[]" entries] assms(2)
  by simp

end

interpretation string_u64: codec_pair serializeString deserializeString fits_u64
    "serializeValue :: 64 word \<Rightarrow> byte list" deserializeValue "\<lambda>_. True"
  by unfold_locales

text \<open>
  A map from strings to 64-bit entries is read back as it was written, entry by entry, whatever
  follows it in the stream.
\<close>

theorem string_map_roundtrip:
  assumes "fits_u64 entries" "distinct (map fst entries)" "list_all (\<lambda>kv. fits_u64 (fst kv)) entries"
  shows "deserializeMap deserializeString deserializeValue
      (serializeMap serializeString serializeValue (entries :: (string \<times> 64 word) list) @ rest) =
    Some (entries, rest)"
  by (rule string_u64.map_roundtrip) (use assms in simp_all)

theorem string_map_roundtrip_witness:
  "deserializeMap deserializeString (deserializeValue :: 64 word reader)
      (serializeMap serializeString serializeValue [(''a'', 1 :: 64 word), (''bc'', 2)] @ [9]) =
    Some ([(''a'', 1), (''bc'', 2)], [9])"
  by (rule string_map_roundtrip) code_simp+

end
