(* ===== verification/Version_Info.thy ===== *)
theory Version_Info
  imports Snapshot Selection_Vector Serializer "HOL-Library.Monad_Syntax"
begin

text \<open>
  Row versions (\<^verbatim>\<open>storage/table/version_info.cpp\<close>). A \<open>VersionInfo\<close> keeps, for every vector of
  \<open>cap\<close> (\<^verbatim>\<open>DEFAULT_VECTOR_CAPACITY\<close>) rows, the transaction that inserted and the transaction that
  deleted each row, with a compressed form for vectors all of whose rows share the version. The
  definitions follow the file in order. The abstraction \<open>row_ins\<close> and \<open>row_del\<close> reads one version
  per row, whatever the form it is stored in; the lemmas show each operation on it.
\<close>

section \<open>Versions of one vector\<close>

datatype InsertionStatus = NO_INSERTED | CHECK_VERSION | ALWAYS_INSERTED

datatype DeletionStatus = NO_DELETED | CHECK_VERSION

record VectorVersionInfo =
  insertedVersions :: "transaction_t list option"
  deletedVersions :: "transaction_t list option"
  sameInsertionVersion :: transaction_t
  sameDeletionVersion :: transaction_t
  insertionStatus :: InsertionStatus
  deletionStatus :: DeletionStatus

definition VectorVersionInfo_new :: VectorVersionInfo where
  "VectorVersionInfo_new =
     \<lparr>insertedVersions = None, deletedVersions = None,
      sameInsertionVersion = INVALID_TRANSACTION, sameDeletionVersion = INVALID_TRANSACTION,
      insertionStatus = NO_INSERTED, deletionStatus = NO_DELETED\<rparr>"

definition isSameInsertionVersion :: "VectorVersionInfo \<Rightarrow> bool" where
  "isSameInsertionVersion v \<longleftrightarrow> sameInsertionVersion v \<noteq> INVALID_TRANSACTION"

definition isSameDeletionVersion :: "VectorVersionInfo \<Rightarrow> bool" where
  "isSameDeletionVersion v \<longleftrightarrow> sameDeletionVersion v \<noteq> INVALID_TRANSACTION"

definition initInsertionVersionArray :: "nat \<Rightarrow> VectorVersionInfo \<Rightarrow> VectorVersionInfo" where
  "initInsertionVersionArray cap v =
     v\<lparr>insertedVersions := Some (replicate cap INVALID_TRANSACTION)\<rparr>"

definition initDeletionVersionArray :: "nat \<Rightarrow> VectorVersionInfo \<Rightarrow> VectorVersionInfo" where
  "initDeletionVersionArray cap v =
     v\<lparr>deletedVersions := Some (replicate cap INVALID_TRANSACTION)\<rparr>"

definition VectorVersionInfo_append ::
    "nat \<Rightarrow> transaction_t \<Rightarrow> nat \<Rightarrow> nat \<Rightarrow> VectorVersionInfo \<Rightarrow> VectorVersionInfo" where
  "VectorVersionInfo_append cap transactionID startRow numRows v =
     (let v = v\<lparr>insertionStatus := InsertionStatus.CHECK_VERSION\<rparr> in
      if transactionID = sameInsertionVersion v then v
      else if \<not> isSameInsertionVersion v \<and> insertedVersions v = None
      then v\<lparr>sameInsertionVersion := transactionID\<rparr>
      else
        (let v = (if insertedVersions v = None
                  then (let v = initInsertionVersionArray cap v in
                        v\<lparr>insertedVersions :=
                            Some (fill_range (the (insertedVersions v)) 0 startRow
                                   (sameInsertionVersion v)),
                          sameInsertionVersion := INVALID_TRANSACTION\<rparr>)
                  else v)
         in v\<lparr>insertedVersions :=
                Some (fill_range (the (insertedVersions v)) startRow numRows transactionID)\<rparr>))"

abbreviation ww_delete_conflict :: exn where
  "ww_delete_conflict \<equiv> RuntimeException
     ''Write-write conflict: deleting a row that is already deleted by another transaction.''"

definition VectorVersionInfo_delete ::
    "nat \<Rightarrow> transaction_t \<Rightarrow> nat \<Rightarrow> VectorVersionInfo \<Rightarrow> (exn + bool) \<times> VectorVersionInfo" where
  "VectorVersionInfo_delete cap transactionID rowIdx v =
     (let v = v\<lparr>deletionStatus := DeletionStatus.CHECK_VERSION\<rparr> in
      if transactionID = sameDeletionVersion v then (Inr False, v)
      else if isSameDeletionVersion v then (Inl ww_delete_conflict, v)
      else
        (let v = (if deletedVersions v = None then initDeletionVersionArray cap v else v);
             deleted = the (deletedVersions v)
         in if deleted ! rowIdx = transactionID then (Inr False, v)
            else if deleted ! rowIdx \<noteq> INVALID_TRANSACTION then (Inl ww_delete_conflict, v)
            else (Inr True, v\<lparr>deletedVersions := Some (deleted[rowIdx := transactionID])\<rparr>)))"

definition setInsertCommitTS ::
    "transaction_t \<Rightarrow> nat \<Rightarrow> nat \<Rightarrow> VectorVersionInfo \<Rightarrow> VectorVersionInfo" where
  "setInsertCommitTS commitTS startRow numRows v =
     (if isSameInsertionVersion v then v\<lparr>sameInsertionVersion := commitTS\<rparr>
      else v\<lparr>insertedVersions :=
               Some (fill_range (the (insertedVersions v)) startRow numRows commitTS)\<rparr>)"

definition setDeleteCommitTS ::
    "transaction_t \<Rightarrow> nat \<Rightarrow> nat \<Rightarrow> VectorVersionInfo \<Rightarrow> VectorVersionInfo" where
  "setDeleteCommitTS commitTS startRow numRows v =
     (if isSameDeletionVersion v then v\<lparr>sameDeletionVersion := commitTS\<rparr>
      else v\<lparr>deletedVersions :=
               Some (fill_range (the (deletedVersions v)) startRow numRows commitTS)\<rparr>)"

definition VectorVersionInfo_isDeleted ::
    "transaction_t \<Rightarrow> transaction_t \<Rightarrow> nat \<Rightarrow> VectorVersionInfo \<Rightarrow> bool" where
  "VectorVersionInfo_isDeleted startTS transactionID rowIdx v =
     (case deletionStatus v of
        NO_DELETED \<Rightarrow> False
      | DeletionStatus.CHECK_VERSION \<Rightarrow>
          (let deletion = (if isSameDeletionVersion v then sameDeletionVersion v
                           else the (deletedVersions v) ! rowIdx)
           in deletion = transactionID \<or> deletion \<le> startTS))"

definition VectorVersionInfo_isInserted ::
    "transaction_t \<Rightarrow> transaction_t \<Rightarrow> nat \<Rightarrow> VectorVersionInfo \<Rightarrow> bool" where
  "VectorVersionInfo_isInserted startTS transactionID rowIdx v =
     (case insertionStatus v of
        ALWAYS_INSERTED \<Rightarrow> True
      | NO_INSERTED \<Rightarrow> False
      | InsertionStatus.CHECK_VERSION \<Rightarrow>
          (let insertion = (if isSameInsertionVersion v then sameInsertionVersion v
                            else the (insertedVersions v) ! rowIdx)
           in insertion = transactionID \<or> insertion \<le> startTS))"

definition VectorVersionInfo_isSelected ::
    "transaction_t \<Rightarrow> transaction_t \<Rightarrow> nat \<Rightarrow> VectorVersionInfo \<Rightarrow> bool" where
  "VectorVersionInfo_isSelected startTS transactionID rowIdx v =
     (if deletionStatus v = NO_DELETED \<and> insertionStatus v = ALWAYS_INSERTED then True
      else if insertionStatus v = NO_INSERTED then False
      else if VectorVersionInfo_isInserted startTS transactionID rowIdx v
      then \<not> VectorVersionInfo_isDeleted startTS transactionID rowIdx v
      else False)"

definition getSelVectorForScan ::
    "nat \<Rightarrow> transaction_t \<Rightarrow> transaction_t \<Rightarrow> nat \<Rightarrow> nat \<Rightarrow> nat \<Rightarrow> VectorVersionInfo \<Rightarrow>
     SelectionVector \<Rightarrow> SelectionVector" where
  "getSelVectorForScan cap startTS transactionID startRow numRows startOutputPos v sel =
     (let numSelected = selectedSize sel in
      if deletionStatus v = NO_DELETED \<and> insertionStatus v = ALWAYS_INSERTED
      then (if isUnfiltered cap sel then setSelSize (selectedSize sel + numRows) sel
            else (let (sel, numSelected) =
                        push_rows (\<lambda>_. True) startOutputPos numRows (sel, numSelected)
                  in setToFiltered numSelected sel))
      else if insertionStatus v \<noteq> NO_INSERTED
      then (let sel = (if isUnfiltered cap sel then makeDynamic cap sel else sel);
                (sel, numSelected) =
                  push_rows (\<lambda>i. VectorVersionInfo_isInserted startTS transactionID (startRow + i) v \<and>
                               \<not> VectorVersionInfo_isDeleted startTS transactionID (startRow + i) v)
                    startOutputPos numRows (sel, numSelected)
            in setToFiltered numSelected sel)
      else sel)"

definition VectorVersionInfo_getNumDeletions ::
    "transaction_t \<Rightarrow> transaction_t \<Rightarrow> nat \<Rightarrow> nat \<Rightarrow> VectorVersionInfo \<Rightarrow> nat" where
  "VectorVersionInfo_getNumDeletions startTS transactionID startRow numRows v =
     (if deletionStatus v = NO_DELETED then 0
      else fold (\<lambda>i n. n + (if VectorVersionInfo_isDeleted startTS transactionID (startRow + i) v
                            then 1 else 0)) [0..<numRows] 0)"

definition rollbackInsertions :: "nat \<Rightarrow> nat \<Rightarrow> VectorVersionInfo \<Rightarrow> VectorVersionInfo" where
  "rollbackInsertions startRowInVector numRows v =
     (let v = (if isSameInsertionVersion v then v\<lparr>sameInsertionVersion := INVALID_TRANSACTION\<rparr>
               else case insertedVersions v of
                 None \<Rightarrow> v
               | Some a \<Rightarrow>
                   (let a = fill_range a startRowInVector numRows INVALID_TRANSACTION
                    in v\<lparr>insertedVersions :=
                           (if list_ex (\<lambda>version. version \<noteq> INVALID_TRANSACTION) a
                            then Some a else None)\<rparr>))
      in if insertedVersions v = None
         then v\<lparr>insertionStatus := NO_INSERTED, deletionStatus := NO_DELETED\<rparr> else v)"

definition rollbackDeletions :: "nat \<Rightarrow> nat \<Rightarrow> VectorVersionInfo \<Rightarrow> VectorVersionInfo" where
  "rollbackDeletions startRowInVector numRows v =
     (let v = (if isSameDeletionVersion v then v\<lparr>sameDeletionVersion := INVALID_TRANSACTION\<rparr>
               else case deletedVersions v of
                 None \<Rightarrow> v
               | Some a \<Rightarrow>
                   (let a = fill_range a startRowInVector numRows INVALID_TRANSACTION
                    in v\<lparr>deletedVersions :=
                           (if list_ex (\<lambda>version. version \<noteq> INVALID_TRANSACTION) a
                            then Some a else None)\<rparr>))
      in if deletedVersions v = None then v\<lparr>deletionStatus := NO_DELETED\<rparr> else v)"

text \<open>
  \<^verbatim>\<open>VectorVersionInfo::hasDeletions\<close> dereferences \<^verbatim>\<open>deletedVersions\<close> without a test; \<open>None\<close> is the
  null dereference.
\<close>

definition VectorVersionInfo_hasDeletions ::
    "transaction_t \<Rightarrow> transaction_t \<Rightarrow> VectorVersionInfo \<Rightarrow> bool option" where
  "VectorVersionInfo_hasDeletions startTS transactionID v =
     (if isSameDeletionVersion v
      then Some (sameDeletionVersion v \<le> startTS \<or> sameDeletionVersion v = transactionID)
      else case deletedVersions v of
        None \<Rightarrow> None
      | Some a \<Rightarrow>
          Some (0 < fold (\<lambda>i n. n + (if VectorVersionInfo_isDeleted startTS transactionID i v
                                     then 1 else 0)) [0..<length a] (0 :: nat)))"

section \<open>Versions of a chunk\<close>

record VersionInfo =
  vectorsInfo :: "VectorVersionInfo option list"

definition VersionInfo_new :: VersionInfo where
  "VersionInfo_new = \<lparr>vectorsInfo = []\<rparr>"

text \<open>
  \<^verbatim>\<open>getOrCreateVersionInfo\<close> returns a reference; here it returns the value and the updated object,
  and \<open>putVectorInfo\<close> is the write through the reference.
\<close>

definition getOrCreateVersionInfo :: "nat \<Rightarrow> VersionInfo \<Rightarrow> VectorVersionInfo \<times> VersionInfo" where
  "getOrCreateVersionInfo vectorIdx vi =
     (let infos = (if length (vectorsInfo vi) \<le> vectorIdx
                   then resize_null (vectorsInfo vi) (vectorIdx + 1) else vectorsInfo vi);
          infos = (if infos ! vectorIdx = None then infos[vectorIdx := Some VectorVersionInfo_new]
                   else infos)
      in (the (infos ! vectorIdx), vi\<lparr>vectorsInfo := infos\<rparr>))"

definition putVectorInfo :: "nat \<Rightarrow> VectorVersionInfo \<Rightarrow> VersionInfo \<Rightarrow> VersionInfo" where
  "putVectorInfo vectorIdx v vi = vi\<lparr>vectorsInfo := (vectorsInfo vi)[vectorIdx := Some v]\<rparr>"

definition getVectorVersionInfo :: "nat \<Rightarrow> VersionInfo \<Rightarrow> VectorVersionInfo option" where
  "getVectorVersionInfo vectorIdx vi = opt_nth (vectorsInfo vi) vectorIdx"

text \<open>
  The part of the rows \<open>startRow ..< startRow + numRows\<close> that lies in a vector, as first row in the
  vector and number of rows; every operation on a row range computes it, and the ones that write
  visit the vectors as \<open>for_vectors\<close> does.
\<close>

definition rows_in_vector :: "nat \<Rightarrow> nat \<Rightarrow> nat \<Rightarrow> nat \<Rightarrow> nat \<times> nat" where
  "rows_in_vector cap startRow numRows vectorIdx =
     (let startVectorIdx = startRow div cap; startRowIdxInVector = startRow mod cap;
          endVectorIdx = (startRow + numRows - 1) div cap;
          endRowIdxInVector = (startRow + numRows - 1) mod cap;
          startRowIdx = (if vectorIdx = startVectorIdx then startRowIdxInVector else 0);
          endRowIdx = (if vectorIdx = endVectorIdx then endRowIdxInVector else cap - 1)
      in (startRowIdx, endRowIdx - startRowIdx + 1))"

definition vectors_of_rows :: "nat \<Rightarrow> nat \<Rightarrow> nat \<Rightarrow> nat list" where
  "vectors_of_rows cap startRow numRows =
     [startRow div cap..<(startRow + numRows - 1) div cap + 1]"

definition for_vectors ::
    "nat \<Rightarrow> nat \<Rightarrow> nat \<Rightarrow> (nat \<Rightarrow> nat \<Rightarrow> VectorVersionInfo \<Rightarrow> VectorVersionInfo) \<Rightarrow>
     VersionInfo \<Rightarrow> VersionInfo" where
  "for_vectors cap startRow numRows f vi =
     (if numRows = 0 then vi
      else fold (\<lambda>vectorIdx vi.
             (let (startRowIdx, numRowsInVector) = rows_in_vector cap startRow numRows vectorIdx;
                  (v, vi) = getOrCreateVersionInfo vectorIdx vi
              in putVectorInfo vectorIdx (f startRowIdx numRowsInVector v) vi))
           (vectors_of_rows cap startRow numRows) vi)"

definition VersionInfo_append ::
    "nat \<Rightarrow> transaction_t \<Rightarrow> nat \<Rightarrow> nat \<Rightarrow> VersionInfo \<Rightarrow> VersionInfo" where
  "VersionInfo_append cap transactionID startRow numRows =
     for_vectors cap startRow numRows (VectorVersionInfo_append cap transactionID)"

definition VersionInfo_delete ::
    "nat \<Rightarrow> transaction_t \<Rightarrow> nat \<Rightarrow> VersionInfo \<Rightarrow> (exn + bool) \<times> VersionInfo" where
  "VersionInfo_delete cap transactionID rowIdx vi =
     (let vectorIdx = rowIdx div cap; rowIdxInVector = rowIdx mod cap;
          (v, vi) = getOrCreateVersionInfo vectorIdx vi;
          v = (if insertionStatus v = NO_INSERTED then v\<lparr>insertionStatus := ALWAYS_INSERTED\<rparr>
               else v);
          (res, v) = VectorVersionInfo_delete cap transactionID rowIdxInVector v
      in (res, putVectorInfo vectorIdx v vi))"

definition VersionInfo_isSelected ::
    "nat \<Rightarrow> transaction_t \<Rightarrow> transaction_t \<Rightarrow> nat \<Rightarrow> VersionInfo \<Rightarrow> bool" where
  "VersionInfo_isSelected cap startTS transactionID rowIdx vi =
     (case getVectorVersionInfo (rowIdx div cap) vi of
        Some v \<Rightarrow> VectorVersionInfo_isSelected startTS transactionID (rowIdx mod cap) v
      | None \<Rightarrow> True)"

definition getSelVectorToScan ::
    "nat \<Rightarrow> transaction_t \<Rightarrow> transaction_t \<Rightarrow> nat \<Rightarrow> nat \<Rightarrow> VersionInfo \<Rightarrow> SelectionVector \<Rightarrow>
     SelectionVector" where
  "getSelVectorToScan cap startTS transactionID startRow numRows vi sel =
     (if numRows = 0 then sel
      else fst (fold (\<lambda>vectorIdx (sel, outputPos).
             (let (startRowIdx, numRowsInVector) = rows_in_vector cap startRow numRows vectorIdx;
                  sel = (case getVectorVersionInfo vectorIdx vi of
                     None \<Rightarrow>
                       (let numSelected = selectedSize sel in
                        if isUnfiltered cap sel
                        then setSelSize (numSelected + numRowsInVector) sel
                        else (let (sel, numSelected) =
                                push_rows (\<lambda>_. True) outputPos numRowsInVector (sel, numSelected)
                              in setToFiltered numSelected sel))
                   | Some v \<Rightarrow>
                       getSelVectorForScan cap startTS transactionID startRowIdx numRowsInVector
                         outputPos v sel)
              in (sel, outputPos + numRowsInVector)))
           (vectors_of_rows cap startRow numRows) (setToUnfiltered 0 sel, 0)))"

definition clearVectorInfo :: "nat \<Rightarrow> VersionInfo \<Rightarrow> VersionInfo" where
  "clearVectorInfo vectorIdx vi = vi\<lparr>vectorsInfo := (vectorsInfo vi)[vectorIdx := None]\<rparr>"

definition VersionInfo_hasDeletions :: "VersionInfo \<Rightarrow> bool" where
  "VersionInfo_hasDeletions vi =
     list_ex (\<lambda>info. case info of None \<Rightarrow> False
        | Some v \<Rightarrow> deletionStatus v = DeletionStatus.CHECK_VERSION) (vectorsInfo vi)"

definition VersionInfo_getNumDeletions ::
    "nat \<Rightarrow> transaction_t \<Rightarrow> transaction_t \<Rightarrow> nat \<Rightarrow> nat \<Rightarrow> VersionInfo \<Rightarrow> nat" where
  "VersionInfo_getNumDeletions cap startTS transactionID startRow numRows vi =
     (if numRows = 0 then 0
      else fold (\<lambda>vectorIdx numDeletions.
             (let rowInVector = (if vectorIdx = startRow div cap then startRow mod cap else 0);
                  numRowsInVector = (if vectorIdx = (startRow + numRows - 1) div cap
                    then (startRow + numRows - 1) mod cap - rowInVector + 1
                    else cap - rowInVector)
              in case getVectorVersionInfo vectorIdx vi of
                   None \<Rightarrow> numDeletions
                 | Some v \<Rightarrow> numDeletions +
                     VectorVersionInfo_getNumDeletions startTS transactionID rowInVector
                       numRowsInVector v))
           (vectors_of_rows cap startRow numRows) 0)"

definition VersionInfo_hasInsertions :: "VersionInfo \<Rightarrow> bool" where
  "VersionInfo_hasInsertions vi =
     list_ex (\<lambda>info. case info of None \<Rightarrow> False
        | Some v \<Rightarrow> insertionStatus v = InsertionStatus.CHECK_VERSION) (vectorsInfo vi)"

definition VersionInfo_isDeleted ::
    "nat \<Rightarrow> transaction_t \<Rightarrow> transaction_t \<Rightarrow> nat \<Rightarrow> VersionInfo \<Rightarrow> bool" where
  "VersionInfo_isDeleted cap startTS transactionID rowInChunk vi =
     (case getVectorVersionInfo (rowInChunk div cap) vi of
        Some v \<Rightarrow> VectorVersionInfo_isDeleted startTS transactionID (rowInChunk mod cap) v
      | None \<Rightarrow> False)"

definition VersionInfo_isInserted ::
    "nat \<Rightarrow> transaction_t \<Rightarrow> transaction_t \<Rightarrow> nat \<Rightarrow> VersionInfo \<Rightarrow> bool" where
  "VersionInfo_isInserted cap startTS transactionID rowInChunk vi =
     (case getVectorVersionInfo (rowInChunk div cap) vi of
        Some v \<Rightarrow> VectorVersionInfo_isInserted startTS transactionID (rowInChunk mod cap) v
      | None \<Rightarrow> True)"

fun VersionInfo_hasDeletionsFor ::
    "transaction_t \<Rightarrow> transaction_t \<Rightarrow> VectorVersionInfo option list \<Rightarrow> bool option" where
  "VersionInfo_hasDeletionsFor startTS transactionID [] = Some False"
| "VersionInfo_hasDeletionsFor startTS transactionID (None # infos) =
     VersionInfo_hasDeletionsFor startTS transactionID infos"
| "VersionInfo_hasDeletionsFor startTS transactionID (Some v # infos) =
     (case VectorVersionInfo_hasDeletions startTS transactionID v of
        None \<Rightarrow> None
      | Some True \<Rightarrow> Some True
      | Some False \<Rightarrow> VersionInfo_hasDeletionsFor startTS transactionID infos)"

definition VersionInfo_commitInsert ::
    "nat \<Rightarrow> nat \<Rightarrow> nat \<Rightarrow> transaction_t \<Rightarrow> VersionInfo \<Rightarrow> VersionInfo" where
  "VersionInfo_commitInsert cap startRow numRows commitTS =
     for_vectors cap startRow numRows (setInsertCommitTS commitTS)"

definition VersionInfo_rollbackInsert :: "nat \<Rightarrow> nat \<Rightarrow> nat \<Rightarrow> VersionInfo \<Rightarrow> VersionInfo" where
  "VersionInfo_rollbackInsert cap startRow numRows =
     for_vectors cap startRow numRows rollbackInsertions"

definition VersionInfo_commitDelete ::
    "nat \<Rightarrow> nat \<Rightarrow> nat \<Rightarrow> transaction_t \<Rightarrow> VersionInfo \<Rightarrow> VersionInfo" where
  "VersionInfo_commitDelete cap startRow numRows commitTS =
     for_vectors cap startRow numRows (setDeleteCommitTS commitTS)"

definition VersionInfo_rollbackDelete :: "nat \<Rightarrow> nat \<Rightarrow> nat \<Rightarrow> VersionInfo \<Rightarrow> VersionInfo" where
  "VersionInfo_rollbackDelete cap startRow numRows =
     for_vectors cap startRow numRows rollbackDeletions"

section \<open>Serialization\<close>

fun InsertionStatus_byte :: "InsertionStatus \<Rightarrow> 8 word" where
  "InsertionStatus_byte NO_INSERTED = 0"
| "InsertionStatus_byte InsertionStatus.CHECK_VERSION = 1"
| "InsertionStatus_byte ALWAYS_INSERTED = 2"

fun DeletionStatus_byte :: "DeletionStatus \<Rightarrow> 8 word" where
  "DeletionStatus_byte NO_DELETED = 0"
| "DeletionStatus_byte DeletionStatus.CHECK_VERSION = 1"

definition InsertionStatus_of_byte :: "8 word \<Rightarrow> InsertionStatus option" where
  "InsertionStatus_of_byte b =
     (if b = 0 then Some NO_INSERTED else if b = 1 then Some InsertionStatus.CHECK_VERSION
      else if b = 2 then Some ALWAYS_INSERTED else None)"

definition DeletionStatus_of_byte :: "8 word \<Rightarrow> DeletionStatus option" where
  "DeletionStatus_of_byte b =
     (if b = 0 then Some NO_DELETED else if b = 1 then Some DeletionStatus.CHECK_VERSION
      else None)"

definition VectorVersionInfo_serialize :: "VectorVersionInfo \<Rightarrow> byte list" where
  "VectorVersionInfo_serialize v =
     serializeValue (InsertionStatus_byte (insertionStatus v)) @
     serializeValue (DeletionStatus_byte (deletionStatus v)) @
     (case deletionStatus v of
        NO_DELETED \<Rightarrow> []
      | DeletionStatus.CHECK_VERSION \<Rightarrow>
          serializeValue (sameDeletionVersion v) @
          (if sameDeletionVersion v = INVALID_TRANSACTION
           then serializeArray serializeValue (the (deletedVersions v)) else []))"

definition VectorVersionInfo_deSerialize :: "nat \<Rightarrow> VectorVersionInfo reader" where
  "VectorVersionInfo_deSerialize cap bs =
     do {
       (b, bs) \<leftarrow> deserializeValue bs;
       ins \<leftarrow> InsertionStatus_of_byte b;
       (b, bs) \<leftarrow> deserializeValue bs;
       del \<leftarrow> DeletionStatus_of_byte b;
       let v = VectorVersionInfo_new\<lparr>insertionStatus := ins, deletionStatus := del\<rparr>;
       case del of
         NO_DELETED \<Rightarrow> Some (v, bs)
       | DeletionStatus.CHECK_VERSION \<Rightarrow> do {
           (same, bs) \<leftarrow> deserializeValue bs;
           let v = v\<lparr>sameDeletionVersion := same\<rparr>;
           if same = INVALID_TRANSACTION
           then do {
             (deleted, bs) \<leftarrow> deserializeArray deserializeValue cap bs;
             Some (v\<lparr>deletedVersions := Some deleted\<rparr>, bs)
           }
           else Some (v, bs)
         }
     }"

definition serializeVectorSlot :: "VectorVersionInfo option \<Rightarrow> byte list" where
  "serializeVectorSlot info =
     serializeBool (info \<noteq> None) @
     (case info of None \<Rightarrow> [] | Some v \<Rightarrow> VectorVersionInfo_serialize v)"

definition deserializeVectorSlot :: "nat \<Rightarrow> VectorVersionInfo option reader" where
  "deserializeVectorSlot cap bs =
     do {
       (hasVectorVersion, bs) \<leftarrow> deserializeBool bs;
       if hasVectorVersion
       then do { (v, bs) \<leftarrow> VectorVersionInfo_deSerialize cap bs; Some (Some v, bs) }
       else Some (None, bs)
     }"

definition VersionInfo_serialize :: "VersionInfo \<Rightarrow> byte list" where
  "VersionInfo_serialize vi = serializeVector serializeVectorSlot (vectorsInfo vi)"

definition VersionInfo_deserialize :: "nat \<Rightarrow> VersionInfo reader" where
  "VersionInfo_deserialize cap bs =
     do {
       (infos, bs) \<leftarrow> deserializeVector (deserializeVectorSlot cap) bs;
       Some (\<lparr>vectorsInfo = infos\<rparr>, bs)
     }"

section \<open>Abstraction and invariant\<close>

text \<open>The version a row carries; version 0 is that of checkpointed rows, older than any snapshot.\<close>

fun ins_ver :: "InsertionStatus \<Rightarrow> transaction_t \<Rightarrow> transaction_t list option \<Rightarrow> nat \<Rightarrow> transaction_t" where
  "ins_ver NO_INSERTED same arr row = INVALID_TRANSACTION"
| "ins_ver ALWAYS_INSERTED same arr row = 0"
| "ins_ver InsertionStatus.CHECK_VERSION same arr row =
     (if same \<noteq> INVALID_TRANSACTION then same else the arr ! row)"

fun del_ver :: "DeletionStatus \<Rightarrow> transaction_t \<Rightarrow> transaction_t list option \<Rightarrow> nat \<Rightarrow> transaction_t" where
  "del_ver NO_DELETED same arr row = INVALID_TRANSACTION"
| "del_ver DeletionStatus.CHECK_VERSION same arr row =
     (if same \<noteq> INVALID_TRANSACTION then same else the arr ! row)"

definition ins_version :: "VectorVersionInfo \<Rightarrow> nat \<Rightarrow> transaction_t" where
  "ins_version v = ins_ver (insertionStatus v) (sameInsertionVersion v) (insertedVersions v)"

definition del_version :: "VectorVersionInfo \<Rightarrow> nat \<Rightarrow> transaction_t" where
  "del_version v = del_ver (deletionStatus v) (sameDeletionVersion v) (deletedVersions v)"

definition row_ins :: "nat \<Rightarrow> VersionInfo \<Rightarrow> nat \<Rightarrow> transaction_t" where
  "row_ins cap vi row =
     (case getVectorVersionInfo (row div cap) vi of
        None \<Rightarrow> 0 | Some v \<Rightarrow> ins_version v (row mod cap))"

definition row_del :: "nat \<Rightarrow> VersionInfo \<Rightarrow> nat \<Rightarrow> transaction_t" where
  "row_del cap vi row =
     (case getVectorVersionInfo (row div cap) vi of
        None \<Rightarrow> INVALID_TRANSACTION | Some v \<Rightarrow> del_version v (row mod cap))"

fun array_ok :: "nat \<Rightarrow> transaction_t list option \<Rightarrow> transaction_t \<Rightarrow> bool \<Rightarrow> bool" where
  "array_ok cap None same checked \<longleftrightarrow> (checked \<longleftrightarrow> same \<noteq> INVALID_TRANSACTION)"
| "array_ok cap (Some a) same checked \<longleftrightarrow>
     checked \<and> length a = cap \<and> same = INVALID_TRANSACTION"

definition vvi_inv :: "nat \<Rightarrow> VectorVersionInfo \<Rightarrow> bool" where
  "vvi_inv cap v \<longleftrightarrow>
     array_ok cap (insertedVersions v) (sameInsertionVersion v)
       (insertionStatus v = InsertionStatus.CHECK_VERSION) \<and>
     array_ok cap (deletedVersions v) (sameDeletionVersion v)
       (deletionStatus v = DeletionStatus.CHECK_VERSION)"

definition vi_inv :: "nat \<Rightarrow> VersionInfo \<Rightarrow> bool" where
  "vi_inv cap vi \<longleftrightarrow> (\<forall>j v. getVectorVersionInfo j vi = Some v \<longrightarrow> vvi_inv cap v)"

lemmas vvi_simps [simp] = isSameInsertionVersion_def isSameDeletionVersion_def
  initInsertionVersionArray_def initDeletionVersionArray_def

lemma isInserted_visible:
  "snapshot_ok ts i \<Longrightarrow> VectorVersionInfo_isInserted ts i row v = visible ts i (ins_version v row)"
  by (cases "insertionStatus v") (simp_all add: VectorVersionInfo_isInserted_def ins_version_def Let_def
      visible_def [of ts i "the _ ! _"] visible_def [of ts i "sameInsertionVersion _"])

lemma isDeleted_visible:
  "snapshot_ok ts i \<Longrightarrow> VectorVersionInfo_isDeleted ts i row v = visible ts i (del_version v row)"
  by (cases "deletionStatus v") (simp_all add: VectorVersionInfo_isDeleted_def del_version_def Let_def
      visible_def [of ts i "the _ ! _"] visible_def [of ts i "sameDeletionVersion _"])

lemma isSelected_visible:
  "snapshot_ok ts i \<Longrightarrow> VectorVersionInfo_isSelected ts i row v \<longleftrightarrow>
     visible ts i (ins_version v row) \<and> \<not> visible ts i (del_version v row)"
  by (cases "insertionStatus v"; cases "deletionStatus v")
    (simp_all add: VectorVersionInfo_isSelected_def isInserted_visible isDeleted_visible
      ins_version_def [of v] del_version_def [of v])

lemma vvi_inv_new [simp]: "vvi_inv cap VectorVersionInfo_new"
  by (simp add: vvi_inv_def VectorVersionInfo_new_def)

lemma row_isSelected_visible:
  "snapshot_ok ts i \<Longrightarrow> VersionInfo_isSelected cap ts i row vi \<longleftrightarrow>
     visible ts i (row_ins cap vi row) \<and> \<not> visible ts i (row_del cap vi row)"
  by (simp add: VersionInfo_isSelected_def row_ins_def row_del_def isSelected_visible
      split: option.split)

lemma row_isInserted_visible:
  "snapshot_ok ts i \<Longrightarrow> VersionInfo_isInserted cap ts i row vi = visible ts i (row_ins cap vi row)"
  by (simp add: VersionInfo_isInserted_def row_ins_def isInserted_visible split: option.split)

lemma row_isDeleted_visible:
  "snapshot_ok ts i \<Longrightarrow> VersionInfo_isDeleted cap ts i row vi = visible ts i (row_del cap vi row)"
  by (simp add: VersionInfo_isDeleted_def row_del_def isDeleted_visible split: option.split)

section \<open>Loops over the vectors of a row range\<close>

definition vector_or_new :: "nat \<Rightarrow> VersionInfo \<Rightarrow> VectorVersionInfo" where
  "vector_or_new j vi = (case getVectorVersionInfo j vi of None \<Rightarrow> VectorVersionInfo_new | Some v \<Rightarrow> v)"

lemma getOrCreateVersionInfo_put:
  assumes "getOrCreateVersionInfo j vi = (v, vi')"
  shows "v = vector_or_new j vi"
    and "getVectorVersionInfo k (putVectorInfo j w vi') =
           (if k = j then Some w else getVectorVersionInfo k vi)"
  using assms
  by (auto simp: getOrCreateVersionInfo_def putVectorInfo_def vector_or_new_def Let_def
      getVectorVersionInfo_def opt_nth_update opt_nth_resize_null split: if_splits)
    (auto simp: opt_nth_def resize_null_def nth_append split: option.splits)

lemma getVectorVersionInfo_fold:
  "distinct js \<Longrightarrow>
   getVectorVersionInfo k (fold (\<lambda>j vi. (let (s, n) = g j; (v, vi) = getOrCreateVersionInfo j vi
       in putVectorInfo j (f s n v) vi)) js vi) =
     (if k \<in> set js then Some (f (fst (g k)) (snd (g k)) (vector_or_new k vi))
      else getVectorVersionInfo k vi)"
proof (induction js arbitrary: vi)
  case Nil
  then show ?case by simp
next
  case (Cons j js)
  obtain v vi' where c: "getOrCreateVersionInfo j vi = (v, vi')" by fastforce
  obtain s n where g: "g j = (s, n)" by fastforce
  have "vector_or_new k (putVectorInfo j w vi') = vector_or_new k vi" if "k \<in> set js" for w
    using that Cons.prems getOrCreateVersionInfo_put(2) [OF c, of k w]
    by (auto simp: vector_or_new_def)
  then show ?case
    using Cons getOrCreateVersionInfo_put [OF c] by (simp add: c g)
qed

lemma getVectorVersionInfo_for_vectors:
  assumes "0 < numRows"
  shows "getVectorVersionInfo k (for_vectors cap startRow numRows f vi) =
    (if startRow div cap \<le> k \<and> k \<le> (startRow + numRows - 1) div cap
     then (case rows_in_vector cap startRow numRows k of (s, n) \<Rightarrow> Some (f s n (vector_or_new k vi)))
     else getVectorVersionInfo k vi)"
  using assms unfolding for_vectors_def vectors_of_rows_def
  by (simp only: getVectorVersionInfo_fold distinct_upt set_upt atLeastLessThan_iff less_Suc_eq_le
      Suc_eq_plus1 [symmetric] split: prod.split if_split) auto

lemma row_le_vector_iff:
  assumes "i < (cap :: nat)"
  shows "a \<le> k * cap + i \<longleftrightarrow> a div cap < k \<or> a div cap = k \<and> a mod cap \<le> i"
    and "k * cap + i \<le> a \<longleftrightarrow> k < a div cap \<or> k = a div cap \<and> i \<le> a mod cap"
proof -
  let ?q = "a div cap" and ?r = "a mod cap"
  have a: "a = ?q * cap + ?r" and r: "?r < cap" using assms by simp_all
  have lex: "x * cap + y \<le> x' * cap + y'" if "x < x'" "y < cap" for x x' y y'
  proof -
    have "Suc x * cap \<le> x' * cap" using that by (intro mult_le_mono1) simp
    then show ?thesis using that by simp
  qed
  have neq: "x * cap + y \<noteq> x' * cap + y'" if "x < x'" "y < cap" for x x' y y'
  proof -
    have "Suc x * cap \<le> x' * cap" using that by (intro mult_le_mono1) simp
    then show ?thesis using that by simp
  qed
  have "a \<le> k * cap + i" if "?q < k" using lex [OF that r, of i] a by simp
  moreover have "k * cap + i < a" if "k < ?q"
    using lex [OF that assms, of ?r] neq [OF that assms, of ?r] a by simp
  moreover have "k * cap + i \<noteq> a" if "?q < k" using neq [OF that r, of i] a by simp
  moreover have "?q = k \<Longrightarrow> a = k * cap + ?r" using a by simp
  ultimately show "a \<le> k * cap + i \<longleftrightarrow> ?q < k \<or> ?q = k \<and> ?r \<le> i"
    and "k * cap + i \<le> a \<longleftrightarrow> k < ?q \<or> k = ?q \<and> i \<le> ?r"
    by (metis add_le_cancel_left linorder_less_linear linorder_not_le order_antisym_conv order.strict_implies_order)+
qed

lemma rows_in_vector_range:
  assumes "0 < cap" "0 < numRows" "startRow div cap \<le> k" "k \<le> (startRow + numRows - 1) div cap"
    and "rows_in_vector cap startRow numRows k = (s, n)"
  shows "0 < n" "s + n \<le> cap"
    and "i < cap \<Longrightarrow> s \<le> i \<and> i < s + n \<longleftrightarrow> startRow \<le> k * cap + i \<and> k * cap + i < startRow + numRows"
proof -
  let ?b = "startRow + numRows - 1"
  have mods: "startRow mod cap < cap" "?b mod cap < cap" using assms(1) by simp_all
  have same: "startRow mod cap \<le> ?b mod cap" if "startRow div cap = ?b div cap"
  proof -
    have "startRow div cap * cap + startRow mod cap \<le> ?b" using assms(2) by simp
    with that show ?thesis by (simp only: row_le_vector_iff(2) [OF mods(1)] less_irrefl) simp
  qed
  obtain r e where re: "startRow mod cap = r" "?b mod cap = e" by simp
  show "0 < n" "s + n \<le> cap"
    using assms mods same unfolding rows_in_vector_def Let_def re by (auto split: if_splits)
  show "s \<le> i \<and> i < s + n \<longleftrightarrow> startRow \<le> k * cap + i \<and> k * cap + i < startRow + numRows"
    if "i < cap"
  proof -
    have "k * cap + i < startRow + numRows \<longleftrightarrow> k * cap + i \<le> ?b" using assms(2) by linarith
    then show ?thesis
      using assms mods same that
      unfolding rows_in_vector_def Let_def row_le_vector_iff [OF that] re
      by (auto split: if_splits)
  qed
qed

lemma for_vectors_row:
  assumes "0 < cap"
  obtains
    (outside) "\<not> (startRow \<le> r \<and> r < startRow + numRows)"
      "getVectorVersionInfo (r div cap) (for_vectors cap startRow numRows f vi) =
         getVectorVersionInfo (r div cap) vi"
  | (inside) s n where "0 < n" "s + n \<le> cap"
      "getVectorVersionInfo (r div cap) (for_vectors cap startRow numRows f vi) =
         Some (f s n (vector_or_new (r div cap) vi))"
      "\<And>i. i < cap \<Longrightarrow> s \<le> i \<and> i < s + n \<longleftrightarrow>
         startRow \<le> (r div cap) * cap + i \<and> (r div cap) * cap + i < startRow + numRows"
proof (cases "0 < numRows \<and> startRow div cap \<le> r div cap \<and>
    r div cap \<le> (startRow + numRows - 1) div cap")
  case True
  obtain s n where sn: "rows_in_vector cap startRow numRows (r div cap) = (s, n)" by fastforce
  from True have t: "0 < numRows" "startRow div cap \<le> r div cap"
    "r div cap \<le> (startRow + numRows - 1) div cap" by auto
  show ?thesis
    using rows_in_vector_range [OF assms t sn] getVectorVersionInfo_for_vectors [OF t(1), of "r div cap"]
      t(2,3) sn by (intro inside [of n s]) simp_all
next
  case False
  have "\<not> (startRow \<le> r \<and> r < startRow + numRows)"
    using False by (auto simp: div_le_mono)
  moreover have "getVectorVersionInfo (r div cap) (for_vectors cap startRow numRows f vi) =
      getVectorVersionInfo (r div cap) vi"
  proof (cases "numRows = 0")
    case True
    then show ?thesis by (simp add: for_vectors_def)
  next
    case nz: False
    then show ?thesis
      using False getVectorVersionInfo_for_vectors [of numRows "r div cap" cap startRow f vi] by auto
  qed
  ultimately show ?thesis by (rule outside)
qed

section \<open>Behaviour on one vector\<close>

lemmas version_defs = vvi_inv_def ins_version_def del_version_def

lemma append_cases:
  assumes "vvi_inv cap v"
  obtains
    (first) "insertionStatus v \<noteq> InsertionStatus.CHECK_VERSION" "insertedVersions v = None"
      "transactionID \<noteq> INVALID_TRANSACTION \<Longrightarrow> VectorVersionInfo_append cap transactionID s n v =
         v\<lparr>insertionStatus := InsertionStatus.CHECK_VERSION, sameInsertionVersion := transactionID\<rparr>"
  | (again) "insertionStatus v = InsertionStatus.CHECK_VERSION" "insertedVersions v = None"
      "sameInsertionVersion v = transactionID" "VectorVersionInfo_append cap transactionID s n v = v"
  | (spill) "insertionStatus v = InsertionStatus.CHECK_VERSION" "insertedVersions v = None"
      "sameInsertionVersion v \<noteq> INVALID_TRANSACTION"
      "VectorVersionInfo_append cap transactionID s n v =
         v\<lparr>sameInsertionVersion := INVALID_TRANSACTION, insertedVersions :=
           Some (fill_range (fill_range (replicate cap INVALID_TRANSACTION) 0 s
             (sameInsertionVersion v)) s n transactionID)\<rparr>"
  | (arr) a where "insertionStatus v = InsertionStatus.CHECK_VERSION" "insertedVersions v = Some a"
      "length a = cap" "sameInsertionVersion v = INVALID_TRANSACTION"
      "transactionID \<noteq> INVALID_TRANSACTION \<Longrightarrow> VectorVersionInfo_append cap transactionID s n v =
         v\<lparr>insertedVersions := Some (fill_range a s n transactionID)\<rparr>"
proof (cases "insertedVersions v")
  case None
  show ?thesis
  proof (cases "insertionStatus v = InsertionStatus.CHECK_VERSION")
    case True
    then have "sameInsertionVersion v \<noteq> INVALID_TRANSACTION"
      using assms None by (simp add: vvi_inv_def)
    with True None again spill show ?thesis
      by (cases "sameInsertionVersion v = transactionID") (simp_all add: VectorVersionInfo_append_def)
  next
    case False
    then have "sameInsertionVersion v = INVALID_TRANSACTION"
      using assms None by (simp add: vvi_inv_def)
    with False None show ?thesis by (intro first) (simp_all add: VectorVersionInfo_append_def)
  qed
next
  case (Some a)
  with assms show ?thesis
    by (intro arr [of a]) (simp_all add: vvi_inv_def VectorVersionInfo_append_def)
qed

lemma append_versions:
  assumes inv: "vvi_inv cap v" and tx: "transactionID \<noteq> INVALID_TRANSACTION"
    and fits: "s + n \<le> cap" and start: "insertionStatus v \<noteq> InsertionStatus.CHECK_VERSION \<Longrightarrow> s = 0"
  shows "vvi_inv cap (VectorVersionInfo_append cap transactionID s n v) \<and>
    insertionStatus (VectorVersionInfo_append cap transactionID s n v) =
      InsertionStatus.CHECK_VERSION \<and>
    del_version (VectorVersionInfo_append cap transactionID s n v) = del_version v \<and>
    (\<forall>i. i < s + n \<longrightarrow> ins_version (VectorVersionInfo_append cap transactionID s n v) i =
      (if i < s then ins_version v i else transactionID))"
  using inv
proof (cases rule: append_cases [of cap v transactionID s n])
  case first
  with inv tx start show ?thesis by (simp add: version_defs)
next
  case again
  with inv tx show ?thesis by (simp add: version_defs)
next
  case spill
  with inv tx fits show ?thesis by (simp add: version_defs nth_fill_range)
next
  case (arr a)
  with inv tx fits show ?thesis by (simp add: version_defs nth_fill_range)
qed
lemma delete_versions:
  assumes inv: "vvi_inv cap v" and tx: "transactionID \<noteq> INVALID_TRANSACTION" and i: "i < cap"
    and del: "VectorVersionInfo_delete cap transactionID i v = (res, v')"
  shows "vvi_inv cap v' \<and> ins_version v' = ins_version v \<and>
    insertionStatus v' = insertionStatus v \<and>
    res = (if del_version v i = transactionID then Inr False
           else if del_version v i \<noteq> INVALID_TRANSACTION then Inl ww_delete_conflict
           else Inr True) \<and>
    (\<forall>j. j < cap \<longrightarrow>
       del_version v' j = (if res = Inr True \<and> j = i then transactionID else del_version v j))"
proof (cases "deletedVersions v")
  case None
  show ?thesis
  proof (cases "deletionStatus v")
    case NO_DELETED
    with None inv have "sameDeletionVersion v = INVALID_TRANSACTION" by (simp add: version_defs)
    with None NO_DELETED inv tx i del show ?thesis
      by (auto simp: VectorVersionInfo_delete_def version_defs)
  next
    case CHECK_VERSION
    with None inv have "sameDeletionVersion v \<noteq> INVALID_TRANSACTION" by (simp add: version_defs)
    with None CHECK_VERSION inv tx i del show ?thesis
      by (auto simp: VectorVersionInfo_delete_def version_defs split: if_splits)
  qed
next
  case (Some a)
  with inv have "deletionStatus v = DeletionStatus.CHECK_VERSION" "length a = cap"
    "sameDeletionVersion v = INVALID_TRANSACTION" by (simp_all add: version_defs)
  with Some inv tx i del show ?thesis
    by (auto simp: VectorVersionInfo_delete_def version_defs Let_def split: if_splits)
qed

lemma setInsertCommitTS_versions:
  assumes inv: "vvi_inv cap v" and fits: "s + n \<le> cap" "0 < n"
    and own: "\<And>i. s \<le> i \<Longrightarrow> i < s + n \<Longrightarrow> ins_version v i \<in> T"
    and t: "INVALID_TRANSACTION \<notin> T" "0 \<notin> T" and c: "c \<noteq> INVALID_TRANSACTION"
  shows "vvi_inv cap (setInsertCommitTS c s n v) \<and> del_version (setInsertCommitTS c s n v) = del_version v \<and>
    insertionStatus (setInsertCommitTS c s n v) = insertionStatus v \<and>
    (\<forall>i. s \<le> i \<longrightarrow> i < s + n \<longrightarrow> ins_version (setInsertCommitTS c s n v) i = c) \<and>
    (\<forall>i. i < cap \<longrightarrow> ins_version (setInsertCommitTS c s n v) i = ins_version v i \<or>
       ins_version v i \<in> T \<and> ins_version (setInsertCommitTS c s n v) i = c)"
proof -
  have chk: "insertionStatus v = InsertionStatus.CHECK_VERSION"
    using own [of s] fits t by (cases "insertionStatus v") (auto simp: ins_version_def)
  show ?thesis
  proof (cases "insertedVersions v")
    case None
    with inv chk have "sameInsertionVersion v \<noteq> INVALID_TRANSACTION" by (simp add: version_defs)
    with None inv chk own [of s] fits c show ?thesis
      by (simp add: setInsertCommitTS_def version_defs)
  next
    case (Some a)
    with inv chk have a: "sameInsertionVersion v = INVALID_TRANSACTION" "length a = cap"
      by (simp_all add: version_defs)
    have "a ! i \<in> T" if "s \<le> i" "i < s + n" for i
      using own [OF that] a Some chk by (simp add: version_defs)
    with Some a inv chk fits show ?thesis
      by (auto simp: setInsertCommitTS_def version_defs nth_fill_range)
  qed
qed

lemma setDeleteCommitTS_versions:
  assumes inv: "vvi_inv cap v" and fits: "s + n \<le> cap" "0 < n"
    and own: "\<And>i. s \<le> i \<Longrightarrow> i < s + n \<Longrightarrow> del_version v i \<in> T"
    and t: "INVALID_TRANSACTION \<notin> T" and c: "c \<noteq> INVALID_TRANSACTION"
  shows "vvi_inv cap (setDeleteCommitTS c s n v) \<and> ins_version (setDeleteCommitTS c s n v) = ins_version v \<and>
    deletionStatus (setDeleteCommitTS c s n v) = deletionStatus v \<and>
    (\<forall>i. s \<le> i \<longrightarrow> i < s + n \<longrightarrow> del_version (setDeleteCommitTS c s n v) i = c) \<and>
    (\<forall>i. i < cap \<longrightarrow> del_version (setDeleteCommitTS c s n v) i = del_version v i \<or>
       del_version v i \<in> T \<and> del_version (setDeleteCommitTS c s n v) i = c)"
proof -
  have chk: "deletionStatus v = DeletionStatus.CHECK_VERSION"
    using own [of s] fits t by (cases "deletionStatus v") (auto simp: del_version_def)
  show ?thesis
  proof (cases "deletedVersions v")
    case None
    with inv chk have "sameDeletionVersion v \<noteq> INVALID_TRANSACTION" by (simp add: version_defs)
    with None inv chk own [of s] fits c show ?thesis
      by (simp add: setDeleteCommitTS_def version_defs)
  next
    case (Some a)
    with inv chk have a: "sameDeletionVersion v = INVALID_TRANSACTION" "length a = cap"
      by (simp_all add: version_defs)
    have "a ! i \<in> T" if "s \<le> i" "i < s + n" for i
      using own [OF that] a Some chk by (simp add: version_defs)
    with Some a inv chk fits show ?thesis
      by (auto simp: setDeleteCommitTS_def version_defs nth_fill_range)
  qed
qed

text \<open>The version arrays after a rollback: emptied ones are dropped, and read as invalid either way.\<close>

lemma no_versions_nth:
  "\<not> list_ex (\<lambda>version. version \<noteq> x) (fill_range a s n x) \<Longrightarrow> i < length a \<Longrightarrow>
     \<not> (s \<le> i \<and> i < s + n) \<Longrightarrow> a ! i = x"
  by (auto simp: list_ex_length nth_fill_range split: if_splits)

lemma rollbackInsertions_versions:
  assumes inv: "vvi_inv cap v" and fits: "s + n \<le> cap" "0 < n"
    and own: "\<And>i. s \<le> i \<Longrightarrow> i < s + n \<Longrightarrow> ins_version v i \<in> T"
    and t: "INVALID_TRANSACTION \<notin> T" "0 \<notin> T"
  shows "(\<forall>i. s \<le> i \<longrightarrow> i < s + n \<longrightarrow>
       ins_version (rollbackInsertions s n v) i = INVALID_TRANSACTION) \<and>
    (\<forall>i. i < cap \<longrightarrow> ins_version (rollbackInsertions s n v) i = ins_version v i \<or>
       ins_version v i \<in> T \<and> ins_version (rollbackInsertions s n v) i = INVALID_TRANSACTION) \<and>
    (deletionStatus v = NO_DELETED \<longrightarrow> vvi_inv cap (rollbackInsertions s n v) \<and>
       del_version (rollbackInsertions s n v) = del_version v)"
proof -
  have chk: "insertionStatus v = InsertionStatus.CHECK_VERSION"
    using own [of s] fits t by (cases "insertionStatus v") (auto simp: ins_version_def)
  show ?thesis
  proof (cases "insertedVersions v")
    case None
    with inv chk have "sameInsertionVersion v \<noteq> INVALID_TRANSACTION" by (simp add: version_defs)
    with None inv chk own [of s] fits show ?thesis
      by (auto simp: rollbackInsertions_def version_defs)
  next
    case (Some a)
    with inv chk have a: "sameInsertionVersion v = INVALID_TRANSACTION" "length a = cap"
      by (simp_all add: version_defs)
    have own': "a ! i \<in> T" if "s \<le> i" "i < s + n" for i
      using own [OF that] a Some chk by (simp add: version_defs)
    let ?a = "fill_range a s n INVALID_TRANSACTION"
    show ?thesis
    proof (cases "list_ex (\<lambda>version. version \<noteq> INVALID_TRANSACTION) ?a")
      case True
      with Some a inv chk own' fits show ?thesis
        by (auto simp: rollbackInsertions_def version_defs nth_fill_range)
    next
      case False
      have "INVALID_TRANSACTION = a ! i \<or> a ! i \<in> T" if "i < cap" for i
        using no_versions_nth [OF False, of i] own' [of i] that a by metis
      with False Some a inv chk show ?thesis
        by (auto simp: rollbackInsertions_def version_defs)
    qed
  qed
qed

lemma rollbackDeletions_versions:
  assumes inv: "vvi_inv cap v" and fits: "s + n \<le> cap" "0 < n"
    and own: "\<And>i. s \<le> i \<Longrightarrow> i < s + n \<Longrightarrow> del_version v i \<in> T"
    and t: "INVALID_TRANSACTION \<notin> T"
  shows "vvi_inv cap (rollbackDeletions s n v) \<and>
    ins_version (rollbackDeletions s n v) = ins_version v \<and>
    (\<forall>i. s \<le> i \<longrightarrow> i < s + n \<longrightarrow>
       del_version (rollbackDeletions s n v) i = INVALID_TRANSACTION) \<and>
    (\<forall>i. i < cap \<longrightarrow> del_version (rollbackDeletions s n v) i = del_version v i \<or>
       del_version v i \<in> T \<and> del_version (rollbackDeletions s n v) i = INVALID_TRANSACTION)"
proof -
  have chk: "deletionStatus v = DeletionStatus.CHECK_VERSION"
    using own [of s] fits t by (cases "deletionStatus v") (auto simp: del_version_def)
  show ?thesis
  proof (cases "deletedVersions v")
    case None
    with inv chk have "sameDeletionVersion v \<noteq> INVALID_TRANSACTION" by (simp add: version_defs)
    with None inv chk own [of s] fits show ?thesis
      by (auto simp: rollbackDeletions_def version_defs)
  next
    case (Some a)
    with inv chk have a: "sameDeletionVersion v = INVALID_TRANSACTION" "length a = cap"
      by (simp_all add: version_defs)
    have own': "a ! i \<in> T" if "s \<le> i" "i < s + n" for i
      using own [OF that] a Some chk by (simp add: version_defs)
    let ?a = "fill_range a s n INVALID_TRANSACTION"
    show ?thesis
    proof (cases "list_ex (\<lambda>version. version \<noteq> INVALID_TRANSACTION) ?a")
      case True
      with Some a inv chk own' fits show ?thesis
        by (auto simp: rollbackDeletions_def version_defs nth_fill_range)
    next
      case False
      have "INVALID_TRANSACTION = a ! i \<or> a ! i \<in> T" if "i < cap" for i
        using no_versions_nth [OF False, of i] own' [of i] that a by metis
      with False Some a inv chk show ?thesis
        by (auto simp: rollbackDeletions_def version_defs)
    qed
  qed
qed
section \<open>Behaviour on a chunk\<close>

abbreviation rows_of :: "nat \<times> nat \<Rightarrow> nat set" where
  "rows_of r \<equiv> {fst r..<fst r + snd r}"

definition uncommitted :: "transaction_t \<Rightarrow> bool" where
  "uncommitted t \<longleftrightarrow> START_TRANSACTION_ID \<le> t \<and> t < INVALID_TRANSACTION"

lemma uncommitted_neq [simp]:
  "uncommitted t \<Longrightarrow> t \<noteq> INVALID_TRANSACTION" "uncommitted t \<Longrightarrow> t \<noteq> 0"
  "c < START_TRANSACTION_ID \<Longrightarrow> c \<noteq> INVALID_TRANSACTION"
  using zero_less_START START_less_INVALID unfolding uncommitted_def
  by (metis order.irrefl, metis leD, metis order.asym)

definition ins_owned :: "nat \<Rightarrow> transaction_t \<Rightarrow> nat \<times> nat \<Rightarrow> VersionInfo \<Rightarrow> bool" where
  "ins_owned cap t r vi \<longleftrightarrow>
     0 < cap \<and> vi_inv cap vi \<and> uncommitted t \<and> (\<forall>row\<in>rows_of r. row_ins cap vi row = t)"

definition del_owned :: "nat \<Rightarrow> transaction_t \<Rightarrow> nat \<times> nat \<Rightarrow> VersionInfo \<Rightarrow> bool" where
  "del_owned cap t r vi \<longleftrightarrow>
     0 < cap \<and> vi_inv cap vi \<and> uncommitted t \<and> (\<forall>row\<in>rows_of r. row_del cap vi row = t)"

text \<open>
  The same for a set of versions: the rows of a record carry the transaction, or already its commit
  timestamp when another record of it covered their vector.
\<close>

definition live :: "transaction_t set \<Rightarrow> bool" where
  "live T \<longleftrightarrow> INVALID_TRANSACTION \<notin> T \<and> 0 \<notin> T"

definition ins_in :: "nat \<Rightarrow> transaction_t set \<Rightarrow> nat \<times> nat \<Rightarrow> VersionInfo \<Rightarrow> bool" where
  "ins_in cap T r vi \<longleftrightarrow> 0 < cap \<and> vi_inv cap vi \<and> live T \<and> (\<forall>row\<in>rows_of r. row_ins cap vi row \<in> T)"

definition del_in :: "nat \<Rightarrow> transaction_t set \<Rightarrow> nat \<times> nat \<Rightarrow> VersionInfo \<Rightarrow> bool" where
  "del_in cap T r vi \<longleftrightarrow> 0 < cap \<and> vi_inv cap vi \<and> live T \<and> (\<forall>row\<in>rows_of r. row_del cap vi row \<in> T)"

lemma live_uncommitted [simp]: "uncommitted t \<Longrightarrow> live {t}"
  using uncommitted_neq(1,2) [of t] unfolding live_def by blast

lemma vi_inv_new [simp]: "vi_inv cap VersionInfo_new"
  by (simp add: vi_inv_def getVectorVersionInfo_def VersionInfo_new_def opt_nth_def)

lemma ins_owned_in: "ins_owned cap t r vi \<Longrightarrow> ins_in cap {t} r vi"
  by (simp add: ins_owned_def ins_in_def)

lemma del_owned_in: "del_owned cap t r vi \<Longrightarrow> del_in cap {t} r vi"
  by (simp add: del_owned_def del_in_def)

lemma vi_invD: "vi_inv cap vi \<Longrightarrow> vvi_inv cap (vector_or_new j vi)"
  by (simp add: vi_inv_def vector_or_new_def split: option.split)

lemma row_ins_vector:
  "i < cap \<Longrightarrow> row_ins cap vi (k * cap + i) =
     (case getVectorVersionInfo k vi of None \<Rightarrow> 0 | Some v \<Rightarrow> ins_version v i)"
  by (simp add: row_ins_def split: option.split)

lemma row_del_vector:
  "i < cap \<Longrightarrow> row_del cap vi (k * cap + i) = del_version (vector_or_new k vi) i"
  by (simp add: row_del_def vector_or_new_def VectorVersionInfo_new_def del_version_def
      split: option.split)

lemma row_del_eq: "row_del cap vi r = del_version (vector_or_new (r div cap) vi) (r mod cap)"
  by (simp add: row_del_def vector_or_new_def VectorVersionInfo_new_def del_version_def
      split: option.split)

lemma ins_in_vector:
  assumes "ins_in cap T (startRow, numRows) vi" "0 < n" "s + n \<le> cap"
    and rng: "\<And>i. i < cap \<Longrightarrow> s \<le> i \<and> i < s + n \<longleftrightarrow>
      startRow \<le> k * cap + i \<and> k * cap + i < startRow + numRows"
  obtains v where "getVectorVersionInfo k vi = Some v" "vector_or_new k vi = v" "vvi_inv cap v"
    "\<And>i. s \<le> i \<Longrightarrow> i < s + n \<Longrightarrow> ins_version v i \<in> T"
proof -
  have ver: "row_ins cap vi (k * cap + i) \<in> T" if "s \<le> i" "i < s + n" for i
    using assms(1,3) rng [of i] that by (auto simp: ins_in_def live_def)
  with assms have "row_ins cap vi (k * cap + s) \<in> T" "0 \<notin> T" by (auto simp: ins_in_def live_def)
  then obtain v where v: "getVectorVersionInfo k vi = Some v"
    using row_ins_vector [of s cap vi k] assms(2,3) by (auto split: option.splits)
  moreover have "ins_version v i \<in> T" if "s \<le> i" "i < s + n" for i
    using ver [OF that] row_ins_vector [of i cap vi k] v assms(3) that by simp
  ultimately show ?thesis
    using that assms(1) by (auto simp: vector_or_new_def ins_in_def live_def vi_inv_def)
qed

lemma del_in_vector:
  assumes "del_in cap T (startRow, numRows) vi" "s + n \<le> cap" "s \<le> i" "i < s + n"
    and rng: "\<And>i. i < cap \<Longrightarrow> s \<le> i \<and> i < s + n \<longleftrightarrow>
      startRow \<le> k * cap + i \<and> k * cap + i < startRow + numRows"
  shows "del_version (vector_or_new k vi) i \<in> T"
proof -
  have "row_del cap vi (k * cap + i) \<in> T" using assms(1-4) rng [of i] by (simp add: del_in_def)
  then show ?thesis using assms(2,4) row_del_vector [of i cap vi k] by simp
qed

text \<open>
  Commit and rollback of a row range only touch the rows of the range, or, in a vector stored in
  the compressed form, further rows of the same transaction.
\<close>

lemma commitInsert_rows:
  assumes own: "ins_in cap T (startRow, numRows) vi" and c: "c < START_TRANSACTION_ID"
    and vi': "vi' = VersionInfo_commitInsert cap startRow numRows c vi"
  shows "(row \<in> rows_of (startRow, numRows) \<longrightarrow> row_ins cap vi' row = c) \<and>
    (row_ins cap vi' row = row_ins cap vi row \<or> row_ins cap vi row \<in> T \<and> row_ins cap vi' row = c) \<and>
    row_del cap vi' row = row_del cap vi row"
proof -
  have cap: "0 < cap" using own by (simp add: ins_in_def live_def)
  then show ?thesis
  proof (cases rule: for_vectors_row [where r = row and startRow = startRow and numRows = numRows
        and f = "setInsertCommitTS c" and vi = vi])
    case outside
    then show ?thesis by (auto simp: row_ins_def row_del_def vi' VersionInfo_commitInsert_def)
  next
    case (inside s n)
    from ins_in_vector [OF own inside(1,2,4)] obtain v where
      v: "getVectorVersionInfo (row div cap) vi = Some v" "vector_or_new (row div cap) vi = v"
        "vvi_inv cap v" "\<And>i. s \<le> i \<Longrightarrow> i < s + n \<Longrightarrow> ins_version v i \<in> T" by metis
    have t: "INVALID_TRANSACTION \<notin> T" "0 \<notin> T" "c \<noteq> INVALID_TRANSACTION"
      using own c by (auto simp: ins_in_def live_def)
    show ?thesis
      using setInsertCommitTS_versions [OF v(3) inside(2,1) v(4) t] inside(4) [of "row mod cap"] v(1,2)
      by (simp add: row_ins_def row_del_def inside(3) cap vi' VersionInfo_commitInsert_def) blast
  qed
qed

lemma rollbackInsert_rows:
  assumes own: "ins_in cap T (startRow, numRows) vi"
    and vi': "vi' = VersionInfo_rollbackInsert cap startRow numRows vi"
  shows "(row \<in> rows_of (startRow, numRows) \<longrightarrow> row_ins cap vi' row = INVALID_TRANSACTION) \<and>
    (row_ins cap vi' row = row_ins cap vi row \<or>
     row_ins cap vi row \<in> T \<and> row_ins cap vi' row = INVALID_TRANSACTION)"
proof -
  have cap: "0 < cap" using own by (simp add: ins_in_def live_def)
  then show ?thesis
  proof (cases rule: for_vectors_row [where r = row and startRow = startRow and numRows = numRows
        and f = rollbackInsertions and vi = vi])
    case outside
    then show ?thesis by (auto simp: row_ins_def vi' VersionInfo_rollbackInsert_def)
  next
    case (inside s n)
    from ins_in_vector [OF own inside(1,2,4)] obtain v where
      v: "getVectorVersionInfo (row div cap) vi = Some v" "vector_or_new (row div cap) vi = v"
        "vvi_inv cap v" "\<And>i. s \<le> i \<Longrightarrow> i < s + n \<Longrightarrow> ins_version v i \<in> T" by metis
    have t: "INVALID_TRANSACTION \<notin> T" "0 \<notin> T" using own by (auto simp: ins_in_def live_def)
    show ?thesis
      using rollbackInsertions_versions [OF v(3) inside(2,1) v(4) t] inside(4) [of "row mod cap"] v(1,2)
      by (simp add: row_ins_def inside(3) cap vi' VersionInfo_rollbackInsert_def) blast
  qed
qed

lemma commitDelete_rows:
  assumes own: "del_in cap T (startRow, numRows) vi" and c: "c < START_TRANSACTION_ID"
    and vi': "vi' = VersionInfo_commitDelete cap startRow numRows c vi"
  shows "(row \<in> rows_of (startRow, numRows) \<longrightarrow> row_del cap vi' row = c) \<and>
    (row_del cap vi' row = row_del cap vi row \<or> row_del cap vi row \<in> T \<and> row_del cap vi' row = c)"
proof -
  have cap: "0 < cap" using own by (simp add: del_in_def live_def)
  then show ?thesis
  proof (cases rule: for_vectors_row [where r = row and startRow = startRow and numRows = numRows
        and f = "setDeleteCommitTS c" and vi = vi])
    case outside
    then show ?thesis by (auto simp: row_del_def vi' VersionInfo_commitDelete_def)
  next
    case (inside s n)
    have t: "INVALID_TRANSACTION \<notin> T" "c \<noteq> INVALID_TRANSACTION" and inv: "vi_inv cap vi"
      using own c by (auto simp: del_in_def live_def)
    show ?thesis
      using setDeleteCommitTS_versions [OF vi_invD [OF inv] inside(2,1)
          del_in_vector [OF own inside(2) _ _ inside(4)] t] inside(4) [of "row mod cap"]
      by (simp add: row_del_eq inside(3) cap vi' VersionInfo_commitDelete_def vector_or_new_def
          [of _ "for_vectors _ _ _ _ _"]) blast
  qed
qed

lemma rollbackDelete_rows:
  assumes own: "del_in cap T (startRow, numRows) vi"
    and vi': "vi' = VersionInfo_rollbackDelete cap startRow numRows vi"
  shows "(row \<in> rows_of (startRow, numRows) \<longrightarrow> row_del cap vi' row = INVALID_TRANSACTION) \<and>
    (row_del cap vi' row = row_del cap vi row \<or>
     row_del cap vi row \<in> T \<and> row_del cap vi' row = INVALID_TRANSACTION)"
proof -
  have cap: "0 < cap" using own by (simp add: del_in_def live_def)
  then show ?thesis
  proof (cases rule: for_vectors_row [where r = row and startRow = startRow and numRows = numRows
        and f = rollbackDeletions and vi = vi])
    case outside
    then show ?thesis by (auto simp: row_del_def vi' VersionInfo_rollbackDelete_def)
  next
    case (inside s n)
    have t: "INVALID_TRANSACTION \<notin> T" and inv: "vi_inv cap vi"
      using own by (auto simp: del_in_def live_def)
    show ?thesis
      using rollbackDeletions_versions [OF vi_invD [OF inv] inside(2,1)
          del_in_vector [OF own inside(2) _ _ inside(4)] t] inside(4) [of "row mod cap"]
      by (simp add: row_del_eq inside(3) cap vi' VersionInfo_rollbackDelete_def vector_or_new_def
          [of _ "for_vectors _ _ _ _ _"]) blast
  qed
qed

text \<open>Row insertions and row deletions are version stores.\<close>

interpretation ins_store: version_store "row_ins cap" rows_of "ins_owned cap"
    "\<lambda>c r. VersionInfo_commitInsert cap (fst r) (snd r) c"
    "\<lambda>r. VersionInfo_rollbackInsert cap (fst r) (snd r)" for cap
  by unfold_locales (metis commitInsert_rows rollbackInsert_rows ins_owned_in prod.collapse singletonD)+

interpretation del_store: version_store "row_del cap" rows_of "del_owned cap"
    "\<lambda>c r. VersionInfo_commitDelete cap (fst r) (snd r) c"
    "\<lambda>r. VersionInfo_rollbackDelete cap (fst r) (snd r)" for cap
  by unfold_locales (metis commitDelete_rows rollbackDelete_rows del_owned_in prod.collapse singletonD)+

section \<open>Appending and deleting rows of a chunk\<close>

text \<open>
  Rows are appended after the rows already there. A vector that is partly filled and not version
  checked would have to be read as a whole, so appending after row \<open>n\<close> needs the vector of row
  \<open>n\<close> to be version checked unless \<open>n\<close> starts a vector.
\<close>

definition appendable :: "nat \<Rightarrow> nat \<Rightarrow> VersionInfo \<Rightarrow> bool" where
  "appendable cap n vi \<longleftrightarrow>
     n mod cap = 0 \<or> insertionStatus (vector_or_new (n div cap) vi) = InsertionStatus.CHECK_VERSION"

lemma vi_inv_for_vectors:
  assumes cap: "0 < cap" and inv: "vi_inv cap vi"
    and step: "\<And>k s n. 0 < n \<Longrightarrow> s + n \<le> cap \<Longrightarrow>
      (\<And>i. i < cap \<Longrightarrow> s \<le> i \<and> i < s + n \<longleftrightarrow>
        startRow \<le> k * cap + i \<and> k * cap + i < startRow + numRows) \<Longrightarrow>
      vvi_inv cap (f s n (vector_or_new k vi))"
  shows "vi_inv cap (for_vectors cap startRow numRows f vi)"
  unfolding vi_inv_def
proof (intro allI impI)
  fix j v
  assume v: "getVectorVersionInfo j (for_vectors cap startRow numRows f vi) = Some v"
  have j: "j * cap div cap = j" using cap by simp
  from cap show "vvi_inv cap v"
  proof (cases rule: for_vectors_row [where r = "j * cap" and startRow = startRow
        and numRows = numRows and f = f and vi = vi])
    case outside
    with v inv show ?thesis unfolding j by (auto simp: vi_inv_def)
  next
    case (inside s n)
    with v step [of n s j] show ?thesis unfolding j by simp
  qed
qed

lemma vi_inv_commitInsert:
  assumes own: "ins_in cap T (startRow, numRows) vi" and c: "c < START_TRANSACTION_ID"
  shows "vi_inv cap (VersionInfo_commitInsert cap startRow numRows c vi)"
  unfolding VersionInfo_commitInsert_def
proof (rule vi_inv_for_vectors)
  show "0 < cap" "vi_inv cap vi" using own by (simp_all add: ins_in_def)
  fix k s n
  assume r: "0 < n" "s + n \<le> cap" "\<And>i. i < cap \<Longrightarrow> s \<le> i \<and> i < s + n \<longleftrightarrow> startRow \<le> k * cap + i \<and> k * cap + i < startRow + numRows"
  have t: "INVALID_TRANSACTION \<notin> T" "0 \<notin> T" "c \<noteq> INVALID_TRANSACTION" using own c by (auto simp: ins_in_def live_def)
  from ins_in_vector [OF own r] obtain v where "vector_or_new k vi = v" "vvi_inv cap v"
    "\<And>i. s \<le> i \<Longrightarrow> i < s + n \<Longrightarrow> ins_version v i \<in> T" by metis
  then show "vvi_inv cap (setInsertCommitTS c s n (vector_or_new k vi))"
    using setInsertCommitTS_versions [OF _ r(2,1) _ t, of v] by blast
qed

lemma vi_inv_del_record:
  assumes own: "del_in cap T (startRow, numRows) vi"
    and f: "\<And>s n v. vvi_inv cap v \<Longrightarrow> s + n \<le> cap \<Longrightarrow> 0 < n \<Longrightarrow>
      (\<And>i. s \<le> i \<Longrightarrow> i < s + n \<Longrightarrow> del_version v i \<in> T) \<Longrightarrow> vvi_inv cap (f s n v)"
  shows "vi_inv cap (for_vectors cap startRow numRows f vi)"
proof (rule vi_inv_for_vectors)
  show "0 < cap" "vi_inv cap vi" using own by (simp_all add: del_in_def)
  then show "vvi_inv cap (f s n (vector_or_new k vi))"
    if r: "0 < n" "s + n \<le> cap" "\<And>i. i < cap \<Longrightarrow> s \<le> i \<and> i < s + n \<longleftrightarrow> startRow \<le> k * cap + i \<and> k * cap + i < startRow + numRows"
    for k s n using del_in_vector [OF own r(2) _ _ r(3)] by (intro f vi_invD r) auto
qed

lemma append_start:
  assumes "appendable cap startRow vi" "0 < cap"
    and rng: "\<And>i. i < cap \<Longrightarrow> s \<le> i \<and> i < s + n \<longleftrightarrow>
        startRow \<le> k * cap + i \<and> k * cap + i < startRow + numRows"
    and "0 < n" "s + n \<le> cap"
    and "insertionStatus (vector_or_new k vi) \<noteq> InsertionStatus.CHECK_VERSION"
  shows "s = 0"
proof (rule ccontr)
  assume "s \<noteq> 0"
  then have "s - 1 < cap" "\<not> s \<le> s - 1" "s < cap" "s < s + n" using assms(4,5) by simp_all
  then have "\<not> startRow \<le> k * cap + (s - 1)" "startRow \<le> k * cap + s"
    using rng [of "s - 1"] rng [of s] \<open>s \<noteq> 0\<close> by (simp_all, linarith)
  then have "startRow = k * cap + s" using \<open>s \<noteq> 0\<close> by simp
  moreover have "s < cap" using assms(4,5) by simp
  ultimately have "startRow div cap = k" "startRow mod cap = s" by simp_all
  with assms(1,6) \<open>s \<noteq> 0\<close> show False by (simp add: appendable_def)
qed

lemma append_rows:
  assumes cap: "0 < cap" and inv: "vi_inv cap vi" and t: "transactionID \<noteq> INVALID_TRANSACTION"
    and app: "appendable cap startRow vi"
    and vi': "vi' = VersionInfo_append cap transactionID startRow numRows vi"
  shows "vi_inv cap vi' \<and>
    (row \<in> rows_of (startRow, numRows) \<longrightarrow> row_ins cap vi' row = transactionID) \<and>
    (row < startRow \<longrightarrow> row_ins cap vi' row = row_ins cap vi row) \<and>
    row_del cap vi' row = row_del cap vi row"
proof -
  have local: "vvi_inv cap (VectorVersionInfo_append cap transactionID s n (vector_or_new k vi)) \<and>
      del_version (VectorVersionInfo_append cap transactionID s n (vector_or_new k vi)) =
        del_version (vector_or_new k vi) \<and>
      (\<forall>i. i < s + n \<longrightarrow>
        ins_version (VectorVersionInfo_append cap transactionID s n (vector_or_new k vi)) i =
          (if i < s then ins_version (vector_or_new k vi) i else transactionID)) \<and>
      (0 < s \<longrightarrow> getVectorVersionInfo k vi = Some (vector_or_new k vi))"
    if "0 < n" "s + n \<le> cap" "\<And>i. i < cap \<Longrightarrow> s \<le> i \<and> i < s + n \<longleftrightarrow>
        startRow \<le> k * cap + i \<and> k * cap + i < startRow + numRows" for k s n
    using append_versions [OF vi_invD [OF inv] t that(2), of k] append_start [OF app cap that(3,1,2)]
    by (cases "getVectorVersionInfo k vi") (auto simp: vector_or_new_def VectorVersionInfo_new_def)
  have "vi_inv cap vi'" unfolding vi' VersionInfo_append_def
    by (rule vi_inv_for_vectors [OF cap inv]) (use local in blast)
  moreover have "(row \<in> rows_of (startRow, numRows) \<longrightarrow> row_ins cap vi' row = transactionID) \<and>
    (row < startRow \<longrightarrow> row_ins cap vi' row = row_ins cap vi row) \<and>
    row_del cap vi' row = row_del cap vi row"
    using cap
  proof (cases rule: for_vectors_row [where r = row and startRow = startRow
        and numRows = numRows and f = "VectorVersionInfo_append cap transactionID" and vi = vi])
    case outside
    then show ?thesis by (auto simp: row_ins_def row_del_def vi' VersionInfo_append_def)
  next
    case (inside s n)
    have "startRow \<le> row div cap * cap + s" using inside(4) [of s] inside(1,2) by simp
    moreover have "row = row div cap * cap + row mod cap" by simp
    ultimately have "row mod cap < s" if "row < startRow" using that by linarith
    then show ?thesis
      using local [OF inside(1,2,4)] inside(4) [of "row mod cap"]
      by (auto simp: row_ins_def row_del_eq vi' VersionInfo_append_def inside(3) cap
          vector_or_new_def [of _ "for_vectors _ _ _ _ _"])
  qed
  ultimately show ?thesis by blast
qed

lemma appendable_append:
  assumes "0 < cap" "0 < numRows" "vi_inv cap vi" "appendable cap startRow vi"
    "transactionID \<noteq> INVALID_TRANSACTION"
  shows "appendable cap (startRow + numRows) (VersionInfo_append cap transactionID startRow numRows vi)"
proof (cases "(startRow + numRows) mod cap = 0")
  case True
  then show ?thesis by (simp add: appendable_def)
next
  case False
  let ?r = "startRow + numRows - 1"
  have r: "Suc ?r = startRow + numRows" using assms(2) by simp
  with False have "(startRow + numRows) div cap = ?r div cap"
    by (metis div_Suc)
  moreover from assms(1) have
    "insertionStatus (vector_or_new (?r div cap)
       (VersionInfo_append cap transactionID startRow numRows vi)) = InsertionStatus.CHECK_VERSION"
  proof (cases rule: for_vectors_row [where r = ?r and startRow = startRow
        and numRows = numRows and f = "VectorVersionInfo_append cap transactionID" and vi = vi])
    case outside
    with assms(2) show ?thesis by simp
  next
    case (inside s n)
    have "insertionStatus (VectorVersionInfo_append cap transactionID s n
        (vector_or_new (?r div cap) vi)) = InsertionStatus.CHECK_VERSION"
      using append_versions [OF vi_invD [OF assms(3)] assms(5) inside(2)]
        append_start [OF assms(4,1) inside(4,1,2)] by blast
    with inside(3) show ?thesis
      by (simp add: vector_or_new_def [of _ "for_vectors _ _ _ _ _"] VersionInfo_append_def)
  qed
  ultimately show ?thesis by (simp add: appendable_def)
qed

text \<open>Deleting a row, on each of its three outcomes.\<close>

lemma delete_rows:
  assumes cap: "0 < cap" and inv: "vi_inv cap vi" and t: "transactionID \<noteq> INVALID_TRANSACTION"
    and ins: "row_ins cap vi row \<noteq> INVALID_TRANSACTION"
    and del: "VersionInfo_delete cap transactionID row vi = (res, vi')"
  shows "vi_inv cap vi' \<and>
    res = (if row_del cap vi row = transactionID then Inr False
           else if row_del cap vi row \<noteq> INVALID_TRANSACTION then Inl ww_delete_conflict
           else Inr True) \<and>
    row_del cap vi' = (if res = Inr True then (row_del cap vi)(row := transactionID)
                       else row_del cap vi) \<and>
    row_ins cap vi' = row_ins cap vi"
proof -
  let ?k = "row div cap" and ?i = "row mod cap"
  let ?v = "vector_or_new ?k vi"
  let ?w = "if insertionStatus ?v = NO_INSERTED then ?v\<lparr>insertionStatus := ALWAYS_INSERTED\<rparr> else ?v"
  obtain x vi1 where c: "getOrCreateVersionInfo ?k vi = (x, vi1)" by fastforce
  obtain v' where d: "VectorVersionInfo_delete cap transactionID ?i ?w = (res, v')"
    and vi': "vi' = putVectorInfo ?k v' vi1"
    using del getOrCreateVersionInfo_put(1) [OF c]
    by (auto simp: VersionInfo_delete_def c Let_def split: prod.splits)
  have get: "getVectorVersionInfo j vi' = (if j = ?k then Some v' else getVectorVersionInfo j vi)" for j
    unfolding vi' by (rule getOrCreateVersionInfo_put(2) [OF c])
  have w: "vvi_inv cap ?w" "del_version ?w = del_version ?v"
    using vi_invD [OF inv, of ?k] by (auto simp: version_defs)
  have wi: "row_ins cap vi r = ins_version ?w (r mod cap)" if "r div cap = ?k" for r
    using ins that by (auto simp: row_ins_def vector_or_new_def VectorVersionInfo_new_def
        version_defs split: option.splits)
  have dv: "vvi_inv cap v'" "ins_version v' = ins_version ?w"
    "res = (if row_del cap vi row = transactionID then Inr False
            else if row_del cap vi row \<noteq> INVALID_TRANSACTION then Inl ww_delete_conflict
            else Inr True)"
    "j < cap \<Longrightarrow> del_version v' j =
       (if res = Inr True \<and> j = ?i then transactionID else del_version ?v j)" for j
    using delete_versions [OF w(1) t _ d] cap w(2) by (auto simp: row_del_eq)
  have "vi_inv cap vi'" using inv dv(1) by (simp add: vi_inv_def get)
  moreover have "row_ins cap vi' r = row_ins cap vi r" for r
    using wi [of r] dv(2) by (simp add: row_ins_def [of cap vi'] get)
      (simp add: row_ins_def)
  moreover have "row_del cap vi' r = (if res = Inr True \<and> r = row then transactionID
      else row_del cap vi r)" for r
  proof -
    have "r div cap = ?k \<Longrightarrow> r mod cap = ?i \<Longrightarrow> r = row" by (metis div_mult_mod_eq)
    then show ?thesis
      using dv(4) [of "r mod cap"] cap by (auto simp: row_del_eq vector_or_new_def get)
  qed
  ultimately show ?thesis using dv(3) by auto
qed

section \<open>Properties\<close>

text \<open>An invariant that evaluates, for concrete objects.\<close>

lemma vi_inv_list:
  "vi_inv cap vi \<longleftrightarrow> list_all (\<lambda>info. case info of None \<Rightarrow> True | Some v \<Rightarrow> vvi_inv cap v) (vectorsInfo vi)"
  unfolding vi_inv_def getVectorVersionInfo_def opt_nth_def list_all_length
  by (auto split: option.splits if_splits)

lemmas vi_inv_code [code] = vi_inv_list

lemma ins_owned_code [code]:
  "ins_owned cap t r vi \<longleftrightarrow> 0 < cap \<and> vi_inv cap vi \<and> uncommitted t \<and>
     list_all (\<lambda>row. row_ins cap vi row = t) [fst r..<fst r + snd r]"
  by (simp add: ins_owned_def list_all_iff)

lemma del_owned_code [code]:
  "del_owned cap t r vi \<longleftrightarrow> 0 < cap \<and> vi_inv cap vi \<and> uncommitted t \<and>
     list_all (\<lambda>row. row_del cap vi row = t) [fst r..<fst r + snd r]"
  by (simp add: del_owned_def list_all_iff)

text \<open>
  C15: appending rows after the rows of a chunk gives each new row the version of the appending
  transaction, leaves the versions of the rows before it and every deletion as they were, keeps
  the invariant, and leaves the chunk ready for the next append, through all four ways a vector
  stores its insertions.
\<close>

theorem append_refines:
  assumes "0 < cap" "0 < numRows" "vi_inv cap vi" "transactionID \<noteq> INVALID_TRANSACTION"
    and "appendable cap startRow vi"
  shows "let vi' = VersionInfo_append cap transactionID startRow numRows vi in
    vi_inv cap vi' \<and> appendable cap (startRow + numRows) vi' \<and> row_del cap vi' = row_del cap vi \<and>
    (\<forall>row < startRow + numRows. row_ins cap vi' row =
      (if row < startRow then row_ins cap vi row else transactionID))"
  using append_rows [OF assms(1,3,4,5) refl] appendable_append [OF assms(1,2,3,5,4)]
  by (auto simp: Let_def)

theorem append_refines_witness:
  "let vi = VersionInfo_append 2 5 0 1 VersionInfo_new; vi' = VersionInfo_append 2 7 1 3 vi in
    vi_inv 2 vi' \<and> appendable 2 4 vi' \<and> row_del 2 vi' = row_del 2 vi \<and>
    row_ins 2 vi' 0 = row_ins 2 vi 0 \<and> row_ins 2 vi' 1 = 7 \<and> row_ins 2 vi' 3 = 7"
proof -
  let ?vi = "VersionInfo_append 2 5 0 1 VersionInfo_new"
  have "vi_inv 2 ?vi" "(7 :: transaction_t) \<noteq> INVALID_TRANSACTION" "appendable 2 1 ?vi" by code_simp+
  from append_refines [OF _ _ this, of 3] show ?thesis by (simp add: Let_def)
qed

text \<open>
  C16: deleting an existing row has exactly three outcomes: a row this transaction already deleted
  is reported as not deleted again; a row some other transaction deleted, committed or not, raises
  the write-write conflict; any other row becomes deleted by this transaction. Only in the last
  case a version changes, and only that of the row.
\<close>

theorem delete_outcomes:
  assumes "0 < cap" "vi_inv cap vi" "transactionID \<noteq> INVALID_TRANSACTION"
    and "row_ins cap vi row \<noteq> INVALID_TRANSACTION"
    and "VersionInfo_delete cap transactionID row vi = (res, vi')"
  shows "vi_inv cap vi' \<and> row_ins cap vi' = row_ins cap vi \<and>
    res = (if row_del cap vi row = transactionID then Inr False
           else if row_del cap vi row \<noteq> INVALID_TRANSACTION then Inl ww_delete_conflict
           else Inr True) \<and>
    row_del cap vi' = (if res = Inr True then (row_del cap vi)(row := transactionID)
                       else row_del cap vi)"
  using delete_rows [OF assms] by blast

theorem delete_outcomes_witness:
  "let vi = snd (VersionInfo_delete 2 START_TRANSACTION_ID 3 VersionInfo_new);
       r = VersionInfo_delete 2 (START_TRANSACTION_ID + 1) 3 vi in
    vi_inv 2 (snd r) \<and> row_ins 2 (snd r) = row_ins 2 vi \<and> fst r = Inl ww_delete_conflict \<and>
    row_del 2 (snd r) = row_del 2 vi"
proof -
  let ?vi = "snd (VersionInfo_delete 2 START_TRANSACTION_ID 3 VersionInfo_new)"
  let ?r = "VersionInfo_delete 2 (START_TRANSACTION_ID + 1) 3 ?vi"
  have "0 < (2 :: nat)" "vi_inv 2 ?vi" "START_TRANSACTION_ID + 1 \<noteq> INVALID_TRANSACTION"
    "row_ins 2 ?vi 3 \<noteq> INVALID_TRANSACTION" "?r = (fst ?r, snd ?r)" by code_simp+
  note out = delete_outcomes [OF this]
  have "fst ?r = Inl ww_delete_conflict" by code_simp
  with out show ?thesis by (simp add: Let_def)
qed

text \<open>
  C12: committing the insertion of a row range with timestamp \<open>c\<close> changes nothing a transaction that
  started before \<open>c\<close> sees, and makes every row of the range inserted for a transaction that
  starts at or after \<open>c\<close>.
\<close>

theorem commitInsert_snapshots:
  assumes "ins_owned cap t (startRow, numRows) vi" "c < START_TRANSACTION_ID"
    and "snapshot_ok ts i" "i \<noteq> t"
  shows "(ts < c \<longrightarrow> VersionInfo_isInserted cap ts i row (VersionInfo_commitInsert cap startRow numRows c vi) =
        VersionInfo_isInserted cap ts i row vi) \<and>
    (c \<le> ts \<longrightarrow> row \<in> {startRow..<startRow + numRows} \<longrightarrow>
        VersionInfo_isInserted cap ts i row (VersionInfo_commitInsert cap startRow numRows c vi))"
  using ins_store.commit_hidden_from_older [OF assms(1,3,4) _ _ assms(2), of row]
    ins_store.commit_seen_by_later [OF assms(1), of row c ts i] assms
  by (auto simp: row_isInserted_visible ins_owned_def uncommitted_def)

theorem commitInsert_snapshots_witness:
  "let vi = VersionInfo_append 2 START_TRANSACTION_ID 0 3 VersionInfo_new;
       vi' = VersionInfo_commitInsert 2 0 3 2 vi in
    VersionInfo_isInserted 2 1 (START_TRANSACTION_ID + 1) 1 vi' =
      VersionInfo_isInserted 2 1 (START_TRANSACTION_ID + 1) 1 vi \<and>
    VersionInfo_isInserted 2 2 (START_TRANSACTION_ID + 1) 1 vi'"
proof -
  let ?vi = "VersionInfo_append 2 START_TRANSACTION_ID 0 3 VersionInfo_new"
  have own: "ins_owned 2 START_TRANSACTION_ID (0, 3) ?vi" "(2 :: transaction_t) < START_TRANSACTION_ID"
    "snapshot_ok 1 (START_TRANSACTION_ID + 1)" "snapshot_ok 2 (START_TRANSACTION_ID + 1)"
    "START_TRANSACTION_ID + 1 \<noteq> START_TRANSACTION_ID" by code_simp+
  show ?thesis
    using commitInsert_snapshots [OF own(1,2,3,5), of 1] commitInsert_snapshots [OF own(1,2,4,5), of 1]
    by (simp add: Let_def)
qed

text \<open>
  C13: rolling back the deletion of a row range leaves no row of the range deleted for anybody, and
  changes nothing for the other transactions.
\<close>

theorem rollbackDelete_snapshots:
  assumes "del_owned cap t (startRow, numRows) vi" "snapshot_ok ts i"
  shows "(row \<in> {startRow..<startRow + numRows} \<longrightarrow>
        \<not> VersionInfo_isDeleted cap ts i row (VersionInfo_rollbackDelete cap startRow numRows vi)) \<and>
    (i \<noteq> t \<longrightarrow> VersionInfo_isDeleted cap ts i row (VersionInfo_rollbackDelete cap startRow numRows vi) =
        VersionInfo_isDeleted cap ts i row vi)"
  using del_store.rollback_hidden_from_others [OF assms, of row]
    del_store.rollback_gone [OF assms(1) _ assms(2), of row] assms
  by (auto simp: row_isDeleted_visible del_owned_def uncommitted_def)

theorem rollbackDelete_snapshots_witness:
  "let vi = snd (VersionInfo_delete 2 START_TRANSACTION_ID 3 VersionInfo_new) in
   (3 \<in> {3..<3 + 1 :: nat} \<longrightarrow>
        \<not> VersionInfo_isDeleted 2 1 START_TRANSACTION_ID 3 (VersionInfo_rollbackDelete 2 3 1 vi)) \<and>
    (START_TRANSACTION_ID \<noteq> START_TRANSACTION_ID \<longrightarrow>
      VersionInfo_isDeleted 2 1 START_TRANSACTION_ID 3 (VersionInfo_rollbackDelete 2 3 1 vi) =
        VersionInfo_isDeleted 2 1 START_TRANSACTION_ID 3 vi)"
  unfolding Let_def by (rule rollbackDelete_snapshots [where t = START_TRANSACTION_ID]) code_simp+

end
