(* ===== verification/Version_Scan.thy ===== *)
theory Version_Scan
  imports Version_Info
begin

text \<open>
  Reading a chunk through its row versions: the selection vector of a scan, the number of deleted
  rows, and the serialized form, each related to the row versions of \<^verbatim>\<open>Version_Info\<close>.
\<close>

section \<open>Scans\<close>

text \<open>A vector without version information reads like one with nothing to check.\<close>

definition pass_vector :: VectorVersionInfo where
  "pass_vector = VectorVersionInfo_new\<lparr>insertionStatus := ALWAYS_INSERTED\<rparr>"

definition scan_vector :: "nat \<Rightarrow> VersionInfo \<Rightarrow> VectorVersionInfo" where
  "scan_vector j vi = (case getVectorVersionInfo j vi of None \<Rightarrow> pass_vector | Some v \<Rightarrow> v)"

definition pass_through :: "VectorVersionInfo \<Rightarrow> bool" where
  "pass_through v \<longleftrightarrow> deletionStatus v = NO_DELETED \<and> insertionStatus v = ALWAYS_INSERTED"

lemma pass_vector_simps [simp]:
  "deletionStatus pass_vector = NO_DELETED" "insertionStatus pass_vector = ALWAYS_INSERTED"
  "VectorVersionInfo_isSelected ts i row pass_vector"
  by (simp_all add: pass_vector_def VectorVersionInfo_new_def VectorVersionInfo_isSelected_def)

lemma isSelected_scan_vector:
  "i < cap \<Longrightarrow> VersionInfo_isSelected cap ts tid (k * cap + i) vi =
     VectorVersionInfo_isSelected ts tid i (scan_vector k vi)"
  by (simp add: VersionInfo_isSelected_def scan_vector_def split: option.split)

lemma filter_upt_add:
  "filter P [0..<pos + n] = filter P [0..<pos] @ map ((+) pos) (filter (\<lambda>i. P (pos + i)) [0..<n])"
proof -
  have "[pos..<pos + n] = map ((+) pos) [0..<n]" by (auto intro: nth_equalityI)
  then have "[0..<pos + n] = [0..<pos] @ map ((+) pos) [0..<n]"
    using upt_add_eq_append [of 0 pos n] by simp
  then show ?thesis by (simp add: filter_map o_def)
qed

lemma getSelVectorForScan_step:
  assumes inv: "sel_inv cap sel" and size: "selectedSize sel \<le> pos" and fits: "pos + n \<le> cap"
    and pass: "pass_through v \<Longrightarrow> selState sel = STATIC \<Longrightarrow> selectedSize sel = pos"
    and sel'_def: "sel' = getSelVectorForScan cap ts tid s n pos v sel"
  shows "sel_inv cap sel' \<and> selectedSize sel' \<le> pos + n \<and>
    getSelectedPositions cap sel' = getSelectedPositions cap sel @
      map ((+) pos) (filter (\<lambda>i. VectorVersionInfo_isSelected ts tid (s + i) v) [0..<n]) \<and>
    (selState sel' = STATIC \<longrightarrow> selState sel = STATIC \<and>
       (selectedSize sel' = selectedSize sel + n \<or> insertionStatus v = NO_INSERTED))"
proof -
  consider (pass) "pass_through v" | (none) "insertionStatus v = NO_INSERTED" "\<not> pass_through v"
    | (check) "\<not> pass_through v" "insertionStatus v \<noteq> NO_INSERTED" by blast
  then show ?thesis
  proof cases
    case pass
    then have sel: "VectorVersionInfo_isSelected ts tid row v" for row
      by (simp add: pass_through_def VectorVersionInfo_isSelected_def)
    show ?thesis
    proof (cases "selState sel")
      case STATIC
      with pass assms(4) have sz: "selectedSize sel = pos" by blast
      have s': "sel' = setSelSize (pos + n) sel"
        using pass STATIC isUnfiltered_iff [OF inv] sz
        by (simp add: sel'_def getSelVectorForScan_def pass_through_def)
      have "sel_inv cap sel'" "selState sel' = STATIC"
        using sel_inv_setSelSize [OF inv fits] STATIC s' by (simp_all add: setSelSize_def)
      from getSelectedPositions_static [OF this] getSelectedPositions_static [OF inv STATIC]
      show ?thesis using sz s' \<open>sel_inv cap sel'\<close> STATIC sel filter_upt_add [of "\<lambda>_. True" pos n]
        by (simp add: setSelSize_def)
    next
      case DYNAMIC
      obtain sl m where p: "push_rows (\<lambda>_. True) pos n (sel, selectedSize sel) = (sl, m)" by fastforce
      with setToFiltered_push_rows [OF inv DYNAMIC _ p] pass size fits DYNAMIC isUnfiltered_iff [OF inv] sel
      show ?thesis by (simp add: sel'_def getSelVectorForScan_def pass_through_def setToFiltered_def)
    qed
  next
    case none
    then have "\<not> VectorVersionInfo_isSelected ts tid row v" for row
      by (auto simp: pass_through_def VectorVersionInfo_isSelected_def)
    with none inv size show ?thesis by (simp add: sel'_def getSelVectorForScan_def pass_through_def)
  next
    case check
    let ?P = "\<lambda>i. VectorVersionInfo_isInserted ts tid (s + i) v \<and>
      \<not> VectorVersionInfo_isDeleted ts tid (s + i) v"
    let ?sel = "if isUnfiltered cap sel then makeDynamic cap sel else sel"
    obtain sl m where p: "push_rows ?P pos n (?sel, selectedSize ?sel) = (sl, m)" by fastforce
    have dyn: "sel_inv cap ?sel" "selState ?sel = DYNAMIC" "selectedSize ?sel = selectedSize sel"
      "getSelectedPositions cap ?sel = getSelectedPositions cap sel"
      using makeDynamic_props [OF inv] inv isUnfiltered_iff [OF inv] by (cases "selState sel"; simp)+
    have sel: "VectorVersionInfo_isSelected ts tid (s + i) v = ?P i" for i
      using check by (auto simp: pass_through_def VectorVersionInfo_isSelected_def)
    have "(deletionStatus v = NO_DELETED \<and> insertionStatus v = ALWAYS_INSERTED) = False"
      "(insertionStatus v \<noteq> NO_INSERTED) = True" using check by (auto simp: pass_through_def)
    then have "sel' = setToFiltered m sl"
      unfolding sel'_def getSelVectorForScan_def using p unfolding dyn(3)
      by (simp only: if_True if_False Let_def prod.case)
    with setToFiltered_push_rows [OF dyn(1,2) _ p] size fits dyn(3,4) show ?thesis
      by (simp add: sel setToFiltered_def)
  qed
qed

lemma getSelVectorToScan_unfold:
  assumes "0 < numRows"
  shows "getSelVectorToScan cap ts tid startRow numRows vi sel =
    fst (fold (\<lambda>j (sel, pos). case rows_in_vector cap startRow numRows j of (s, n) \<Rightarrow>
        (getSelVectorForScan cap ts tid s n pos (scan_vector j vi) sel, pos + n))
      (vectors_of_rows cap startRow numRows) (setToUnfiltered 0 sel, 0))"
proof -
  have "(case getVectorVersionInfo j vi of
      None \<Rightarrow> (if isUnfiltered cap sel then setSelSize (selectedSize sel + n) sel
        else (let (sel, numSelected) = push_rows (\<lambda>_. True) pos n (sel, selectedSize sel)
              in setToFiltered numSelected sel))
      | Some v \<Rightarrow> getSelVectorForScan cap ts tid s n pos v sel) =
    getSelVectorForScan cap ts tid s n pos (scan_vector j vi) sel" for j s n pos sel
    by (simp add: scan_vector_def getSelVectorForScan_def split: option.split)
  then show ?thesis using assms unfolding getSelVectorToScan_def Let_def by simp
qed

lemma rows_in_vector_pos:
  assumes cap: "0 < cap" "0 < numRows" and k: "startRow div cap \<le> k" "k \<le> (startRow + numRows - 1) div cap"
    and sn: "rows_in_vector cap startRow numRows k = (s, n)"
  shows "k * cap + s = max startRow (k * cap)"
    "k * cap + s + n = min (Suc k * cap) (startRow + numRows)"
proof -
  have n: "0 < n" "s + n \<le> cap" and
    rng: "i < cap \<Longrightarrow> s \<le> i \<and> i < s + n \<longleftrightarrow>
      startRow \<le> k * cap + i \<and> k * cap + i < startRow + numRows" for i
    using rows_in_vector_range [OF cap k sn] by auto
  obtain l where l: "n = Suc l" using n by (cases n) auto
  have "startRow \<le> k * cap + s" "k * cap + (s + l) < startRow + numRows"
    using rng [of s] rng [of "s + l"] n l by simp_all
  moreover have "k * cap + (s - 1) < startRow" if "0 < s"
  proof -
    have "\<not> s \<le> s - 1" "s - 1 < cap" "s < cap" using that n by simp_all
    then show ?thesis using rng [of "s - 1"] rng [of s] n that by simp linarith
  qed
  moreover have "startRow + numRows \<le> k * cap + (s + n)" if "s + n < cap"
    using rng [of "s + n"] rng [of s] n that by simp
  ultimately show "k * cap + s = max startRow (k * cap)"
    "k * cap + s + n = min (Suc k * cap) (startRow + numRows)"
    using n l by (cases "s = 0"; cases "s + n < cap"; simp)+
qed

text \<open>
  The shortcut for vectors with nothing to check counts their rows into an unfiltered selection,
  so it must not follow a vector that contributed no rows.
\<close>

definition scan_ok :: "nat \<Rightarrow> nat \<Rightarrow> nat \<Rightarrow> VersionInfo \<Rightarrow> bool" where
  "scan_ok cap startRow numRows vi \<longleftrightarrow>
     list_all (\<lambda>k. pass_through (scan_vector k vi) \<longrightarrow>
         list_all (\<lambda>j. insertionStatus (scan_vector j vi) \<noteq> NO_INSERTED) [startRow div cap..<k])
       (vectors_of_rows cap startRow numRows)"

lemma scan_pos_start: "max (startRow :: nat) (min (startRow div cap * cap) (startRow + numRows)) = startRow"
  using div_times_less_eq_dividend [of startRow cap] by linarith

lemma scan_loop:
  assumes cap: "0 < cap" and num: "0 < numRows" "numRows \<le> cap" and inv: "sel_inv cap sel0"
    and ok: "scan_ok cap startRow numRows vi"
    and m: "startRow div cap \<le> m" "m \<le> Suc ((startRow + numRows - 1) div cap)"
    and res: "fold (\<lambda>j (sel, pos). case rows_in_vector cap startRow numRows j of
        (s, n) \<Rightarrow> (getSelVectorForScan cap ts tid s n pos (scan_vector j vi) sel, pos + n))
      [startRow div cap..<m] (setToUnfiltered 0 sel0, 0) = (sel, pos)"
  shows "sel_inv cap sel \<and> selectedSize sel \<le> pos \<and>
    startRow + pos = max startRow (min (m * cap) (startRow + numRows)) \<and>
    getSelectedPositions cap sel =
      filter (\<lambda>i. VersionInfo_isSelected cap ts tid (startRow + i) vi) [0..<pos] \<and>
    (selState sel = STATIC \<longrightarrow> selectedSize sel = pos \<or>
      (\<exists>j\<in>{startRow div cap..<m}. insertionStatus (scan_vector j vi) = NO_INSERTED))"
  using m res
proof (induction m arbitrary: sel pos rule: dec_induct)
  case base
  then have "sel = setToUnfiltered 0 sel0" "pos = 0" by simp_all
  then show ?case using inv cap scan_pos_start [of startRow cap numRows]
    by (simp add: setToUnfiltered_def sel_inv_def getSelectedPositions_def)
next
  case (step m)
  obtain sel1 pos1 where r1: "fold (\<lambda>j (sel, pos).
      case rows_in_vector cap startRow numRows j of (s, n) \<Rightarrow>
        (getSelVectorForScan cap ts tid s n pos (scan_vector j vi) sel, pos + n))
      [startRow div cap..<m] (setToUnfiltered 0 sel0, 0) = (sel1, pos1)" by (rule prod.exhaust)
  obtain s n where sn: "rows_in_vector cap startRow numRows m = (s, n)" by fastforce
  have m: "startRow div cap \<le> m" "m \<le> (startRow + numRows - 1) div cap"
    using step.hyps(1) step.prems(1) by simp_all
  note IH = step.IH [OF le_SucI [OF m(2)] r1]
  have eqs: "sel = getSelVectorForScan cap ts tid s n pos1 (scan_vector m vi) sel1" "pos = pos1 + n"
    using step.prems step.hyps r1 sn by simp_all
  note rp = rows_in_vector_pos [OF cap num(1) m sn] rows_in_vector_range [OF cap num(1) m sn]
  have p1: "startRow + pos1 = m * cap + s"
    using IH rp(1-3) by linarith
  then have p: "startRow + pos = min (Suc m * cap) (startRow + numRows)" using rp(2) eqs(2) by simp
  have vis: "VersionInfo_isSelected cap ts tid (startRow + (pos1 + i)) vi =
      VectorVersionInfo_isSelected ts tid (s + i) (scan_vector m vi)" if "i < n" for i
  proof -
    have "startRow + (pos1 + i) = m * cap + (s + i)" "s + i < cap" using p1 rp(4) that by simp_all
    then show ?thesis using isSelected_scan_vector [of "s + i" cap ts tid m vi] by metis
  qed
  have vis': "filter (\<lambda>i. VersionInfo_isSelected cap ts tid (startRow + (pos1 + i)) vi) [0..<n] =
      filter (\<lambda>i. VectorVersionInfo_isSelected ts tid (s + i) (scan_vector m vi)) [0..<n]"
    using vis by (intro filter_cong) simp_all
  have pass: "selectedSize sel1 = pos1"
    if "pass_through (scan_vector m vi)" "selState sel1 = STATIC"
    using ok IH m that unfolding scan_ok_def vectors_of_rows_def list_all_iff set_upt
    by (metis atLeastLessThan_iff less_Suc_eq_le Suc_eq_plus1)
  have "pos1 + n \<le> cap" using p num(2) eqs(2) by linarith
  note st = getSelVectorForScan_step [OF IH [THEN conjunct1] IH [THEN conjunct2, THEN conjunct1] this
      pass eqs(1), folded eqs(2)]
  have "getSelectedPositions cap sel =
      filter (\<lambda>i. VersionInfo_isSelected cap ts tid (startRow + i) vi) [0..<pos]"
    using st IH vis' unfolding eqs(2) filter_upt_add by simp
  moreover have "selState sel = STATIC \<longrightarrow> selectedSize sel = pos \<or>
      (\<exists>j\<in>{startRow div cap..<Suc m}. insertionStatus (scan_vector j vi) = NO_INSERTED)"
    using st IH m(1) eqs(2) by (metis atLeastLessThan_iff less_Suc_eq)
  ultimately show ?case using st p by (simp add: max_def)
qed

lemma getSelVectorToScan_rows:
  assumes cap: "0 < cap" and num: "0 < numRows" "numRows \<le> cap" and inv: "sel_inv cap sel"
    and ok: "scan_ok cap startRow numRows vi"
  shows "getSelectedPositions cap (getSelVectorToScan cap ts tid startRow numRows vi sel) =
      filter (\<lambda>i. VersionInfo_isSelected cap ts tid (startRow + i) vi) [0..<numRows] \<and>
    sel_inv cap (getSelVectorToScan cap ts tid startRow numRows vi sel)"
proof -
  let ?m = "Suc ((startRow + numRows - 1) div cap)"
  obtain sel' pos where r: "fold (\<lambda>j (sel, pos).
      case rows_in_vector cap startRow numRows j of (s, n) \<Rightarrow>
        (getSelVectorForScan cap ts tid s n pos (scan_vector j vi) sel, pos + n))
      [startRow div cap..<?m] (setToUnfiltered 0 sel, 0) = (sel', pos)" by (rule prod.exhaust)
  have "startRow div cap \<le> ?m" using num(1) by (intro le_SucI div_le_mono) simp
  note loop = scan_loop [OF cap num inv ok this order.refl r]
  have "startRow + numRows \<le> ?m * cap"
    using dividend_less_div_times [OF cap, of "startRow + numRows - 1"] num(1)
    unfolding mult_Suc by linarith
  with loop num(1) have "pos = numRows" by simp
  moreover have "getSelVectorToScan cap ts tid startRow numRows vi sel = sel'"
    unfolding getSelVectorToScan_unfold [OF num(1)] vectors_of_rows_def Suc_eq_plus1 [symmetric]
      r by simp
  ultimately show ?thesis using loop by simp
qed

text \<open>The count of deletions a transaction sees in a row range.\<close>

lemma fold_count: "fold (\<lambda>i n. n + (if P i then 1 else 0)) xs (k :: nat) = k + length (filter P xs)"
  by (induction xs arbitrary: k) simp_all

lemma VectorVersionInfo_getNumDeletions_eq:
  "VectorVersionInfo_getNumDeletions ts tid startRow numRows v =
     length (filter (\<lambda>i. VectorVersionInfo_isDeleted ts tid (startRow + i) v) [0..<numRows])"
  by (simp add: VectorVersionInfo_getNumDeletions_def fold_count)
    (simp add: VectorVersionInfo_isDeleted_def)

lemma isDeleted_vector:
  "i < cap \<Longrightarrow> VersionInfo_isDeleted cap ts tid (k * cap + i) vi =
     VectorVersionInfo_isDeleted ts tid i (vector_or_new k vi)"
  by (simp add: VersionInfo_isDeleted_def vector_or_new_def split: option.split)
    (simp add: VectorVersionInfo_isDeleted_def VectorVersionInfo_new_def)

lemma getNumDeletions_new: "VectorVersionInfo_getNumDeletions ts tid s n VectorVersionInfo_new = 0"
  by (simp add: VectorVersionInfo_getNumDeletions_def VectorVersionInfo_new_def)

lemma getNumDeletions_loop:
  assumes cap: "0 < cap" and num: "0 < numRows"
    and m: "startRow div cap \<le> m" "m \<le> Suc ((startRow + numRows - 1) div cap)"
  shows "fold (\<lambda>j d. d + (case rows_in_vector cap startRow numRows j of (s, n) \<Rightarrow>
      VectorVersionInfo_getNumDeletions ts tid s n (vector_or_new j vi))) [startRow div cap..<m] 0 =
    length (filter (\<lambda>i. VersionInfo_isDeleted cap ts tid (startRow + i) vi)
      [0..<max startRow (min (m * cap) (startRow + numRows)) - startRow])"
  using m
proof (induction m rule: dec_induct)
  case base
  note scan_pos_start [of startRow cap numRows]
  then show ?case by simp
next
  case (step m)
  obtain s n where sn: "rows_in_vector cap startRow numRows m = (s, n)" by fastforce
  have m: "startRow div cap \<le> m" "m \<le> (startRow + numRows - 1) div cap"
    using step.hyps(1) step.prems(1) by simp_all
  note rp = rows_in_vector_pos [OF cap num m sn] rows_in_vector_range [OF cap num m sn]
  obtain pos where pos: "max startRow (min (m * cap) (startRow + numRows)) - startRow = pos" by simp
  have p1: "startRow + pos = m * cap + s" using rp(1-3) pos by linarith
  have p: "max startRow (min (Suc m * cap) (startRow + numRows)) - startRow = pos + n"
    using p1 rp(2) by linarith
  have vis: "VersionInfo_isDeleted cap ts tid (startRow + (pos + i)) vi =
      VectorVersionInfo_isDeleted ts tid (s + i) (vector_or_new m vi)" if "i < n" for i
  proof -
    have "startRow + (pos + i) = m * cap + (s + i)" "s + i < cap" using p1 rp(4) that by simp_all
    then show ?thesis using isDeleted_vector [of "s + i" cap ts tid m vi] by metis
  qed
  have "filter (\<lambda>i. VersionInfo_isDeleted cap ts tid (startRow + (pos + i)) vi) [0..<n] =
      filter (\<lambda>i. VectorVersionInfo_isDeleted ts tid (s + i) (vector_or_new m vi)) [0..<n]"
    using vis by (intro filter_cong) simp_all
  then show ?case
    using step unfolding p filter_upt_add pos
    by (simp add: sn VectorVersionInfo_getNumDeletions_eq)
qed

lemma VersionInfo_getNumDeletions_rows:
  assumes cap: "0 < cap"
  shows "VersionInfo_getNumDeletions cap ts tid startRow numRows vi =
    length (filter (\<lambda>i. VersionInfo_isDeleted cap ts tid (startRow + i) vi) [0..<numRows])"
proof (cases "numRows = 0")
  case True
  then show ?thesis by (simp add: VersionInfo_getNumDeletions_def)
next
  case False
  then have num: "0 < numRows" by simp
  let ?e = "(startRow + numRows - 1) div cap"
  have le: "startRow div cap \<le> ?e" using num by (intro div_le_mono) simp
  have vr: "vectors_of_rows cap startRow numRows = [startRow div cap..<Suc ?e]"
    by (simp add: vectors_of_rows_def)
  have step: "(let rowInVector = (if j = startRow div cap then startRow mod cap else 0);
        numRowsInVector = (if j = ?e then (startRow + numRows - 1) mod cap - rowInVector + 1
          else cap - rowInVector)
      in case getVectorVersionInfo j vi of None \<Rightarrow> d
         | Some v \<Rightarrow> d + VectorVersionInfo_getNumDeletions ts tid rowInVector numRowsInVector v) =
    d + (case rows_in_vector cap startRow numRows j of (s, n) \<Rightarrow>
      VectorVersionInfo_getNumDeletions ts tid s n (vector_or_new j vi))" for j d
  proof -
    have "startRow mod cap < cap" using cap by simp
    then have "rows_in_vector cap startRow numRows j =
      (let r = (if j = startRow div cap then startRow mod cap else 0)
       in (r, if j = ?e then (startRow + numRows - 1) mod cap - r + 1 else cap - r))"
      unfolding rows_in_vector_def Let_def
      by (cases "j = startRow div cap"; cases "j = ?e") (use cap in \<open>simp_all add: Suc_diff_Suc\<close>)
    then show ?thesis
      by (simp add: Let_def vector_or_new_def getNumDeletions_new split: option.split)
  qed
  have "startRow + numRows \<le> Suc ?e * cap"
    using dividend_less_div_times [OF cap, of "startRow + numRows - 1"] num
    unfolding mult_Suc by linarith
  then have "max startRow (min (Suc ?e * cap) (startRow + numRows)) - startRow = numRows"
    by (simp only: min_absorb2 max_absorb2 le_add1 diff_add_inverse)
  note loop = getNumDeletions_loop [OF cap num le_SucI [OF le] order.refl, of ts tid vi,
      unfolded this]
  show ?thesis unfolding VersionInfo_getNumDeletions_def vr step using False loop
    by (simp only: if_False)
qed

section \<open>Serialization\<close>

text \<open>
  Version information is written at a checkpoint, when no insertion is left to check. What is
  read back is then the object written.
\<close>

definition checkpointed_vector :: "nat \<Rightarrow> VectorVersionInfo \<Rightarrow> bool" where
  "checkpointed_vector cap v \<longleftrightarrow>
     vvi_inv cap v \<and> insertionStatus v \<noteq> InsertionStatus.CHECK_VERSION"

lemma status_byte_roundtrip [simp]:
  "InsertionStatus_of_byte (InsertionStatus_byte x) = Some x"
  "DeletionStatus_of_byte (DeletionStatus_byte y) = Some y"
   apply (cases x; simp add: InsertionStatus_of_byte_def)
  apply (cases y; simp add: DeletionStatus_of_byte_def)
  done

lemmas value_roundtrips = u8_codec.roundtrip [OF TrueI] u64_codec.roundtrip [OF TrueI]
  u64_codec.array_roundtrip bool_codec.roundtrip [OF TrueI]

interpretation vector_version_codec: codec VectorVersionInfo_serialize
    "VectorVersionInfo_deSerialize cap" "checkpointed_vector cap" for cap
proof
  fix v :: VectorVersionInfo and rest
  assume "checkpointed_vector cap v"
  then have inv: "vvi_inv cap v" and st: "insertionStatus v \<noteq> InsertionStatus.CHECK_VERSION"
    by (simp_all add: checkpointed_vector_def)
  then have ins: "insertedVersions v = None" "sameInsertionVersion v = INVALID_TRANSACTION"
    by (cases "insertedVersions v"; simp add: vvi_inv_def)+
  consider (none) "deletionStatus v = NO_DELETED" "deletedVersions v = None"
      "sameDeletionVersion v = INVALID_TRANSACTION"
    | (same) "deletionStatus v = DeletionStatus.CHECK_VERSION" "deletedVersions v = None"
      "sameDeletionVersion v \<noteq> INVALID_TRANSACTION"
    | (arr) a where "deletionStatus v = DeletionStatus.CHECK_VERSION" "deletedVersions v = Some a"
      "sameDeletionVersion v = INVALID_TRANSACTION" "length a = cap"
    using inv by (cases "deletionStatus v"; cases "deletedVersions v") (auto simp: vvi_inv_def)
  then show "VectorVersionInfo_deSerialize cap (VectorVersionInfo_serialize v @ rest) = Some (v, rest)"
  proof cases
    case none
    then show ?thesis using ins
      by (simp add: VectorVersionInfo_deSerialize_def VectorVersionInfo_serialize_def
          value_roundtrips VectorVersionInfo_new_def del: DeletionStatus_byte.simps)
  next
    case same
    then show ?thesis using ins
      by (simp add: VectorVersionInfo_deSerialize_def VectorVersionInfo_serialize_def
          value_roundtrips VectorVersionInfo_new_def del: DeletionStatus_byte.simps)
  next
    case (arr a)
    then show ?thesis using ins u64_codec.array_roundtrip [of a rest]
      by (simp add: VectorVersionInfo_deSerialize_def VectorVersionInfo_serialize_def
          value_roundtrips VectorVersionInfo_new_def list_all_iff del: DeletionStatus_byte.simps)
  qed
qed

definition checkpointed_slot :: "nat \<Rightarrow> VectorVersionInfo option \<Rightarrow> bool" where
  "checkpointed_slot cap info = (case info of None \<Rightarrow> True | Some v \<Rightarrow> checkpointed_vector cap v)"

interpretation vector_slot_codec: codec serializeVectorSlot "deserializeVectorSlot cap"
    "checkpointed_slot cap" for cap
proof
  fix info :: "VectorVersionInfo option" and rest
  assume "checkpointed_slot cap info"
  then show "deserializeVectorSlot cap (serializeVectorSlot info @ rest) = Some (info, rest)"
    by (cases info) (simp_all add: serializeVectorSlot_def deserializeVectorSlot_def
        checkpointed_slot_def bool_codec.roundtrip vector_version_codec.roundtrip)
qed

definition checkpointed :: "nat \<Rightarrow> VersionInfo \<Rightarrow> bool" where
  "checkpointed cap vi \<longleftrightarrow>
     fits_u64 (vectorsInfo vi) \<and> list_all (checkpointed_slot cap) (vectorsInfo vi)"

interpretation version_info_codec: codec VersionInfo_serialize "VersionInfo_deserialize cap"
    "checkpointed cap" for cap
proof
  fix vi :: VersionInfo and rest
  assume "checkpointed cap vi"
  then show "VersionInfo_deserialize cap (VersionInfo_serialize vi @ rest) = Some (vi, rest)"
    by (simp add: checkpointed_def VersionInfo_serialize_def VersionInfo_deserialize_def
        vector_slot_codec.vector_roundtrip)
qed

section \<open>Properties\<close>


definition scan_example :: VersionInfo where
  "scan_example = snd (VersionInfo_delete 2 START_TRANSACTION_ID 1
     (VersionInfo_append 2 START_TRANSACTION_ID 0 4 VersionInfo_new))"


text \<open>
  The number of deletions reported for a row range is the number of rows in it whose deletion
  the transaction sees, across all the vectors the range touches.
\<close>

theorem getNumDeletions_counts:
  assumes "0 < cap" "snapshot_ok ts tid"
  shows "VersionInfo_getNumDeletions cap ts tid startRow numRows vi =
    card {r \<in> {startRow..<startRow + numRows}. visible ts tid (row_del cap vi r)}"
proof -
  have "VersionInfo_getNumDeletions cap ts tid startRow numRows vi =
      length (filter (\<lambda>i. visible ts tid (row_del cap vi (startRow + i))) [0..<numRows])"
    using VersionInfo_getNumDeletions_rows [OF assms(1)] row_isDeleted_visible [OF assms(2)] by simp
  also have "\<dots> = card ((+) startRow ` set (filter (\<lambda>i. visible ts tid (row_del cap vi (startRow + i)))
      [0..<numRows]))"
    by (subst card_image) (simp_all add: distinct_card del: set_filter)
  also have "(+) startRow ` set (filter (\<lambda>i. visible ts tid (row_del cap vi (startRow + i))) [0..<numRows]) =
      {r \<in> {startRow..<startRow + numRows}. visible ts tid (row_del cap vi r)}"
    by (force simp: image_iff le_iff_add)
  finally show ?thesis .
qed

theorem getNumDeletions_counts_witness:
  "VersionInfo_getNumDeletions 2 1 START_TRANSACTION_ID 0 4 scan_example =
    card {r \<in> {0..<0 + 4}. visible 1 START_TRANSACTION_ID (row_del 2 scan_example r)}"
  by (rule getNumDeletions_counts) code_simp+

text \<open>
  C17: version information written at a checkpoint is read back unchanged, with whatever follows it
  in the stream left to read.
\<close>

theorem VersionInfo_roundtrip:
  assumes "checkpointed cap vi"
  shows "VersionInfo_deserialize cap (VersionInfo_serialize vi @ rest) = Some (vi, rest)"
  by (rule version_info_codec.roundtrip [OF assms])

theorem VersionInfo_roundtrip_witness:
  "let vi = snd (VersionInfo_delete 2 5 3 VersionInfo_new) in
     VersionInfo_deserialize 2 (VersionInfo_serialize vi @ [7]) = Some (vi, [7])"
proof -
  have "checkpointed 2 (snd (VersionInfo_delete 2 5 3 VersionInfo_new))" by code_simp
  from VersionInfo_roundtrip [OF this] show ?thesis by simp
qed

end
