(* ===== verification/Update_Info.thy ===== *)
theory Update_Info
  imports Snapshot "HOL-Library.Monad_Syntax"
begin

text \<open>
  In-place updates of column chunks (\<^verbatim>\<open>storage/table/update_info.cpp\<close>). For every vector of a chunk
  an \<open>UpdateInfo\<close> keeps a chain of \<open>VectorUpdateInfo\<close> nodes, newest first. The chain is a list: the
  head is \<^verbatim>\<open>UpdateNode::info\<close>, \<^verbatim>\<open>prev\<close> of a node is the rest of the list and \<^verbatim>\<open>next\<close> the element
  before it, so the two pointers agree by construction. A node carries its address, the identity
  the undo buffer holds on to. The values written are the type parameter; \<^verbatim>\<open>ColumnChunkData\<close> is the
  list of the values written so far, by index, which the code fills in order.
\<close>

section \<open>State and operations\<close>

record 'v VectorUpdateInfo =
  infoAddr :: nat
  version :: transaction_t
  rowsInVector :: "nat list"
  numRowsUpdated :: nat
  data :: "'v list"

definition VectorUpdateInfo_new :: "nat \<Rightarrow> nat \<Rightarrow> transaction_t \<Rightarrow> 'v VectorUpdateInfo" where
  "VectorUpdateInfo_new cap addr transactionID =
     \<lparr>infoAddr = addr, version = transactionID, rowsInVector = replicate cap 0,
      numRowsUpdated = 0, data = []\<rparr>"

type_synonym 'v UpdateNode = "'v VectorUpdateInfo list"

text \<open>\<^verbatim>\<open>isEmpty\<close> answers whether the node has a chain, as the code has it.\<close>

definition UpdateNode_isEmpty :: "'v UpdateNode \<Rightarrow> bool" where
  "UpdateNode_isEmpty node \<longleftrightarrow> node \<noteq> []"

record 'v UpdateInfo =
  updates :: "'v UpdateNode list"

definition UpdateInfo_new :: "'v UpdateInfo" where
  "UpdateInfo_new = \<lparr>updates = []\<rparr>"

definition isSet :: "'v UpdateInfo \<Rightarrow> bool" where
  "isSet ui \<longleftrightarrow> updates ui \<noteq> []"

definition UpdateInfo_reset :: "'v UpdateInfo \<Rightarrow> 'v UpdateInfo" where
  "UpdateInfo_reset ui = ui\<lparr>updates := []\<rparr>"

definition UpdateInfo_clearVectorInfo :: "nat \<Rightarrow> 'v UpdateInfo \<Rightarrow> 'v UpdateInfo" where
  "UpdateInfo_clearVectorInfo vectorIdx ui = ui\<lparr>updates := (updates ui)[vectorIdx := []]\<rparr>"

definition getUpdateNode :: "nat \<Rightarrow> 'v UpdateInfo \<Rightarrow> exn + 'v UpdateNode" where
  "getUpdateNode vectorIdx ui =
     (if length (updates ui) \<le> vectorIdx
      then Inl (InternalException ''UpdateInfo does not have update node for vector index'')
      else Inr (updates ui ! vectorIdx))"

definition getOrCreateUpdateNode :: "nat \<Rightarrow> 'v UpdateInfo \<Rightarrow> 'v UpdateInfo" where
  "getOrCreateUpdateNode vectorIdx ui =
     (if length (updates ui) \<le> vectorIdx
      then ui\<lparr>updates := updates ui @ replicate (vectorIdx + 1 - length (updates ui)) []\<rparr>
      else ui)"

text \<open>The index of a row among the rows a node has updated.\<close>

fun find_row :: "nat \<Rightarrow> nat list \<Rightarrow> nat option" where
  "find_row row [] = None"
| "find_row row (r # rs) = (if r = row then Some 0 else map_option Suc (find_row row rs))"

definition updatedRows :: "'v VectorUpdateInfo \<Rightarrow> nat list" where
  "updatedRows info = take (numRowsUpdated info) (rowsInVector info)"

abbreviation ww_update_conflict :: exn where
  "ww_update_conflict \<equiv> RuntimeException ''Write-write conflict of updating the same row.''"

text \<open>
  The traversal of \<^verbatim>\<open>update\<close>: the position of the transaction's own node (the last one met), or the
  conflict. \<open>pos\<close> is the position of the head of the list in the chain.
\<close>

fun find_own_node ::
    "transaction_t \<Rightarrow> transaction_t \<Rightarrow> nat \<Rightarrow> nat \<Rightarrow> nat option \<Rightarrow> 'v UpdateNode \<Rightarrow> exn + nat option" where
  "find_own_node startTS transactionID row pos found [] = Inr found"
| "find_own_node startTS transactionID row pos found (current # older) =
     (if version current = transactionID
      then find_own_node startTS transactionID row (Suc pos) (Some pos) older
      else if startTS < version current \<and> row \<in> set (updatedRows current)
      then Inl ww_update_conflict
      else find_own_node startTS transactionID row (Suc pos) found older)"

definition write_row :: "nat \<Rightarrow> 'v \<Rightarrow> 'v VectorUpdateInfo \<Rightarrow> 'v VectorUpdateInfo" where
  "write_row row val info =
     (case find_row row (updatedRows info) of
        Some i \<Rightarrow> info\<lparr>data := (data info)[i := val]\<rparr>
      | None \<Rightarrow>
          info\<lparr>rowsInVector := (rowsInVector info)[numRowsUpdated info := row],
               data := take (numRowsUpdated info) (data info) @ [val],
               numRowsUpdated := numRowsUpdated info + 1\<rparr>)"

text \<open>
  \<open>addr\<close> is the address the allocator hands out if a node is created. The result is the address of
  the node that was written.
\<close>

definition UpdateInfo_update ::
    "nat \<Rightarrow> nat \<Rightarrow> transaction_t \<Rightarrow> transaction_t \<Rightarrow> nat \<Rightarrow> nat \<Rightarrow> 'v \<Rightarrow> 'v UpdateInfo \<Rightarrow>
     (exn + nat) \<times> 'v UpdateInfo" where
  "UpdateInfo_update cap addr startTS transactionID vectorIdx rowIdxInVector val ui =
     (let ui = getOrCreateUpdateNode vectorIdx ui;
          chain = updates ui ! vectorIdx
      in case find_own_node startTS transactionID rowIdxInVector 0 None chain of
           Inl e \<Rightarrow> (Inl e, ui)
         | Inr found \<Rightarrow>
             (let (pos, chain) =
                    (case found of
                       Some pos \<Rightarrow> (pos, chain)
                     | None \<Rightarrow> (0, VectorUpdateInfo_new cap addr transactionID # chain));
                  info = write_row rowIdxInVector val (chain ! pos)
              in (Inr (infoAddr info), ui\<lparr>updates := (updates ui)[vectorIdx := chain[pos := info]]\<rparr>)))"

text \<open>\<^verbatim>\<open>iterateVectorInfo\<close> calls its function on these nodes, in this order.\<close>

definition iterateVectorInfo ::
    "transaction_t \<Rightarrow> transaction_t \<Rightarrow> nat \<Rightarrow> 'v UpdateInfo \<Rightarrow> 'v VectorUpdateInfo list" where
  "iterateVectorInfo startTS transactionID idx ui =
     (if length (updates ui) \<le> idx \<or> \<not> UpdateNode_isEmpty (updates ui ! idx) then []
      else filter (\<lambda>current. version current = transactionID \<or> version current \<le> startTS)
             (updates ui ! idx))"

text \<open>\<^verbatim>\<open>lookup\<close>: the value written to the output, \<open>None\<close> when the output is left as it is.\<close>

definition UpdateInfo_lookup ::
    "nat \<Rightarrow> transaction_t \<Rightarrow> transaction_t \<Rightarrow> nat \<Rightarrow> 'v UpdateInfo \<Rightarrow> 'v option" where
  "UpdateInfo_lookup cap startTS transactionID rowInChunk ui =
     (if \<not> isSet ui then None
      else fold (\<lambda>info out.
             case out of
               Some v \<Rightarrow> Some v
             | None \<Rightarrow>
                 (case find_row (rowInChunk mod cap) (updatedRows info) of
                    None \<Rightarrow> None
                  | Some i \<Rightarrow> Some (data info ! i)))
           (iterateVectorInfo startTS transactionID (rowInChunk div cap) ui) None)"

definition UpdateInfo_commit ::
    "nat \<Rightarrow> nat \<Rightarrow> transaction_t \<Rightarrow> 'v UpdateInfo \<Rightarrow> exn + 'v UpdateInfo" where
  "UpdateInfo_commit vectorIdx addr commitTS ui =
     (case getUpdateNode vectorIdx ui of
        Inl e \<Rightarrow> Inl e
      | Inr chain \<Rightarrow>
          Inr (ui\<lparr>updates := (updates ui)[vectorIdx :=
                 map (\<lambda>info. if infoAddr info = addr then info\<lparr>version := commitTS\<rparr> else info) chain]\<rparr>))"

fun remove_version :: "transaction_t \<Rightarrow> 'v UpdateNode \<Rightarrow> 'v UpdateNode" where
  "remove_version ver [] = []"
| "remove_version ver (current # older) =
     (if version current = ver then older else current # remove_version ver older)"

definition UpdateInfo_rollback :: "nat \<Rightarrow> transaction_t \<Rightarrow> 'v UpdateInfo \<Rightarrow> 'v UpdateInfo" where
  "UpdateInfo_rollback vectorIdx ver ui =
     ui\<lparr>updates := (updates ui)[vectorIdx := remove_version ver (updates ui ! vectorIdx)]\<rparr>"

definition getNumUpdatedRows :: "transaction_t \<Rightarrow> transaction_t \<Rightarrow> 'v UpdateInfo \<Rightarrow> nat" where
  "getNumUpdatedRows startTS transactionID ui =
     card (set (concat (map (\<lambda>vectorIdx.
        concat (map updatedRows (iterateVectorInfo startTS transactionID vectorIdx ui)))
        [0..<length (updates ui)])))"

text \<open>
  \<^verbatim>\<open>iterateScan\<close> hands every updated row of the range to its callback once, with the newest visible
  node that has it; the callback's effect is threaded through as \<open>out\<close>. \<open>seen\<close> is the bitset of
  the rows handed out.
\<close>

definition apply_row ::
    "('v VectorUpdateInfo \<Rightarrow> nat \<Rightarrow> nat \<Rightarrow> 'o \<Rightarrow> 'o) \<Rightarrow> nat \<Rightarrow> nat \<Rightarrow> nat \<Rightarrow> 'v VectorUpdateInfo \<Rightarrow>
     nat \<Rightarrow> nat list \<times> 'o \<Rightarrow> nat list \<times> 'o" where
  "apply_row readFromRowFunc startOffsetInclusively endOffsetExclusively posInVector info i =
     (\<lambda>(seen, out).
        (let row = rowsInVector info ! i in
         if row < startOffsetInclusively \<or> endOffsetExclusively \<le> row then (seen, out)
         else (let updatedRowIdx = row - startOffsetInclusively in
               if updatedRowIdx \<in> set seen then (seen, out)
               else (updatedRowIdx # seen,
                     readFromRowFunc info i (posInVector + updatedRowIdx) out))))"

definition apply_info ::
    "('v VectorUpdateInfo \<Rightarrow> nat \<Rightarrow> nat \<Rightarrow> 'o \<Rightarrow> 'o) \<Rightarrow> nat \<Rightarrow> nat \<Rightarrow> nat \<Rightarrow> 'v VectorUpdateInfo \<Rightarrow>
     nat list \<times> 'o \<Rightarrow> nat list \<times> 'o" where
  "apply_info readFromRowFunc startOffsetInclusively endOffsetExclusively posInVector info st =
     (if numRowsUpdated info = 0 then st
      else if length (fst st) = endOffsetExclusively - startOffsetInclusively then st
      else fold (apply_row readFromRowFunc startOffsetInclusively endOffsetExclusively posInVector info)
             [0..<numRowsUpdated info] st)"

definition iterateScan ::
    "nat \<Rightarrow> transaction_t \<Rightarrow> transaction_t \<Rightarrow> nat \<Rightarrow> nat \<Rightarrow> nat \<Rightarrow>
     ('v VectorUpdateInfo \<Rightarrow> nat \<Rightarrow> nat \<Rightarrow> 'o \<Rightarrow> 'o) \<Rightarrow> 'v UpdateInfo \<Rightarrow> 'o \<Rightarrow> 'o" where
  "iterateScan cap startTS transactionID startOffsetToScan numRowsToScan startPosInOutput
       readFromRowFunc ui out =
     (if \<not> isSet ui then out
      else
        (let startVectorIdx = startOffsetToScan div cap;
             startOffsetInVector = startOffsetToScan mod cap;
             endVectorIdx = (startOffsetToScan + numRowsToScan) div cap;
             endOffsetInVector = (startOffsetToScan + numRowsToScan) mod cap
         in fst (fold (\<lambda>idx (out, posInVector).
              (let startOffsetInclusively = (if idx = startVectorIdx then startOffsetInVector else 0);
                   endOffsetExclusively = (if idx = endVectorIdx then endOffsetInVector else cap)
               in (snd (fold (apply_info readFromRowFunc startOffsetInclusively endOffsetExclusively
                               posInVector)
                          (iterateVectorInfo startTS transactionID idx ui) ([], out)),
                   posInVector + (endOffsetExclusively - startOffsetInclusively))))
              [startVectorIdx..<endVectorIdx + 1] (out, startPosInOutput))))"

definition UpdateInfo_scan ::
    "nat \<Rightarrow> transaction_t \<Rightarrow> transaction_t \<Rightarrow> nat \<Rightarrow> nat \<Rightarrow> 'v UpdateInfo \<Rightarrow> 'v list \<Rightarrow> 'v list" where
  "UpdateInfo_scan cap startTS transactionID offsetInChunk len ui output =
     iterateScan cap startTS transactionID offsetInChunk len 0
       (\<lambda>info i posInOutput out. out[posInOutput := data info ! i]) ui output"

definition UpdateInfo_scanCommitted ::
    "nat \<Rightarrow> transaction_t \<Rightarrow> transaction_t \<Rightarrow> nat \<Rightarrow> nat \<Rightarrow> nat \<Rightarrow> 'v UpdateInfo \<Rightarrow> 'v list \<Rightarrow> 'v list" where
  "UpdateInfo_scanCommitted cap startTS transactionID startOffsetInOutput startRowScanned numRows ui output =
     iterateScan cap startTS transactionID startRowScanned numRows startOffsetInOutput
       (\<lambda>info i posInOutput out. out[posInOutput := data info ! i]) ui output"

definition UpdateInfo_hasUpdates ::
    "nat \<Rightarrow> transaction_t \<Rightarrow> transaction_t \<Rightarrow> nat \<Rightarrow> nat \<Rightarrow> 'v UpdateInfo \<Rightarrow> bool" where
  "UpdateInfo_hasUpdates cap startTS transactionID startRow numRows ui =
     iterateScan cap startTS transactionID startRow numRows 0 (\<lambda>_ _ _ _. True) ui False"

section \<open>Lookups\<close>

fun first_value :: "'v VectorUpdateInfo list \<Rightarrow> nat \<Rightarrow> 'v option" where
  "first_value [] row = None"
| "first_value (info # infos) row =
     (case find_row row (updatedRows info) of
        Some i \<Rightarrow> Some (data info ! i)
      | None \<Rightarrow> first_value infos row)"

definition chain_of :: "nat \<Rightarrow> 'v UpdateInfo \<Rightarrow> 'v UpdateNode" where
  "chain_of idx ui = (if idx < length (updates ui) then updates ui ! idx else [])"

abbreviation visible_nodes ::
    "transaction_t \<Rightarrow> transaction_t \<Rightarrow> 'v UpdateNode \<Rightarrow> 'v VectorUpdateInfo list" where
  "visible_nodes startTS transactionID \<equiv> filter (\<lambda>info. visible startTS transactionID (version info))"

lemma iterateVectorInfo_eq:
  "iterateVectorInfo ts tid idx ui = visible_nodes ts tid (chain_of idx ui)"
  by (auto simp: iterateVectorInfo_def chain_of_def UpdateNode_isEmpty_def visible_def not_le)

lemma fold_lookup_Some:
  "fold (\<lambda>info out. case out of Some v \<Rightarrow> Some v | None \<Rightarrow> g info) infos (Some v) = Some v"
  by (induction infos) simp_all

lemma lookup_eq:
  "UpdateInfo_lookup cap ts tid row ui =
     first_value (visible_nodes ts tid (chain_of (row div cap) ui)) (row mod cap)"
proof -
  have "fold (\<lambda>info out. case out of Some v \<Rightarrow> Some v
      | None \<Rightarrow> (case find_row r (updatedRows info) of None \<Rightarrow> None | Some i \<Rightarrow> Some (data info ! i)))
      infos None = first_value infos r" for infos :: "'a VectorUpdateInfo list" and r
    by (induction infos) (auto simp: fold_lookup_Some split: option.split)
  then show ?thesis
    by (auto simp: UpdateInfo_lookup_def iterateVectorInfo_eq isSet_def chain_of_def)
qed

lemma find_row_None_iff: "find_row row rs = None \<longleftrightarrow> row \<notin> set rs"
  by (induction rs) auto

lemma find_row_Some: "find_row row rs = Some i \<Longrightarrow> i < length rs \<and> rs ! i = row"
  by (induction rs arbitrary: i) (auto split: if_splits)

lemma find_row_snoc:
  "find_row row (rs @ [r]) =
     (case find_row row rs of Some i \<Rightarrow> Some i | None \<Rightarrow> if r = row then Some (length rs) else None)"
  by (induction rs) (auto split: option.splits)

lemma first_value_append:
  "first_value (xs @ ys) row =
     (case first_value xs row of Some v \<Rightarrow> Some v | None \<Rightarrow> first_value ys row)"
  by (induction xs) (auto split: option.split)

lemma first_value_None_iff:
  "first_value infos row = None \<longleftrightarrow> (\<forall>info\<in>set infos. row \<notin> set (updatedRows info))"
  by (induction infos) (auto simp: find_row_None_iff split: option.split dest: find_row_Some)

section \<open>Scans\<close>

text \<open>
  \<open>merged\<close> describes the output after the updates of a vector: row \<open>s + k\<close> of the vector is at
  \<open>pos + k\<close>, and takes the value \<open>f\<close> has for it unless it was seen before.
\<close>

definition merged ::
    "nat \<Rightarrow> nat \<Rightarrow> nat \<Rightarrow> nat set \<Rightarrow> (nat \<Rightarrow> 'v option) \<Rightarrow> 'v list \<Rightarrow> 'v list" where
  "merged s n pos seen f out =
     take pos out @
     map (\<lambda>k. if k \<in> seen then out ! (pos + k)
              else (case f (s + k) of Some v \<Rightarrow> v | None \<Rightarrow> out ! (pos + k))) [0..<n] @
     drop (pos + n) out"

lemma length_merged [simp]: "pos + n \<le> length out \<Longrightarrow> length (merged s n pos seen f out) = length out"
  by (simp add: merged_def)

lemma nth_merged:
  "pos + n \<le> length out \<Longrightarrow> k < n \<Longrightarrow> merged s n pos seen f out ! (pos + k) =
     (if k \<in> seen then out ! (pos + k)
      else (case f (s + k) of Some v \<Rightarrow> v | None \<Rightarrow> out ! (pos + k)))"
  by (simp add: merged_def nth_append split: option.split)

lemma merged_cong:
  "(\<And>k. k < n \<Longrightarrow> k \<notin> seen \<Longrightarrow> f (s + k) = g (s + k)) \<Longrightarrow>
     merged s n pos seen f out = merged s n pos seen g out"
  by (simp add: merged_def)

lemma merged_trivial:
  assumes "pos + n \<le> length out" "\<And>k. k < n \<Longrightarrow> k \<notin> seen \<Longrightarrow> f (s + k) = None"
  shows "merged s n pos seen f out = out"
proof -
  have "map (\<lambda>k. if k \<in> seen then out ! (pos + k)
      else (case f (s + k) of Some v \<Rightarrow> v | None \<Rightarrow> out ! (pos + k))) [0..<n] = take n (drop pos out)"
    using assms by (auto intro!: nth_equalityI)
  then show ?thesis by (simp add: merged_def append_assoc [symmetric] take_add [symmetric] del: append_assoc)
qed

lemma merged_update:
  assumes "pos + n \<le> length out" "k < n" "k \<notin> seen"
    and "f (s + k) = None" "g (s + k) = Some v"
    and "\<And>j. j < n \<Longrightarrow> j \<noteq> k \<Longrightarrow> g (s + j) = f (s + j)"
  shows "(merged s n pos seen f out)[pos + k := v] = merged s n pos seen g out"
  using assms by (auto simp: merged_def list_update_append nth_list_update intro!: nth_equalityI)

lemma merged_merged:
  assumes "pos + n \<le> length out" "seen \<subseteq> seen'"
    and "\<And>k. k < n \<Longrightarrow> k \<in> seen' \<Longrightarrow> k \<notin> seen \<Longrightarrow> h (s + k) = f (s + k)"
    and "\<And>k. k < n \<Longrightarrow> k \<notin> seen' \<Longrightarrow> f (s + k) = None \<and> h (s + k) = g (s + k)"
  shows "merged s n pos seen' g (merged s n pos seen f out) = merged s n pos seen h out"
proof -
  have "merged s n pos seen f out ! (pos + k) = (if k \<in> seen then out ! (pos + k)
      else (case f (s + k) of Some v \<Rightarrow> v | None \<Rightarrow> out ! (pos + k)))" if "k < n" for k
    using nth_merged [OF assms(1) that] .
  moreover have "take pos (merged s n pos seen f out) = take pos out"
    "drop (pos + n) (merged s n pos seen f out) = drop (pos + n) out"
    using assms(1) by (simp_all add: merged_def)
  ultimately show ?thesis
    unfolding merged_def [of s n pos seen' g] merged_def [of s n pos seen h]
    using assms(2,3,4) by (auto split: option.split)
qed

abbreviation write_value :: "'v VectorUpdateInfo \<Rightarrow> nat \<Rightarrow> nat \<Rightarrow> 'v list \<Rightarrow> 'v list" where
  "write_value \<equiv> \<lambda>info i p out. out[p := data info ! i]"

lemma apply_rows_merged:
  assumes "m \<le> length (rowsInVector info)" "pos + n \<le> length out"
  shows "\<exists>seen'. fold (apply_row write_value s (s + n) pos info) [0..<m] (seen, out) =
      (seen', merged s n pos (set seen) (\<lambda>r. map_option ((!) (data info))
         (find_row r (take m (rowsInVector info)))) out) \<and>
    set seen' = set seen \<union> {k. k < n \<and> s + k \<in> set (take m (rowsInVector info))} \<and>
    (distinct seen \<longrightarrow> distinct seen')"
  using assms(1)
proof (induction m)
  case 0
  show ?case using assms(2) by (auto simp: merged_trivial intro!: exI [of _ seen])
next
  case (Suc m)
  let ?f = "\<lambda>m r. map_option ((!) (data info)) (find_row r (take m (rowsInVector info)))"
  let ?row = "rowsInVector info ! m"
  from Suc obtain seen1 where s1:
    "fold (apply_row write_value s (s + n) pos info) [0..<m] (seen, out) =
       (seen1, merged s n pos (set seen) (?f m) out)"
    "set seen1 = set seen \<union> {k. k < n \<and> s + k \<in> set (take m (rowsInVector info))}"
    "distinct seen \<longrightarrow> distinct seen1" by auto
  have tk: "take (Suc m) (rowsInVector info) = take m (rowsInVector info) @ [?row]"
    using Suc.prems by (simp add: take_Suc_conv_app_nth)
  have fr: "?f (Suc m) r = (case ?f m r of Some v \<Rightarrow> Some v
      | None \<Rightarrow> if ?row = r then Some (data info ! m) else None)" for r
    using Suc.prems by (simp add: tk find_row_snoc split: option.split)
  have step: "fold (apply_row write_value s (s + n) pos info) [0..<Suc m] (seen, out) =
      apply_row write_value s (s + n) pos info m (seen1, merged s n pos (set seen) (?f m) out)"
    using s1(1) by simp
  show ?case
  proof (cases "\<exists>k < n. ?row = s + k \<and> k \<notin> set seen1")
    case True
    then obtain k where k: "?row = s + k" "k < n" "k \<notin> set seen1" by blast
    then have new: "k \<notin> set seen" "?f m (s + k) = None"
      using s1(2) by (simp_all add: find_row_None_iff)
    have "(merged s n pos (set seen) (?f m) out)[pos + k := data info ! m] =
        merged s n pos (set seen) (?f (Suc m)) out"
      using k new assms(2) unfolding fr
      by (intro merged_update) (simp_all split: option.split)
    moreover have "set (k # seen1) =
        set seen \<union> {j. j < n \<and> s + j \<in> set (take (Suc m) (rowsInVector info))}"
      unfolding tk using k s1(2) by auto
    ultimately show ?thesis
      unfolding step using k s1(3) by (intro exI [of _ "k # seen1"]) (simp add: apply_row_def)
  next
    case False
    have "merged s n pos (set seen) (?f m) out = merged s n pos (set seen) (?f (Suc m)) out"
      using False s1(2) unfolding fr
      by (intro merged_cong) (auto simp: find_row_None_iff split: option.split)
    moreover have "j \<in> set seen1" if "j < n" "s + j = ?row" for j
      using False that by metis
    then have "set seen1 =
        set seen \<union> {j. j < n \<and> s + j \<in> set (take (Suc m) (rowsInVector info))}"
      unfolding tk using s1(2) by auto
    moreover have "?row < s \<or> s + n \<le> ?row \<or> ?row - s \<in> set seen1"
      using False by (metis le_add_diff_inverse nat_add_left_cancel_less not_le)
    then have "apply_row write_value s (s + n) pos info m (seen1, out') = (seen1, out')" for out'
      unfolding apply_row_def Let_def by auto
    ultimately show ?thesis
      unfolding step using s1(3) by (intro exI [of _ seen1]) simp
  qed
qed

lemma apply_infos_merged:
  assumes "\<forall>info\<in>set infos. numRowsUpdated info \<le> length (rowsInVector info)"
    and "pos + n \<le> length out" "distinct seen" "set seen \<subseteq> {k. k < n}"
  shows "snd (fold (apply_info write_value s (s + n) pos) infos (seen, out)) =
    merged s n pos (set seen) (first_value infos) out"
  using assms
proof (induction infos arbitrary: seen out)
  case Nil
  then show ?case by (simp add: merged_trivial)
next
  case (Cons info infos)
  show ?case
  proof (cases "length seen = n \<or> numRowsUpdated info = 0")
    case True
    have st: "apply_info write_value s (s + n) pos info (seen, out) = (seen, out)"
      using True by (auto simp: apply_info_def)
    show ?thesis
    proof (cases "length seen = n")
      case len: True
      have "set seen = {k. k < n}"
        using Cons.prems(3,4) len by (intro card_subset_eq) (auto simp: distinct_card)
      then have "merged s n pos (set seen) f out = out" for f
        using Cons.prems(2) by (intro merged_trivial) auto
      then show ?thesis using Cons.IH [of out seen] Cons.prems st by simp
    next
      case False
      with True have "updatedRows info = []" by (simp add: updatedRows_def)
      then have "first_value (info # infos) = first_value infos" by auto
      then show ?thesis using Cons.IH [of out seen] Cons.prems st by simp
    qed
  next
    case False
    from apply_rows_merged [of "numRowsUpdated info" info pos n out s seen] Cons.prems
    obtain seen' where s': "apply_info write_value s (s + n) pos info (seen, out) =
        (seen', merged s n pos (set seen) (\<lambda>r. map_option ((!) (data info))
           (find_row r (updatedRows info))) out)"
      "set seen' = set seen \<union> {k. k < n \<and> s + k \<in> set (updatedRows info)}" "distinct seen'"
      using False by (auto simp: apply_info_def updatedRows_def)
    have "snd (fold (apply_info write_value s (s + n) pos) (info # infos) (seen, out)) =
        merged s n pos (set seen') (first_value infos) (merged s n pos (set seen)
          (\<lambda>r. map_option ((!) (data info)) (find_row r (updatedRows info))) out)"
      using Cons.IH [of "merged s n pos (set seen)
          (\<lambda>r. map_option ((!) (data info)) (find_row r (updatedRows info))) out" seen'] s' Cons.prems
      by auto
    also have "\<dots> = merged s n pos (set seen) (first_value (info # infos)) out"
    proof (rule merged_merged)
      show "pos + n \<le> length out" by (rule Cons.prems)
      show "set seen \<subseteq> set seen'" using s'(2) by blast
    next
      fix k assume "k < n" "k \<in> set seen'" "k \<notin> set seen"
      then have "s + k \<in> set (updatedRows info)" using s'(2) by blast
      then obtain i where "find_row (s + k) (updatedRows info) = Some i"
        by (metis find_row_None_iff option.exhaust)
      then show "first_value (info # infos) (s + k) =
          map_option ((!) (data info)) (find_row (s + k) (updatedRows info))" by simp
    next
      fix k assume "k < n" "k \<notin> set seen'"
      then have "find_row (s + k) (updatedRows info) = None" using s'(2) by (simp add: find_row_None_iff)
      then show "map_option ((!) (data info)) (find_row (s + k) (updatedRows info)) = None \<and>
          first_value (info # infos) (s + k) = first_value infos (s + k)" by simp
    qed
    finally show ?thesis .
  qed
qed

lemma merged_concat:
  assumes "pos + n + n' \<le> length out" "\<And>k. k < n' \<Longrightarrow> f' (s' + k) = f (s + (n + k))"
  shows "merged s' n' (pos + n) {} f' (merged s n pos {} f out) = merged s (n + n') pos {} f out"
proof -
  let ?g = "\<lambda>k. case f (s + k) of Some v \<Rightarrow> v | None \<Rightarrow> out ! (pos + k)"
  have m1: "merged s n pos {} f out = take pos out @ map ?g [0..<n] @ drop (pos + n) out"
    by (simp add: merged_def)
  have "(merged s n pos {} f out) ! (pos + n + k) = out ! (pos + n + k)" if "k < n'" for k
    unfolding m1 using assms(1) that by (simp add: nth_append)
  then have "map (\<lambda>k. case f' (s' + k) of Some v \<Rightarrow> v
      | None \<Rightarrow> merged s n pos {} f out ! (pos + n + k)) [0..<n'] = map (\<lambda>k. ?g (n + k)) [0..<n']"
    using assms(2) by (auto simp: add.assoc split: option.split)
  moreover have "take (pos + n) (merged s n pos {} f out) = take pos out @ map ?g [0..<n]"
    "drop (pos + n + n') (merged s n pos {} f out) = drop (pos + n + n') out"
    unfolding m1 using assms(1) by (simp_all add: add_ac)
  moreover have "[0..<n + n'] = [0..<n] @ map ((+) n) [0..<n']"
    by (rule nth_equalityI) (auto simp: nth_append)
  then have "map ?g [0..<n + n'] = map ?g [0..<n] @ map (\<lambda>k. ?g (n + k)) [0..<n']" by simp
  ultimately show ?thesis
    unfolding merged_def [of s' n' "pos + n"] merged_def [of s "n + n'" pos] by (simp add: add.assoc)
qed

definition rows_fit :: "'v UpdateInfo \<Rightarrow> bool" where
  "rows_fit ui \<longleftrightarrow>
     list_all (list_all (\<lambda>info. numRowsUpdated info \<le> length (rowsInVector info))) (updates ui)"

lemma rows_fitD:
  "rows_fit ui \<Longrightarrow> info \<in> set (visible_nodes ts tid (chain_of idx ui)) \<Longrightarrow>
     numRowsUpdated info \<le> length (rowsInVector info)"
  by (auto simp: rows_fit_def chain_of_def list_all_iff split: if_splits)

lemma scan_segment:
  assumes cap: "0 < cap" and m: "start div cap \<le> m" "m \<le> (start + num) div cap"
  defines "s \<equiv> if m = start div cap then start mod cap else 0"
    and "e \<equiv> if m = (start + num) div cap then (start + num) mod cap else cap"
  shows "max start (min (m * cap) (start + num)) = m * cap + s"
    "max start (min (Suc m * cap) (start + num)) = m * cap + e"
    "s \<le> e" "e \<le> cap"
proof -
  obtain d r q t where dr: "start div cap = d" "start mod cap = r" "(start + num) div cap = q"
    "(start + num) mod cap = t" by simp
  have r: "r < cap" "t < cap" using cap dr by auto
  have lt: "x * cap + cap \<le> y * cap" if "x < y" for x y
    using mult_le_mono1 [of "Suc x" y cap] that by simp
  have eqs: "d * cap + r = start" "q * cap + t = start + num"
    unfolding dr [symmetric] by simp_all
  obtain A M Q where A: "d * cap = A" and M: "m * cap = M" and Q: "q * cap = Q" by simp
  have ca: "m = d \<Longrightarrow> M = A" "m \<noteq> d \<Longrightarrow> A + cap \<le> M"
    using m(1) lt [of d m] A M dr by simp_all
  have cq: "m = q \<Longrightarrow> M = Q" "m \<noteq> q \<Longrightarrow> M + cap \<le> Q"
    using m(2) lt [of m q] Q M dr by simp_all
  show "max start (min (m * cap) (start + num)) = m * cap + s"
    using ca cq eqs r unfolding s_def M A Q dr by (cases "m = d"; cases "m = q"; simp; linarith)
  show "max start (min (Suc m * cap) (start + num)) = m * cap + e"
    using ca cq eqs r unfolding e_def mult_Suc M A Q dr
    by (cases "m = d"; cases "m = q"; simp; linarith)
  show "e \<le> cap" using cap by (simp add: e_def)
  have "m * cap + s \<le> m * cap + e"
    unfolding \<open>max start (min (m * cap) (start + num)) = m * cap + s\<close> [symmetric]
      \<open>max start (min (Suc m * cap) (start + num)) = m * cap + e\<close> [symmetric] by auto
  then show "s \<le> e" by simp
qed

lemma iterateScan_loop:
  assumes cap: "0 < cap" and fit: "rows_fit ui" and len: "startPos + num \<le> length out"
    and m: "start div cap \<le> m" "m \<le> Suc ((start + num) div cap)"
  shows "fold (\<lambda>idx (out, pos).
      (let s = (if idx = start div cap then start mod cap else 0);
           e = (if idx = (start + num) div cap then (start + num) mod cap else cap)
       in (snd (fold (apply_info write_value s e pos) (iterateVectorInfo ts tid idx ui) ([], out)),
           pos + (e - s)))) [start div cap..<m] (out, startPos) =
    (let n = max start (min (m * cap) (start + num)) - start
     in (merged start n startPos {} (\<lambda>row. UpdateInfo_lookup cap ts tid row ui) out, startPos + n))"
  using m
proof (induction m rule: dec_induct)
  case base
  have "max start (min (start div cap * cap) (start + num)) = start"
    using div_times_less_eq_dividend [of start cap] by linarith
  then show ?case using len by (simp add: merged_trivial)
next
  case (step m)
  let ?s = "if m = start div cap then start mod cap else 0"
  let ?e = "if m = (start + num) div cap then (start + num) mod cap else cap"
  obtain n where n: "max start (min (m * cap) (start + num)) - start = n" by simp
  have mq: "m \<le> (start + num) div cap" using step.prems by simp
  note seg = scan_segment [OF cap step.hyps(1) mq]
  obtain n' where e: "?e = ?s + n'" using seg(3) le_Suc_ex by blast
  have n1: "start + n = m * cap + ?s" using seg(1) n by linarith
  have n2: "max start (min (Suc m * cap) (start + num)) - start = n + n'"
    using seg(2) n1 e by linarith
  have le: "startPos + n + n' \<le> length out" using n2 len by linarith
  have vals: "first_value (visible_nodes ts tid (chain_of m ui)) (?s + k) =
      UpdateInfo_lookup cap ts tid (start + (n + k)) ui" if "k < n'" for k
  proof -
    obtain s where s: "?s = s" by simp
    have row: "start + (n + k) = m * cap + (s + k)" using n1 s by linarith
    have "s + k < cap" using that e seg(4) s by linarith
    then have "(start + (n + k)) div cap = m" "(start + (n + k)) mod cap = ?s + k"
      unfolding row s by simp_all
    then show ?thesis unfolding lookup_eq by (simp only:)
  qed
  let ?f = "\<lambda>row. UpdateInfo_lookup cap ts tid row ui"
  have "snd (fold (apply_info write_value ?s ?e (startPos + n)) (iterateVectorInfo ts tid m ui)
      ([], merged start n startPos {} ?f out)) = merged start (n + n') startPos {} ?f out"
    unfolding e iterateVectorInfo_eq using fit le vals
    by (subst apply_infos_merged) (auto dest: rows_fitD intro!: merged_concat)
  then show ?case
    using step.IH mq step.hyps(1) unfolding Let_def n n2 by (simp add: e)
qed

lemma scanCommitted_eq:
  assumes cap: "0 < cap" and fit: "rows_fit ui" and len: "startPos + num \<le> length out"
  shows "UpdateInfo_scanCommitted cap ts tid startPos start num ui out =
    merged start num startPos {} (\<lambda>row. UpdateInfo_lookup cap ts tid row ui) out"
proof (cases "isSet ui")
  case False
  then show ?thesis using len
    by (simp add: UpdateInfo_scanCommitted_def iterateScan_def UpdateInfo_lookup_def merged_trivial)
next
  case True
  let ?m = "Suc ((start + num) div cap)"
  have le: "start div cap \<le> ?m" by (intro le_SucI div_le_mono) simp
  have "start + num \<le> ?m * cap"
    using dividend_less_div_times [OF cap, of "start + num"] unfolding mult_Suc by linarith
  then have "max start (min (?m * cap) (start + num)) - start = num"
    by (simp only: min_absorb2 max_absorb2 le_add1 diff_add_inverse)
  with iterateScan_loop [OF cap fit len le order.refl, of ts tid] True show ?thesis
    unfolding UpdateInfo_scanCommitted_def iterateScan_def Let_def by (simp del: upt_Suc)
qed

lemma UpdateInfo_scan_nth:
  assumes "0 < cap" "rows_fit ui" "len \<le> length out"
  shows "length (UpdateInfo_scan cap ts tid start len ui out) = length out"
    and "k < length out \<Longrightarrow> UpdateInfo_scan cap ts tid start len ui out ! k =
      (if k < len then (case UpdateInfo_lookup cap ts tid (start + k) ui of
                          Some v \<Rightarrow> v | None \<Rightarrow> out ! k)
       else out ! k)"
proof -
  have "UpdateInfo_scan cap ts tid start len ui out =
      merged start len 0 {} (\<lambda>row. UpdateInfo_lookup cap ts tid row ui) out"
    using scanCommitted_eq [OF assms(1,2), of 0 len out ts tid start] assms(3)
    by (simp add: UpdateInfo_scan_def UpdateInfo_scanCommitted_def)
  then show "length (UpdateInfo_scan cap ts tid start len ui out) = length out"
    "k < length out \<Longrightarrow> UpdateInfo_scan cap ts tid start len ui out ! k =
      (if k < len then (case UpdateInfo_lookup cap ts tid (start + k) ui of
                          Some v \<Rightarrow> v | None \<Rightarrow> out ! k)
       else out ! k)"
    using assms(3) by (auto simp: merged_def nth_append split: option.split)
qed

text \<open>
  C20: scanning a row range through the update chains gives every row the value that looking it up
  on its own gives, and leaves the rows no visible update touches, and the rest of the output, as
  they were.
\<close>

theorem scan_agrees_with_lookup:
  assumes "0 < cap" "rows_fit ui" "len \<le> length out"
  shows "length (UpdateInfo_scan cap ts tid start len ui out) = length out \<and>
    (\<forall>k < length out. UpdateInfo_scan cap ts tid start len ui out ! k =
      (if k < len then (case UpdateInfo_lookup cap ts tid (start + k) ui of
                          Some v \<Rightarrow> v | None \<Rightarrow> out ! k)
       else out ! k))"
  using UpdateInfo_scan_nth [OF assms] by blast

definition update_example :: "nat UpdateInfo" where
  "update_example =
     snd (UpdateInfo_update 2 1 1 START_TRANSACTION_ID 1 0 8
       (snd (UpdateInfo_update 2 0 1 START_TRANSACTION_ID 0 1 7 UpdateInfo_new)))"

theorem scan_agrees_with_lookup_witness:
  "UpdateInfo_scan 2 1 START_TRANSACTION_ID 1 2 update_example [3, 4 :: nat] ! 0 =
      (case UpdateInfo_lookup 2 1 START_TRANSACTION_ID 1 update_example of Some v \<Rightarrow> v | None \<Rightarrow> 3) \<and>
    UpdateInfo_scan 2 1 START_TRANSACTION_ID 1 2 update_example [3, 4 :: nat] ! 1 =
      (case UpdateInfo_lookup 2 1 START_TRANSACTION_ID 2 update_example of Some v \<Rightarrow> v | None \<Rightarrow> 4)"
proof -
  have "rows_fit update_example" by code_simp
  then show ?thesis
    using scan_agrees_with_lookup [of 2 update_example 2 "[3, 4]" 1 START_TRANSACTION_ID 1]
    by (auto simp: numeral_2_eq_2 split: option.split)
qed

end
