(* ===== verification/Update_Chain.thy ===== *)
theory Update_Chain
  imports Update_Info
begin

text \<open>
  The order of the update chains of \<^verbatim>\<open>Update_Info\<close> and what it gives: the invariant every operation
  keeps, the effect of \<^verbatim>\<open>update\<close> on what each transaction reads, and update nodes as a version store.
\<close>

section \<open>The chain invariant\<close>

text \<open>
  \<open>st\<close> gives the start timestamp of every running transaction. Of two nodes of a chain the one
  nearer to the head was created later: if the older one is still uncommitted, the newer one
  became visible after its transaction started; and a row in both was committed by the older node
  before the newer one could touch it.
\<close>

definition node_ok :: "nat \<Rightarrow> 'v VectorUpdateInfo \<Rightarrow> bool" where
  "node_ok cap info \<longleftrightarrow>
     length (rowsInVector info) = cap \<and> numRowsUpdated info \<le> cap \<and>
     length (data info) = numRowsUpdated info \<and> distinct (updatedRows info) \<and>
     list_all (\<lambda>r. r < cap) (updatedRows info)"

definition pair_ok ::
    "(transaction_t \<Rightarrow> transaction_t) \<Rightarrow> 'v VectorUpdateInfo \<Rightarrow> 'v VectorUpdateInfo \<Rightarrow> bool" where
  "pair_ok st newer older \<longleftrightarrow>
     infoAddr newer \<noteq> infoAddr older \<and>
     (START_TRANSACTION_ID \<le> version older \<longrightarrow>
        st (version older) < version newer \<and> version newer \<noteq> version older) \<and>
     list_all (\<lambda>r. r \<in> set (updatedRows older) \<longrightarrow>
        version older < START_TRANSACTION_ID \<and> version older < version newer) (updatedRows newer)"

definition chain_inv :: "nat \<Rightarrow> (transaction_t \<Rightarrow> transaction_t) \<Rightarrow> 'v UpdateNode \<Rightarrow> bool" where
  "chain_inv cap st chain \<longleftrightarrow> list_all (node_ok cap) chain \<and> sorted_wrt (pair_ok st) chain"

definition ui_inv :: "nat \<Rightarrow> (transaction_t \<Rightarrow> transaction_t) \<Rightarrow> 'v UpdateInfo \<Rightarrow> bool" where
  "ui_inv cap st ui \<longleftrightarrow> list_all (chain_inv cap st) (updates ui)"

definition node_value :: "'v VectorUpdateInfo \<Rightarrow> nat \<Rightarrow> 'v option" where
  "node_value info row = map_option ((!) (data info)) (find_row row (updatedRows info))"

lemma first_value_Cons:
  "first_value (info # infos) row =
     (case node_value info row of Some v \<Rightarrow> Some v | None \<Rightarrow> first_value infos row)"
  by (simp add: node_value_def split: option.split)

lemma node_ok_new: "node_ok cap (VectorUpdateInfo_new cap addr t)"
  by (simp add: node_ok_def VectorUpdateInfo_new_def updatedRows_def)

lemma write_row_simps [simp]:
  "version (write_row row val info) = version info"
  "infoAddr (write_row row val info) = infoAddr info"
  by (simp_all add: write_row_def split: option.split)

lemma write_row_ok:
  assumes ok: "node_ok cap info" and row: "row < cap"
  shows "node_ok cap (write_row row val info) \<and>
    set (updatedRows (write_row row val info)) = insert row (set (updatedRows info)) \<and>
    node_value (write_row row val info) = (node_value info)(row \<mapsto> val)"
proof (cases "find_row row (updatedRows info)")
  case None
  then have new: "row \<notin> set (updatedRows info)" by (simp add: find_row_None_iff)
  have len: "length (updatedRows info) = numRowsUpdated info"
    using ok by (simp add: node_ok_def updatedRows_def)
  have "insert row (set (updatedRows info)) \<subseteq> {r. r < cap}"
    using ok row by (auto simp: node_ok_def list_all_iff)
  then have "card (insert row (set (updatedRows info))) \<le> cap"
    using card_mono [of "{r. r < cap}"] by fastforce
  then have lt: "numRowsUpdated info < cap"
    using new ok len by (simp add: node_ok_def distinct_card)
  have rows: "updatedRows (write_row row val info) = updatedRows info @ [row]"
    using None lt ok by (simp add: write_row_def updatedRows_def node_ok_def take_Suc_conv_app_nth)
  have dat: "data (write_row row val info) = data info @ [val]"
    using None ok by (simp add: write_row_def node_ok_def)
  have "node_ok cap (write_row row val info)"
    using None ok rows lt new row by (simp add: node_ok_def dat) (simp add: write_row_def)
  moreover have "node_value (write_row row val info) r = ((node_value info)(row \<mapsto> val)) r" for r
    using None new len ok find_row_Some [of r "updatedRows info"]
    by (auto simp: node_value_def rows dat find_row_snoc nth_append node_ok_def split: option.split)
  ultimately show ?thesis using rows by (auto simp: fun_eq_iff)
next
  case (Some i)
  then have i: "i < length (updatedRows info)" "updatedRows info ! i = row"
    using find_row_Some by metis+
  have rows: "updatedRows (write_row row val info) = updatedRows info"
    using Some by (simp add: write_row_def updatedRows_def)
  have dat: "data (write_row row val info) = (data info)[i := val]"
    using Some by (simp add: write_row_def)
  have "i < length (data info)" using i ok by (simp add: node_ok_def updatedRows_def)
  moreover have "j \<noteq> i" if "find_row r (updatedRows info) = Some j" "r \<noteq> row" for r j
    using find_row_Some [OF that(1)] that i by metis
  ultimately have "node_value (write_row row val info) r = ((node_value info)(row \<mapsto> val)) r" for r
    using Some by (cases "find_row r (updatedRows info)")
      (auto simp: node_value_def rows dat nth_list_update)
  moreover have "node_ok cap (write_row row val info)"
    using ok rows by (simp add: node_ok_def dat) (simp add: Some write_row_def)
  ultimately show ?thesis using i rows by (auto simp: fun_eq_iff)
qed

section \<open>Updating\<close>

definition update_conflict :: "transaction_t \<Rightarrow> transaction_t \<Rightarrow> nat \<Rightarrow> 'v UpdateNode \<Rightarrow> bool" where
  "update_conflict ts tid row chain \<longleftrightarrow>
     list_ex (\<lambda>info. version info \<noteq> tid \<and> ts < version info \<and> row \<in> set (updatedRows info)) chain"

lemma find_own_node_conflict:
  "update_conflict ts tid row chain \<Longrightarrow>
     find_own_node ts tid row pos found chain = Inl ww_update_conflict"
  by (induction chain arbitrary: pos found) (auto simp: update_conflict_def)

lemma find_own_node_none:
  "\<not> update_conflict ts tid row chain \<Longrightarrow> tid \<notin> version ` set chain \<Longrightarrow>
     find_own_node ts tid row pos found chain = Inr found"
  by (induction chain arbitrary: pos found) (auto simp: update_conflict_def)

lemma find_own_node_own:
  "\<not> update_conflict ts tid row (xs @ own # ys) \<Longrightarrow> version own = tid \<Longrightarrow>
     tid \<notin> version ` set xs \<Longrightarrow> tid \<notin> version ` set ys \<Longrightarrow>
     find_own_node ts tid row pos found (xs @ own # ys) = Inr (Some (pos + length xs))"
proof (induction xs arbitrary: pos found)
  case Nil
  then show ?case using find_own_node_none [of ts tid row ys]
    by (simp add: update_conflict_def)
next
  case (Cons x xs)
  then show ?case by (auto simp: update_conflict_def)
qed

text \<open>The chain after an update that found no conflict.\<close>

definition update_chain ::
    "nat \<Rightarrow> nat \<Rightarrow> transaction_t \<Rightarrow> nat \<Rightarrow> 'v \<Rightarrow> 'v UpdateNode \<Rightarrow> 'v UpdateNode \<Rightarrow> bool" where
  "update_chain cap addr tid row val chain chain' \<longleftrightarrow>
     (\<exists>xs own ys. chain = xs @ own # ys \<and> version own = tid \<and>
        chain' = xs @ write_row row val own # ys) \<or>
     tid \<notin> version ` set chain \<and>
       chain' = write_row row val (VectorUpdateInfo_new cap addr tid) # chain"

lemma own_unique:
  assumes "sorted_wrt (pair_ok st) (xs @ own # ys)" "START_TRANSACTION_ID \<le> version own"
  shows "version own \<notin> version ` set xs" "version own \<notin> version ` set ys"
  using assms by (auto simp: sorted_wrt_append pair_ok_def)

lemma chain_of_getOrCreate [simp]:
  "chain_of j (getOrCreateUpdateNode idx ui) = chain_of j ui"
  by (auto simp: chain_of_def getOrCreateUpdateNode_def nth_append)

lemma getOrCreate_nth:
  "idx < length (updates (getOrCreateUpdateNode idx ui))"
  "updates (getOrCreateUpdateNode idx ui) ! idx = chain_of idx ui"
  by (auto simp: chain_of_def getOrCreateUpdateNode_def nth_append)

lemma ui_inv_chain: "ui_inv cap st ui \<Longrightarrow> chain_inv cap st (chain_of idx ui)"
  by (auto simp: ui_inv_def chain_of_def list_all_length chain_inv_def)

lemma ui_inv_getOrCreate: "ui_inv cap st ui \<Longrightarrow> ui_inv cap st (getOrCreateUpdateNode idx ui)"
  by (auto simp: ui_inv_def getOrCreateUpdateNode_def list_all_iff chain_inv_def)

lemma chain_of_update:
  "idx < length (updates ui) \<Longrightarrow>
     chain_of j (ui\<lparr>updates := (updates ui)[idx := chain]\<rparr>) = (if j = idx then chain else chain_of j ui)"
  by (auto simp: chain_of_def)

lemma ui_inv_update:
  "ui_inv cap st ui \<Longrightarrow> chain_inv cap st chain \<Longrightarrow>
     ui_inv cap st (ui\<lparr>updates := (updates ui)[idx := chain]\<rparr>)"
  by (auto simp: ui_inv_def list_all_iff dest: set_update_subset_insert [THEN subsetD])

lemma update_cases:
  assumes inv: "ui_inv cap st ui" and tid: "START_TRANSACTION_ID \<le> tid"
    and res: "UpdateInfo_update cap addr ts tid idx row val ui = (r, ui')"
  shows "if update_conflict ts tid row (chain_of idx ui)
    then r = Inl ww_update_conflict \<and> ui' = getOrCreateUpdateNode idx ui
    else \<exists>chain'. update_chain cap addr tid row val (chain_of idx ui) chain' \<and>
      ui' = (getOrCreateUpdateNode idx ui)\<lparr>updates :=
        (updates (getOrCreateUpdateNode idx ui))[idx := chain']\<rparr> \<and> (\<exists>a. r = Inr a)"
proof (cases "update_conflict ts tid row (chain_of idx ui)")
  case True
  then show ?thesis using res find_own_node_conflict [OF True]
    by (auto simp: UpdateInfo_update_def getOrCreate_nth)
next
  case no: False
  show ?thesis
  proof (cases "tid \<in> version ` set (chain_of idx ui)")
    case False
    then have "update_chain cap addr tid row val (chain_of idx ui)
        (write_row row val (VectorUpdateInfo_new cap addr tid) # chain_of idx ui)"
      by (simp add: update_chain_def)
    moreover have "r = Inr addr" "ui' = (getOrCreateUpdateNode idx ui)\<lparr>updates :=
        (updates (getOrCreateUpdateNode idx ui))[idx :=
           write_row row val (VectorUpdateInfo_new cap addr tid) # chain_of idx ui]\<rparr>"
      using res find_own_node_none [OF no False]
      by (auto simp: UpdateInfo_update_def getOrCreate_nth Let_def VectorUpdateInfo_new_def)
    ultimately show ?thesis using no by auto
  next
    case True
    then obtain xs own ys where c: "chain_of idx ui = xs @ own # ys" "version own = tid"
      by (metis image_iff in_set_conv_decomp)
    have s: "sorted_wrt (pair_ok st) (xs @ own # ys)"
      using ui_inv_chain [OF inv, of idx] c by (simp add: chain_inv_def)
    have f: "find_own_node ts tid row 0 None (chain_of idx ui) = Inr (Some (length xs))"
      using find_own_node_own [of ts tid row xs own ys 0 None] own_unique [OF s] no c tid by simp
    have "update_chain cap addr tid row val (chain_of idx ui) (xs @ write_row row val own # ys)"
      using c by (auto simp: update_chain_def)
    moreover have "r = Inr (infoAddr own)" "ui' = (getOrCreateUpdateNode idx ui)\<lparr>updates :=
        (updates (getOrCreateUpdateNode idx ui))[idx := xs @ write_row row val own # ys]\<rparr>"
      using res f by (auto simp: UpdateInfo_update_def getOrCreate_nth Let_def c(1))
    ultimately show ?thesis using no by auto
  qed
qed

lemma update_chain_inv:
  assumes inv: "chain_inv cap st chain" and upd: "update_chain cap addr tid row val chain chain'"
    and no: "\<not> update_conflict (st tid) tid row chain" and row: "row < cap"
    and tid: "START_TRANSACTION_ID \<le> tid" "st tid < START_TRANSACTION_ID"
    and fresh: "addr \<notin> infoAddr ` set chain"
    and started: "\<And>t. st t < START_TRANSACTION_ID"
  shows "chain_inv cap st chain'"
  using upd unfolding update_chain_def
proof (elim disjE exE conjE)
  fix xs own ys
  assume c: "chain = xs @ own # ys" "version own = tid" "chain' = xs @ write_row row val own # ys"
  have nok: "node_ok cap own" using inv c by (simp add: chain_inv_def)
  note w = write_row_ok [OF nok row, of val]
  have "pair_ok st x (write_row row val own)" if "x \<in> set xs" for x
  proof -
    have p: "pair_ok st x own" using inv c that by (simp add: chain_inv_def sorted_wrt_append)
    then have "version x \<noteq> tid" "st tid < version x" using c tid by (auto simp: pair_ok_def)
    then have "row \<notin> set (updatedRows x)" using no c that by (auto simp: update_conflict_def list_ex_iff)
    with p w show ?thesis by (auto simp: pair_ok_def list_all_iff)
  qed
  moreover have "pair_ok st (write_row row val own) y" if "y \<in> set ys" for y
  proof -
    have p: "pair_ok st own y" using inv c that by (simp add: chain_inv_def sorted_wrt_append)
    have "version y \<noteq> tid" using p c tid by (auto simp: pair_ok_def)
    then have "row \<in> set (updatedRows y) \<Longrightarrow> version y \<le> st tid"
      using no c that by (auto simp: update_conflict_def list_ex_iff not_less)
    then have "row \<in> set (updatedRows y) \<Longrightarrow> version y < START_TRANSACTION_ID \<and> version y < tid"
      using tid by (meson order.strict_trans1 order.strict_trans2)
    with p w c show ?thesis by (auto simp: pair_ok_def list_all_iff)
  qed
  ultimately show ?thesis using inv c w by (simp add: chain_inv_def sorted_wrt_append)
next
  assume c: "tid \<notin> version ` set chain"
    "chain' = write_row row val (VectorUpdateInfo_new cap addr tid) # chain"
  let ?new = "VectorUpdateInfo_new cap addr tid :: 'a VectorUpdateInfo"
  note w = write_row_ok [OF node_ok_new [of cap addr tid] row, of val]
  have rows: "set (updatedRows (write_row row val ?new)) = {row}"
    using w by (simp add: VectorUpdateInfo_new_def updatedRows_def)
  have new: "version ?new = tid" "infoAddr ?new = addr" by (simp_all add: VectorUpdateInfo_new_def)
  have "pair_ok st (write_row row val ?new) y" if y: "y \<in> set chain" for y
  proof -
    have "version y \<noteq> tid" "infoAddr y \<noteq> addr" using c fresh y by auto
    moreover have "row \<in> set (updatedRows y) \<Longrightarrow> version y \<le> st tid"
      using no y \<open>version y \<noteq> tid\<close> by (auto simp: update_conflict_def list_ex_iff not_less)
    then have "row \<in> set (updatedRows y) \<Longrightarrow> version y < START_TRANSACTION_ID \<and> version y < tid"
      using tid by (meson order.strict_trans1 order.strict_trans2)
    moreover have "st (version y) < tid" using started [of "version y"] tid(1) by simp
    ultimately show ?thesis using new rows by (auto simp: pair_ok_def list_all_iff)
  qed
  then show ?thesis using inv c w by (simp add: chain_inv_def)
qed

lemma update_chain_others:
  assumes upd: "update_chain cap addr tid row val chain chain'"
    and snap: "snapshot_ok ts i" "i \<noteq> tid" "START_TRANSACTION_ID \<le> tid"
  shows "visible_nodes ts i chain' = visible_nodes ts i chain"
proof -
  have "\<not> visible ts i tid" using visible_other_uncommitted [OF snap(1,3)] snap(2) by simp
  then show ?thesis using upd by (auto simp: update_chain_def VectorUpdateInfo_new_def)
qed

lemma update_chain_own:
  assumes inv: "chain_inv cap st chain" and upd: "update_chain cap addr tid row val chain chain'"
    and row: "row < cap" and tid: "START_TRANSACTION_ID \<le> tid"
  shows "first_value (visible_nodes (st tid) tid chain') =
    (first_value (visible_nodes (st tid) tid chain))(row \<mapsto> val)"
  using upd unfolding update_chain_def
proof (elim disjE exE conjE)
  fix xs own ys
  assume c: "chain = xs @ own # ys" "version own = tid" "chain' = xs @ write_row row val own # ys"
  have nok: "node_ok cap own" using inv c by (simp add: chain_inv_def)
  have "\<not> visible (st tid) tid (version x)" if "x \<in> set xs" for x
    using inv c that tid by (auto simp: chain_inv_def sorted_wrt_append pair_ok_def visible_def)
  then have "visible_nodes (st tid) tid xs = []" by simp
  then show ?thesis
    using c write_row_ok [OF nok row, of val]
    by (auto simp: first_value_Cons fun_eq_iff simp del: first_value.simps)
next
  assume c: "tid \<notin> version ` set chain"
    "chain' = write_row row val (VectorUpdateInfo_new cap addr tid) # chain"
  have "node_value (VectorUpdateInfo_new cap addr tid) = (Map.empty :: nat \<rightharpoonup> 'a)"
    by (simp add: node_value_def VectorUpdateInfo_new_def updatedRows_def fun_eq_iff)
  then show ?thesis
    using c write_row_ok [OF node_ok_new [of cap addr tid] row, of val]
    by (auto simp: first_value_Cons fun_eq_iff VectorUpdateInfo_new_def simp del: first_value.simps)
qed

lemma update_lookup:
  assumes inv: "ui_inv cap st ui" and cap: "0 < cap" and row: "row < cap"
    and tid: "START_TRANSACTION_ID \<le> tid" "st tid < START_TRANSACTION_ID"
    and started: "\<And>t. st t < START_TRANSACTION_ID"
    and fresh: "addr \<notin> infoAddr ` set (chain_of idx ui)"
    and no: "\<not> update_conflict (st tid) tid row (chain_of idx ui)"
    and res: "UpdateInfo_update cap addr (st tid) tid idx row val ui = (r, ui')"
  shows "ui_inv cap st ui' \<and>
    UpdateInfo_lookup cap (st tid) tid x ui' =
      (if x = idx * cap + row then Some val else UpdateInfo_lookup cap (st tid) tid x ui) \<and>
    (snapshot_ok ts i \<longrightarrow> i \<noteq> tid \<longrightarrow>
      UpdateInfo_lookup cap ts i x ui' = UpdateInfo_lookup cap ts i x ui)"
proof -
  let ?ui = "getOrCreateUpdateNode idx ui"
  obtain chain' where u: "update_chain cap addr tid row val (chain_of idx ui) chain'"
    "ui' = ?ui\<lparr>updates := (updates ?ui)[idx := chain']\<rparr>"
    using update_cases [OF inv tid(1) res] no by auto
  note ci = update_chain_inv [OF ui_inv_chain [OF inv] u(1) no row tid fresh started]
  have ch: "chain_of j ui' = (if j = idx then chain' else chain_of j ui)" for j
    unfolding u(2) by (simp only: chain_of_update [OF getOrCreate_nth(1)] chain_of_getOrCreate)
  have x: "x div cap = idx \<and> x mod cap = row \<longleftrightarrow> x = idx * cap + row"
    by (rule iffI, metis div_mult_mod_eq, use row in simp)
  have "ui_inv cap st ui'"
    unfolding u(2) by (rule ui_inv_update [OF ui_inv_getOrCreate [OF inv] ci])
  then show ?thesis
    using update_chain_own [OF ui_inv_chain [OF inv] u(1) row tid(1)]
      update_chain_others [OF u(1) _ _ tid(1), of ts i] x
    by (auto simp: lookup_eq ch)
qed

text \<open>
  C18: updating a row raises the write-write conflict exactly when another transaction's node that
  is uncommitted or was committed after this transaction started has the row, and then changes
  nothing anybody reads. Otherwise the transaction reads its own new value at that row and the
  same values as before elsewhere, no other transaction reads anything different, and the chain
  order is kept.
\<close>

theorem update_behaviour:
  assumes "ui_inv cap st ui" "row < cap" "START_TRANSACTION_ID \<le> tid"
    and "\<And>t. st t < START_TRANSACTION_ID" "addr \<notin> infoAddr ` set (chain_of idx ui)"
    and "UpdateInfo_update cap addr (st tid) tid idx row val ui = (r, ui')"
    and "snapshot_ok ts i" "i \<noteq> tid"
  shows "ui_inv cap st ui' \<and>
    UpdateInfo_lookup cap ts i x ui' = UpdateInfo_lookup cap ts i x ui \<and>
    (if update_conflict (st tid) tid row (chain_of idx ui)
     then r = Inl ww_update_conflict \<and>
       UpdateInfo_lookup cap (st tid) tid x ui' = UpdateInfo_lookup cap (st tid) tid x ui
     else UpdateInfo_lookup cap (st tid) tid x ui' =
       (if x = idx * cap + row then Some val else UpdateInfo_lookup cap (st tid) tid x ui))"
proof (cases "update_conflict (st tid) tid row (chain_of idx ui)")
  case True
  then show ?thesis using update_cases [OF assms(1,3,6)] ui_inv_getOrCreate [OF assms(1)]
    by (simp add: lookup_eq)
next
  case False
  have "0 < cap" using assms(2) by simp
  from update_lookup [OF assms(1) this assms(2,3) assms(4) assms(4,5) False assms(6)] assms(7,8) False
  show ?thesis by simp
qed

theorem update_behaviour_witness:
  "let r = UpdateInfo_update 2 1 1 (START_TRANSACTION_ID + 1) 0 0 9 update_example in
    ui_inv 2 (\<lambda>_. 1) (snd r) \<and>
    UpdateInfo_lookup 2 1 START_TRANSACTION_ID 0 (snd r) = UpdateInfo_lookup 2 1 START_TRANSACTION_ID 0 update_example \<and>
    UpdateInfo_lookup 2 1 (START_TRANSACTION_ID + 1) 0 (snd r) = Some 9"
proof -
  let ?r = "UpdateInfo_update 2 1 1 (START_TRANSACTION_ID + 1) 0 0 (9 :: nat) update_example"
  have h: "ui_inv 2 (\<lambda>_. 1) update_example" "0 < (2 :: nat)"
    "START_TRANSACTION_ID \<le> START_TRANSACTION_ID + 1" "1 < START_TRANSACTION_ID"
    "1 \<notin> infoAddr ` set (chain_of 0 update_example)" "?r = (fst ?r, snd ?r)"
    "snapshot_ok 1 START_TRANSACTION_ID" "START_TRANSACTION_ID \<noteq> START_TRANSACTION_ID + 1"
    by code_simp+
  have "\<not> update_conflict 1 (START_TRANSACTION_ID + 1) 0 (chain_of 0 update_example)" by code_simp
  with update_behaviour [OF h, of 0] show ?thesis by (simp add: Let_def)
qed

section \<open>Committing and rolling back\<close>

definition stamp_node :: "nat \<Rightarrow> transaction_t \<Rightarrow> 'v VectorUpdateInfo \<Rightarrow> 'v VectorUpdateInfo" where
  "stamp_node addr c info = (if infoAddr info = addr then info\<lparr>version := c\<rparr> else info)"

lemma stamp_node_simps [simp]:
  "infoAddr (stamp_node addr c info) = infoAddr info"
  "updatedRows (stamp_node addr c info) = updatedRows info"
  "data (stamp_node addr c info) = data info"
  "rowsInVector (stamp_node addr c info) = rowsInVector info"
  "numRowsUpdated (stamp_node addr c info) = numRowsUpdated info"
  "version (stamp_node addr c info) = (if infoAddr info = addr then c else version info)"
  by (simp_all add: stamp_node_def updatedRows_def)

lemma node_value_stamp [simp]: "node_value (stamp_node addr c info) = node_value info"
  by (simp add: node_value_def fun_eq_iff)

text \<open>Commit timestamps grow: a new one is above everything committed and every running start.\<close>

definition commit_ok ::
    "(transaction_t \<Rightarrow> transaction_t) \<Rightarrow> transaction_t \<Rightarrow> 'v UpdateNode \<Rightarrow> bool" where
  "commit_ok st c chain \<longleftrightarrow> c < START_TRANSACTION_ID \<and>
     list_all (\<lambda>info. if version info < START_TRANSACTION_ID then version info < c
                       else st (version info) < c) chain"

lemma stamp_chain_inv:
  assumes inv: "chain_inv cap st chain" and ok: "commit_ok st c chain"
    and own: "\<exists>info\<in>set chain. infoAddr info = addr \<and> START_TRANSACTION_ID \<le> version info"
  shows "chain_inv cap st (map (stamp_node addr c) chain)"
proof -
  have "pair_ok st (stamp_node addr c x) (stamp_node addr c y)"
    if "pair_ok st x y" "x \<in> set chain" "y \<in> set chain"
      "infoAddr y = addr \<Longrightarrow> START_TRANSACTION_ID \<le> version y" for x y
    using that ok by (auto simp: pair_ok_def commit_ok_def list_all_iff not_le split: if_splits)
  moreover have "START_TRANSACTION_ID \<le> version y" if "y \<in> set chain" "infoAddr y = addr" for y
  proof -
    obtain info where i: "info \<in> set chain" "infoAddr info = addr" "START_TRANSACTION_ID \<le> version info"
      using own by blast
    have "distinct (map infoAddr chain)"
      using inv unfolding chain_inv_def distinct_conv_nth sorted_wrt_iff_nth_less pair_ok_def
      by (metis length_map linorder_neqE_nat nth_map)
    then have "info = y" using i that by (metis distinct_map inj_onD)
    with i show ?thesis by simp
  qed
  ultimately have "sorted_wrt (pair_ok st) (map (stamp_node addr c) chain)"
    using inv unfolding chain_inv_def sorted_wrt_map
    by (auto intro: sorted_wrt_mono_rel [rotated])
  then show ?thesis using inv by (simp add: chain_inv_def list_all_iff node_ok_def)
qed

lemma remove_version_split:
  "remove_version t chain = chain \<and> t \<notin> version ` set chain \<or>
   (\<exists>xs own ys. chain = xs @ own # ys \<and> version own = t \<and> t \<notin> version ` set xs \<and>
      remove_version t chain = xs @ ys)"
proof (induction chain)
  case (Cons x chain)
  show ?case
  proof (cases "version x = t")
    case True
    then show ?thesis by (intro disjI2 exI [of _ "[]"]) auto
  next
    case False
    from Cons show ?thesis
    proof (elim disjE exE conjE)
      fix xs own ys
      assume "chain = xs @ own # ys" "version own = t" "t \<notin> version ` set xs"
        "remove_version t chain = xs @ ys"
      with False show ?thesis by (intro disjI2 exI [of _ "x # xs"]) auto
    qed (use False in auto)
  qed
qed auto

lemma remove_chain_inv: "chain_inv cap st chain \<Longrightarrow> chain_inv cap st (remove_version t chain)"
  using remove_version_split [of t chain] by (auto simp: chain_inv_def sorted_wrt_append)

lemma commit_chain:
  assumes "UpdateInfo_commit idx addr c ui = Inr ui'"
  shows "chain_of j ui' = (if j = idx then map (stamp_node addr c) (chain_of idx ui) else chain_of j ui)"
    "idx < length (updates ui)"
    "ui' = ui\<lparr>updates := (updates ui)[idx := map (stamp_node addr c) (chain_of idx ui)]\<rparr>"
  using assms unfolding UpdateInfo_commit_def getUpdateNode_def stamp_node_def chain_of_def
  by (auto split: if_splits)

lemma rollback_chain:
  "chain_of j (UpdateInfo_rollback idx t ui) =
     (if j = idx then remove_version t (chain_of idx ui) else chain_of j ui)"
  by (auto simp: UpdateInfo_rollback_def chain_of_def)

text \<open>
  C19: when a transaction's node commits with timestamp \<open>c\<close>, the chain order is kept, transactions
  that started before \<open>c\<close> read what they read before, and transactions that start at or after \<open>c\<close>
  read the committed value at every row of the node.
\<close>

theorem commit_update_visible:
  assumes inv: "ui_inv cap st ui" and ok: "commit_ok st c (chain_of idx ui)"
    and own: "chain_of idx ui = xs @ info # ys" "START_TRANSACTION_ID \<le> version info"
    and res: "UpdateInfo_commit idx (infoAddr info) c ui = Inr ui'"
    and snap: "snapshot_ok ts i" "i \<noteq> version info"
  shows "ui_inv cap st ui' \<and>
    (ts < c \<longrightarrow> UpdateInfo_lookup cap ts i x ui' = UpdateInfo_lookup cap ts i x ui) \<and>
    (c \<le> ts \<longrightarrow> row \<in> set (updatedRows info) \<longrightarrow>
      UpdateInfo_lookup cap ts i (idx * cap + row) ui' = node_value info row)"
proof -
  let ?s = "stamp_node (infoAddr info) c"
  have ci: "chain_inv cap st (xs @ info # ys)" using ui_inv_chain [OF inv, of idx] own by simp
  have others: "map ?s xs = xs" "map ?s ys = ys"
    using ci by (auto simp: chain_inv_def sorted_wrt_append pair_ok_def stamp_node_def intro!: map_idI)
  have c: "c < START_TRANSACTION_ID" using ok by (simp add: commit_ok_def)
  have "ui_inv cap st ui'" unfolding commit_chain(3) [OF res]
    by (rule ui_inv_update [OF inv stamp_chain_inv [OF ui_inv_chain [OF inv] ok]]) (use own in auto)
  moreover have "UpdateInfo_lookup cap ts i x ui' = UpdateInfo_lookup cap ts i x ui" if "ts < c"
  proof -
    have "\<not> visible ts i (version info)" "\<not> visible ts i c"
      using visible_other_uncommitted [OF snap(1) own(2)] visible_committed [OF snap(1) c] snap(2) that
      by auto
    then show ?thesis by (simp add: lookup_eq commit_chain(1) [OF res] own(1) others)
  qed
  moreover have "UpdateInfo_lookup cap ts i (idx * cap + row) ui' = node_value info row"
    if "c \<le> ts" "row \<in> set (updatedRows info)"
  proof -
    have "row < cap" using ci that by (simp add: chain_inv_def node_ok_def list_all_iff)
    moreover have "row \<notin> set (updatedRows y)" if "y \<in> set xs" for y
      using ci own(2) that \<open>row \<in> set (updatedRows info)\<close>
      by (auto simp: chain_inv_def sorted_wrt_append pair_ok_def list_all_iff)
    then have "first_value (visible_nodes ts i xs) row = None" by (simp add: first_value_None_iff)
    moreover have "visible ts i c" using that by (simp add: visible_def)
    moreover have "find_row row (updatedRows info) \<noteq> None"
      using \<open>row \<in> set (updatedRows info)\<close> by (simp add: find_row_None_iff)
    ultimately show ?thesis
      by (auto simp: lookup_eq commit_chain(1) [OF res] own(1) others first_value_append node_value_def)
  qed
  ultimately show ?thesis by blast
qed

theorem commit_update_visible_witness:
  "let ui' = projr (UpdateInfo_commit 0 0 5 update_example) in
    ui_inv 2 (\<lambda>_. 1) ui' \<and>
    UpdateInfo_lookup 2 1 (START_TRANSACTION_ID + 1) 1 ui' =
      UpdateInfo_lookup 2 1 (START_TRANSACTION_ID + 1) 1 update_example \<and>
    UpdateInfo_lookup 2 6 (START_TRANSACTION_ID + 1) 1 ui' =
      node_value (hd (chain_of 0 update_example)) 1"
proof -
  let ?info = "hd (chain_of 0 update_example)" and ?ui = "projr (UpdateInfo_commit 0 0 5 update_example)"
  have h: "ui_inv 2 (\<lambda>_. 1) update_example" "commit_ok (\<lambda>_. 1) 5 (chain_of 0 update_example)"
    "chain_of 0 update_example = [] @ ?info # []" "START_TRANSACTION_ID \<le> version ?info"
    "UpdateInfo_commit 0 (infoAddr ?info) 5 update_example = Inr ?ui"
    "snapshot_ok 1 (START_TRANSACTION_ID + 1)" "snapshot_ok 6 (START_TRANSACTION_ID + 1)"
    "START_TRANSACTION_ID + 1 \<noteq> version ?info" "1 \<in> set (updatedRows ?info)" by code_simp+
  show ?thesis
    using commit_update_visible [OF h(1-6,8), of 1] commit_update_visible [OF h(1-5,7,8), of 1 1] h(9)
    by (simp add: Let_def)
qed

section \<open>Update nodes as a version store\<close>

text \<open>
  A cell is a node, named by its vector and address. The undo record of an update names the vector,
  the node and the transaction.
\<close>

definition node_version :: "'v UpdateInfo \<Rightarrow> nat \<times> nat \<Rightarrow> transaction_t" where
  "node_version ui k =
     (case find (\<lambda>info. infoAddr info = snd k) (chain_of (fst k) ui) of
        None \<Rightarrow> INVALID_TRANSACTION | Some info \<Rightarrow> version info)"

definition node_owned :: "transaction_t \<Rightarrow> nat \<times> nat \<times> transaction_t \<Rightarrow> 'v UpdateInfo \<Rightarrow> bool" where
  "node_owned t r ui \<longleftrightarrow> snd (snd r) = t \<and> START_TRANSACTION_ID \<le> t \<and>
     distinct (map infoAddr (chain_of (fst r) ui)) \<and>
     (\<exists>xs info ys. chain_of (fst r) ui = xs @ info # ys \<and> infoAddr info = fst (snd r) \<and>
        version info = t \<and> t \<notin> version ` set xs)"

definition stamp_update :: "transaction_t \<Rightarrow> nat \<times> nat \<times> transaction_t \<Rightarrow> 'v UpdateInfo \<Rightarrow> 'v UpdateInfo" where
  "stamp_update c r ui =
     (case UpdateInfo_commit (fst r) (fst (snd r)) c ui of Inl _ \<Rightarrow> ui | Inr ui' \<Rightarrow> ui')"

definition undo_update :: "nat \<times> nat \<times> transaction_t \<Rightarrow> 'v UpdateInfo \<Rightarrow> 'v UpdateInfo" where
  "undo_update r ui = UpdateInfo_rollback (fst r) (snd (snd r)) ui"

lemma find_map_stamp:
  "find (\<lambda>info. infoAddr info = a) (map (stamp_node addr c) chain) =
     map_option (stamp_node addr c) (find (\<lambda>info. infoAddr info = a) chain)"
  by (induction chain) auto

lemma find_addr_None: "a \<notin> infoAddr ` set xs \<Longrightarrow> find (\<lambda>info. infoAddr info = a) xs = None"
  by (induction xs) auto

lemma find_append:
  "find P (xs @ ys) = (case find P xs of Some x \<Rightarrow> Some x | None \<Rightarrow> find P ys)"
  by (induction xs) auto

lemma find_addr: "find (\<lambda>info. infoAddr info = a) xs = Some info \<Longrightarrow> infoAddr info = a"
  by (induction xs) (auto split: if_splits)

interpretation update_store: version_store node_version "\<lambda>r. {(fst r, fst (snd r))}" node_owned
    stamp_update undo_update
proof
  fix t :: transaction_t and r :: "nat \<times> nat \<times> transaction_t" and s :: "'v UpdateInfo" and c k
  obtain idx addr t' where r: "r = (idx, addr, t')" by (cases r)
  assume own: "node_owned t r s"
  then obtain xs info ys where o: "chain_of idx s = xs @ info # ys" "infoAddr info = addr"
      "version info = t" "t \<notin> version ` set xs" "t' = t" "distinct (map infoAddr (xs @ info # ys))"
    by (auto simp: node_owned_def r)
  have "idx < length (updates s)" using o(1) by (auto simp: chain_of_def split: if_splits)
  then obtain s' where s': "UpdateInfo_commit idx addr c s = Inr s'"
    by (simp add: UpdateInfo_commit_def getUpdateNode_def)
  have nx: "addr \<notin> infoAddr ` set xs" "addr \<notin> infoAddr ` set ys" using o by auto
  have fnd: "find (\<lambda>info. infoAddr info = addr) (chain_of idx s) = Some info"
    using o nx by (simp add: find_append find_addr_None)
  then have ver: "node_version s (idx, addr) = t" using o by (simp add: node_version_def)
  have st: "node_version (stamp_update c r s) k = (if k = (idx, addr) then c else node_version s k)"
    using ver fnd by (cases k; cases "find (\<lambda>info. infoAddr info = snd k) (chain_of (fst k) s)")
      (auto simp: stamp_update_def r s' node_version_def commit_chain(1) [OF s'] find_map_stamp
        dest: find_addr)
  have rm: "remove_version t (xs @ info # ys) = xs @ ys"
    using o(3,4) by (induction xs) auto
  have un: "node_version (undo_update r s) k =
      (if k = (idx, addr) then INVALID_TRANSACTION else node_version s k)"
    using o nx by (cases k) (auto simp: undo_update_def r node_version_def rollback_chain rm
        find_append find_addr_None split: option.split)
  show "c < START_TRANSACTION_ID \<Longrightarrow> k \<in> {(fst r, fst (snd r))} \<Longrightarrow> node_version (stamp_update c r s) k = c"
    "c < START_TRANSACTION_ID \<Longrightarrow> node_version (stamp_update c r s) k = node_version s k \<or>
       node_version s k = t \<and> node_version (stamp_update c r s) k = c"
    "k \<in> {(fst r, fst (snd r))} \<Longrightarrow> node_version (undo_update r s) k = INVALID_TRANSACTION"
    "node_version (undo_update r s) k = node_version s k \<or>
       node_version s k = t \<and> node_version (undo_update r s) k = INVALID_TRANSACTION"
    using st un ver r by auto
qed

end
