(* ===== verification/Column_Chunk.thy ===== *)
theory Column_Chunk
  imports Version_Scan Update_Chain
begin

text \<open>
  A column chunk (\<^verbatim>\<open>storage/table/column_chunk.cpp\<close>, \<^verbatim>\<open>column_chunk.h\<close>): the values of one column of a
  chunked group, in a sequence of segments, with the chunk's update chains. A segment
  (\<^verbatim>\<open>ColumnChunkData\<close>) is the list of the \<^verbatim>\<open>numValues\<close> values it holds; the segments are those of
  an in-memory chunk.
\<close>

section \<open>Segments\<close>

text \<open>
  An iterator over the segments is the list of the segments from its position on; the end iterator
  is the empty list.
\<close>

fun genericFindSegment :: "'v list list \<Rightarrow> nat \<Rightarrow> 'v list list \<times> nat" where
  "genericFindSegment [] offsetInSegment = ([], 0)"
| "genericFindSegment (segment # segs) offsetInSegment =
     (if offsetInSegment < length segment then (segment # segs, offsetInSegment)
      else genericFindSegment segs (offsetInSegment - length segment))"

text \<open>
  The callback receives the segment, the offset and the length in it, and the offset in the output;
  its effect is threaded through as \<open>st\<close>.
\<close>

fun genericRangeSegmentsFromIt ::
    "'v list list \<Rightarrow> nat \<Rightarrow> nat \<Rightarrow> nat \<Rightarrow> ('v list \<Rightarrow> nat \<Rightarrow> nat \<Rightarrow> nat \<Rightarrow> 's \<Rightarrow> 's) \<Rightarrow> 's \<Rightarrow> nat \<times> 's" where
  "genericRangeSegmentsFromIt [] offsetInSegment len lengthScanned func st = (lengthScanned, st)"
| "genericRangeSegmentsFromIt (segment # segs) offsetInSegment len lengthScanned func st =
     (if lengthScanned < len then
        (let lengthInSegment = min (len - lengthScanned) (length segment - offsetInSegment)
         in genericRangeSegmentsFromIt segs 0 len (lengthScanned + lengthInSegment) func
              (func segment offsetInSegment lengthInSegment lengthScanned st))
      else (lengthScanned, st))"

definition genericRangeSegments ::
    "'v list list \<Rightarrow> nat \<Rightarrow> nat \<Rightarrow> ('v list \<Rightarrow> nat \<Rightarrow> nat \<Rightarrow> nat \<Rightarrow> 's \<Rightarrow> 's) \<Rightarrow> 's \<Rightarrow> nat \<times> 's" where
  "genericRangeSegments segs offsetInChunk len func st =
     (case genericFindSegment segs offsetInChunk of
        (segment, offsetInSegment) \<Rightarrow>
          genericRangeSegmentsFromIt segment offsetInSegment len 0 func st)"

section \<open>The chunk\<close>

record 'v ColumnChunk =
  segments :: "'v list list"
  updateInfo :: "'v UpdateInfo"

definition ColumnChunk_new :: "'v ColumnChunk" where
  "ColumnChunk_new = \<lparr>segments = [[]], updateInfo = UpdateInfo_new\<rparr>"

definition getNumValues :: "'v ColumnChunk \<Rightarrow> nat" where
  "getNumValues chunk = fold (\<lambda>segment numValues. numValues + length segment) (segments chunk) 0"

text \<open>
  \<^verbatim>\<open>segment->setNumValues(n)\<close> lowers the number of values of the segment \<^verbatim>\<open>truncate\<close> stops at, and
  \<^verbatim>\<open>data.resize\<close> drops the segments after it.
\<close>

fun truncate_segments :: "nat \<Rightarrow> nat \<Rightarrow> 'v list list \<Rightarrow> 'v list list" where
  "truncate_segments numValues seenValues [] = []"
| "truncate_segments numValues seenValues (segment # segs) =
     (if seenValues + length segment < numValues
      then segment # truncate_segments numValues (seenValues + length segment) segs
      else [take (numValues - seenValues) segment])"

definition ColumnChunk_truncate :: "nat \<Rightarrow> 'v ColumnChunk \<Rightarrow> 'v ColumnChunk" where
  "ColumnChunk_truncate numValues chunk =
     chunk\<lparr>segments := truncate_segments numValues 0 (segments chunk)\<rparr>"

definition ColumnChunk_hasUpdates :: "'v ColumnChunk \<Rightarrow> bool" where
  "ColumnChunk_hasUpdates chunk = isSet (updateInfo chunk)"

definition ColumnChunk_hasUpdatesIn ::
    "nat \<Rightarrow> 'a Transaction_scheme \<Rightarrow> nat \<Rightarrow> nat \<Rightarrow> 'v ColumnChunk \<Rightarrow> bool" where
  "ColumnChunk_hasUpdatesIn cap transaction startRow numRows chunk =
     UpdateInfo_hasUpdates cap (txnStartTS transaction) (txnID transaction) startRow numRows
       (updateInfo chunk)"

definition resetUpdateInfo :: "'v ColumnChunk \<Rightarrow> 'v ColumnChunk" where
  "resetUpdateInfo chunk = chunk\<lparr>updateInfo := UpdateInfo_reset (updateInfo chunk)\<rparr>"

definition ColumnChunk_getNumUpdatedRows :: "'a Transaction_scheme \<Rightarrow> 'v ColumnChunk \<Rightarrow> nat" where
  "ColumnChunk_getNumUpdatedRows transaction chunk =
     getNumUpdatedRows (txnStartTS transaction) (txnID transaction) (updateInfo chunk)"

text \<open>\<open>write_values out pos vs\<close> copies \<open>vs\<close> into the output vector from position \<open>pos\<close> on.\<close>

fun write_values :: "'v list \<Rightarrow> nat \<Rightarrow> 'v list \<Rightarrow> 'v list" where
  "write_values out pos [] = out"
| "write_values out pos (v # vs) = write_values (out[pos := v]) (Suc pos) vs"

definition ColumnChunk_scan ::
    "nat \<Rightarrow> 'a Transaction_scheme \<Rightarrow> nat \<Rightarrow> nat \<Rightarrow> 'v ColumnChunk \<Rightarrow> 'v list \<Rightarrow> 'v list" where
  "ColumnChunk_scan cap transaction offsetInChunk len chunk out =
     (let (_, out) = genericRangeSegments (segments chunk) offsetInChunk len
            (\<lambda>segment offsetInSegment lengthInSegment dstOffset out.
               write_values out dstOffset (take lengthInSegment (drop offsetInSegment segment))) out
      in UpdateInfo_scan cap (txnStartTS transaction) (txnID transaction) offsetInChunk len
           (updateInfo chunk) out)"

definition ColumnChunk_lookup ::
    "nat \<Rightarrow> 'a Transaction_scheme \<Rightarrow> nat \<Rightarrow> nat \<Rightarrow> 'v ColumnChunk \<Rightarrow> 'v list \<Rightarrow> 'v list" where
  "ColumnChunk_lookup cap transaction rowInChunk posInOutputVector chunk out =
     (let (_, out) = genericRangeSegments (segments chunk) rowInChunk 1
            (\<lambda>segment offsetInSegment _ _ out. out[posInOutputVector := segment ! offsetInSegment]) out
      in case UpdateInfo_lookup cap (txnStartTS transaction) (txnID transaction) rowInChunk
                (updateInfo chunk) of
           None \<Rightarrow> out
         | Some v \<Rightarrow> out[posInOutputVector := v])"

text \<open>Overwriting the value at a row of the segments.\<close>

fun write_segments :: "nat \<Rightarrow> 'v \<Rightarrow> 'v list list \<Rightarrow> 'v list list" where
  "write_segments offsetInSegment val [] = []"
| "write_segments offsetInSegment val (segment # segs) =
     (if offsetInSegment < length segment then segment[offsetInSegment := val] # segs
      else segment # write_segments (offsetInSegment - length segment) val segs)"

text \<open>
  \<^verbatim>\<open>update\<close> writes in place for the dummy transaction. Otherwise it writes a node of the update
  chain and pushes the undo record of the node: the result is the vector and the address of the
  node the record names. \<open>addr\<close> is the address the allocator hands out if a node is created.
\<close>

definition ColumnChunk_update ::
    "nat \<Rightarrow> nat \<Rightarrow> 'a Transaction_scheme \<Rightarrow> nat \<Rightarrow> 'v \<Rightarrow> 'v ColumnChunk \<Rightarrow>
     (exn + (nat \<times> nat) option) \<times> 'v ColumnChunk" where
  "ColumnChunk_update cap addr transaction offsetInChunk val chunk =
     (if txnType transaction = DUMMY
      then (Inr None, chunk\<lparr>segments := write_segments offsetInChunk val (segments chunk)\<rparr>)
      else
        (let vectorIdx = offsetInChunk div cap; rowIdxInVector = offsetInChunk mod cap;
             (res, ui) = UpdateInfo_update cap addr (txnStartTS transaction) (txnID transaction)
               vectorIdx rowIdxInVector val (updateInfo chunk)
         in (case res of Inl e \<Rightarrow> Inl e | Inr a \<Rightarrow> Inr (Some (vectorIdx, a)),
             chunk\<lparr>updateInfo := ui\<rparr>)))"

text \<open>
  Copying \<open>n\<close> values from position \<open>start\<close> of a segment; a position past the values of the segment
  reads an unspecified value, and the receiving segment grows by \<open>n\<close> all the same.
\<close>

definition read_values :: "'v list \<Rightarrow> nat \<Rightarrow> nat \<Rightarrow> 'v list" where
  "read_values segment start n = map (\<lambda>i. segment ! (start + i)) [0..<n]"

definition append_to_last :: "'v list \<Rightarrow> 'v ColumnChunk \<Rightarrow> 'v ColumnChunk" where
  "append_to_last vs chunk =
     chunk\<lparr>segments := butlast (segments chunk) @ [last (segments chunk) @ vs]\<rparr>"

definition ColumnChunk_append :: "'v list \<Rightarrow> 'v ColumnChunk \<Rightarrow> 'v ColumnChunk" where
  "ColumnChunk_append selView chunk = append_to_last selView chunk"

definition ColumnChunk_appendData :: "'v list \<Rightarrow> nat \<Rightarrow> nat \<Rightarrow> 'v ColumnChunk \<Rightarrow> 'v ColumnChunk" where
  "ColumnChunk_appendData otherData startPosInOtherChunk numValuesToAppend chunk =
     append_to_last (read_values otherData startPosInOtherChunk numValuesToAppend) chunk"

fun ColumnChunk_appendChunk ::
    "'v list list \<Rightarrow> nat \<Rightarrow> nat \<Rightarrow> 'v ColumnChunk \<Rightarrow> 'v ColumnChunk" where
  "ColumnChunk_appendChunk [] startPosInOtherChunk numValuesToAppend chunk = chunk"
| "ColumnChunk_appendChunk (otherSegment # segs) startPosInOtherChunk numValuesToAppend chunk =
     (if numValuesToAppend = 0 then chunk
      else if length otherSegment < startPosInOtherChunk
      then ColumnChunk_appendChunk segs (startPosInOtherChunk - length otherSegment)
             numValuesToAppend chunk
      else
        (let numValuesToAppendInSegment = min (length otherSegment) numValuesToAppend
         in ColumnChunk_appendChunk segs 0 (numValuesToAppend - numValuesToAppendInSegment)
              (ColumnChunk_appendData otherSegment startPosInOtherChunk numValuesToAppendInSegment
                 chunk)))"

section \<open>The values of a chunk\<close>

definition chunk_values :: "'v ColumnChunk \<Rightarrow> 'v list" where
  "chunk_values chunk = concat (segments chunk)"

lemma getNumValues_eq: "getNumValues chunk = length (chunk_values chunk)"
proof -
  have "fold (\<lambda>segment n. n + length segment) segs n = n + length (concat segs)" for segs :: "'a list list" and n
    by (induction segs arbitrary: n) simp_all
  then show ?thesis by (simp add: getNumValues_def chunk_values_def)
qed

lemma truncate_segments_values:
  "seen \<le> n \<Longrightarrow> concat (truncate_segments n seen segs) = take (n - seen) (concat segs)"
  by (induction segs arbitrary: seen) (auto simp: diff_diff_add)

lemma truncate_values [simp]:
  "chunk_values (ColumnChunk_truncate n chunk) = take n (chunk_values chunk)"
  by (simp add: ColumnChunk_truncate_def chunk_values_def truncate_segments_values)

lemma truncate_segments_nonempty:
  "segs \<noteq> [] \<Longrightarrow> truncate_segments n seen segs \<noteq> []"
  by (cases segs) auto

lemma append_to_last_values:
  "segments chunk \<noteq> [] \<Longrightarrow> chunk_values (append_to_last vs chunk) = chunk_values chunk @ vs"
  unfolding chunk_values_def append_to_last_def
  by (simp flip: concat_append append_assoc)
    (metis append_butlast_last_id concat.simps concat_append append_Nil2 append_assoc)

lemma append_to_last_nonempty [simp]: "segments (append_to_last vs chunk) \<noteq> []"
  by (simp add: append_to_last_def)

lemma find_segment_drop:
  "genericFindSegment segs off = (its, o') \<Longrightarrow> off \<le> length (concat segs) \<Longrightarrow>
    drop off (concat segs) = drop o' (concat its)"
proof (induction segs arbitrary: off)
  case (Cons segment segs)
  show ?case
  proof (cases "off < length segment")
    case False
    with Cons.prems have "genericFindSegment segs (off - length segment) = (its, o')"
      "off - length segment \<le> length (concat segs)" by auto
    from Cons.IH [OF this] False show ?thesis by simp
  qed (use Cons.prems in auto)
qed simp

lemma find_segment_bound:
  "genericFindSegment segs off = (its, o') \<Longrightarrow> its = [] \<or> o' < length (hd its)"
  by (induction segs arbitrary: off) (auto split: if_splits)

lemma length_write_values [simp]: "length (write_values out pos vs) = length out"
  by (induction vs arbitrary: out pos) simp_all

lemma nth_write_values:
  "i < length out \<Longrightarrow> write_values out pos vs ! i =
     (if pos \<le> i \<and> i < pos + length vs then vs ! (i - pos) else out ! i)"
proof (induction vs arbitrary: out pos)
  case (Cons v vs)
  then show ?case by (cases "i = pos") (auto simp: nth_Cons' nth_list_update)
qed auto

lemma write_values_append:
  "write_values out pos (xs @ ys) = write_values (write_values out pos xs) (pos + length xs) ys"
  by (induction xs arbitrary: out pos) simp_all

abbreviation copy_segment :: "'v list \<Rightarrow> nat \<Rightarrow> nat \<Rightarrow> nat \<Rightarrow> 'v list \<Rightarrow> 'v list" where
  "copy_segment \<equiv> \<lambda>segment offsetInSegment lengthInSegment dstOffset out.
     write_values out dstOffset (take lengthInSegment (drop offsetInSegment segment))"

lemma range_from_copies:
  "its = [] \<or> off \<le> length (hd its) \<Longrightarrow>
    snd (genericRangeSegmentsFromIt its off len scanned copy_segment out) =
      write_values out scanned (take (len - scanned) (drop off (concat its)))"
proof (induction its arbitrary: off scanned out)
  case (Cons segment segs)
  show ?case
  proof (cases "scanned < len")
    case True
    let ?l = "min (len - scanned) (length segment - off)"
    have "take (len - scanned) (drop off (concat (segment # segs))) =
        take ?l (drop off segment) @ take (len - (scanned + ?l)) (concat segs)"
      using Cons.prems by (cases "len - scanned \<le> length segment - off")
        (simp_all add: min_def)
    moreover have "length (take ?l (drop off segment)) = ?l" by simp
    ultimately show ?thesis
      using Cons.IH [of 0 "scanned + ?l" "write_values out scanned (take ?l (drop off segment))"] True
      by (simp add: write_values_append Let_def del: length_take length_drop)
  qed simp
qed simp

lemma range_copies:
  assumes "off + len \<le> length (concat segs)"
  shows "snd (genericRangeSegments segs off len copy_segment out) =
    write_values out 0 (take len (drop off (concat segs)))"
proof -
  obtain its o' where f: "genericFindSegment segs off = (its, o')" by (rule prod.exhaust)
  have "its = [] \<or> o' \<le> length (hd its)" using find_segment_bound [OF f] by auto
  from range_from_copies [OF this, of len 0 out] find_segment_drop [OF f] assms f show ?thesis
    by (simp add: genericRangeSegments_def)
qed

text \<open>What a transaction reads at a row of the chunk: its newest visible update, or the base value.\<close>

definition chunk_read :: "nat \<Rightarrow> 'a Transaction_scheme \<Rightarrow> 'v ColumnChunk \<Rightarrow> nat \<Rightarrow> 'v" where
  "chunk_read cap transaction chunk row =
     (case UpdateInfo_lookup cap (txnStartTS transaction) (txnID transaction) row (updateInfo chunk) of
        Some v \<Rightarrow> v | None \<Rightarrow> chunk_values chunk ! row)"

lemma scan_reads:
  assumes "0 < cap" "rows_fit (updateInfo chunk)" "len \<le> length out"
    and "off + len \<le> length (chunk_values chunk)"
  shows "length (ColumnChunk_scan cap transaction off len chunk out) = length out"
    and "k < length out \<Longrightarrow> ColumnChunk_scan cap transaction off len chunk out ! k =
      (if k < len then chunk_read cap transaction chunk (off + k) else out ! k)"
proof -
  let ?w = "write_values out 0 (take len (drop off (chunk_values chunk)))"
  have s: "ColumnChunk_scan cap transaction off len chunk out =
      UpdateInfo_scan cap (txnStartTS transaction) (txnID transaction) off len (updateInfo chunk) ?w"
    using range_copies [of off len "segments chunk" out] assms(4)
    by (simp add: ColumnChunk_scan_def chunk_values_def split_beta)
  show "length (ColumnChunk_scan cap transaction off len chunk out) = length out"
    unfolding s using UpdateInfo_scan_nth(1) [OF assms(1,2), of len ?w] assms(3) by simp
  show "ColumnChunk_scan cap transaction off len chunk out ! k =
      (if k < len then chunk_read cap transaction chunk (off + k) else out ! k)" if "k < length out"
    unfolding s using UpdateInfo_scan_nth(2) [OF assms(1,2), of len ?w k] assms(3,4) that
    by (auto simp: nth_write_values chunk_read_def split: option.split)
qed

lemma lookup_reads:
  assumes "row < length (chunk_values chunk)"
  shows "ColumnChunk_lookup cap transaction row pos chunk out =
    out[pos := chunk_read cap transaction chunk row]"
proof -
  obtain its o' where f: "genericFindSegment (segments chunk) row = (its, o')" by (rule prod.exhaust)
  note d = find_segment_drop [OF f] find_segment_bound [OF f]
  then obtain segment segs where its: "its = segment # segs"
    using assms by (cases its) (auto simp: chunk_values_def)
  have "chunk_values chunk ! row = segment ! o'"
    using d its assms by (simp add: chunk_values_def flip: hd_drop_conv_nth)
  moreover have "min 1 (length segment - o') = 1" using d(2) its by auto
  ultimately show ?thesis
    by (cases segs) (simp_all add: ColumnChunk_lookup_def genericRangeSegments_def f its chunk_read_def
        split: option.split)
qed

lemma write_segments_values:
  "row < length (concat segs) \<Longrightarrow> concat (write_segments row val segs) = (concat segs)[row := val]"
  by (induction segs arbitrary: row) (auto simp: list_update_append)

text \<open>Appending the values of another chunk.\<close>

lemma read_values_eq: "start + n \<le> length segment \<Longrightarrow> read_values segment start n = take n (drop start segment)"
  unfolding read_values_def by (rule nth_equalityI) simp_all

lemma appendChunk_nonempty:
  "segments chunk \<noteq> [] \<Longrightarrow> segments (ColumnChunk_appendChunk segs start n chunk) \<noteq> []"
  by (induction segs start n chunk rule: ColumnChunk_appendChunk.induct)
    (simp_all add: ColumnChunk_appendData_def Let_def)

lemma appendChunk_values:
  "segments chunk \<noteq> [] \<Longrightarrow> n \<le> length (concat segs) \<Longrightarrow>
    chunk_values (ColumnChunk_appendChunk segs 0 n chunk) = chunk_values chunk @ take n (concat segs)"
proof (induction segs arbitrary: n chunk)
  case (Cons segment segs)
  let ?l = "min (length segment) n"
  let ?c = "ColumnChunk_appendData segment 0 ?l chunk"
  have "chunk_values ?c = chunk_values chunk @ take ?l segment"
    using Cons.prems by (simp add: ColumnChunk_appendData_def append_to_last_values read_values_eq)
  moreover have "segments ?c \<noteq> []" by (simp add: ColumnChunk_appendData_def)
  ultimately show ?case
    using Cons.IH [of ?c "n - ?l"] Cons.prems(2) by (cases "n \<le> length segment") (auto simp: Let_def min_def)
qed simp

lemma appendChunk_single:
  "segments chunk \<noteq> [] \<Longrightarrow> start + n \<le> length segment \<Longrightarrow>
    chunk_values (ColumnChunk_appendChunk [segment] start n chunk) =
      chunk_values chunk @ take n (drop start segment)"
  by (auto simp: Let_def ColumnChunk_appendData_def append_to_last_values read_values_eq min_def)

section \<open>Properties\<close>

text \<open>
  C25: scanning a row range of a column chunk writes to each output position what a lookup of that
  row writes there, through the segments of the chunk and its update chains, and leaves the rest
  of the output alone.
\<close>

theorem chunk_scan_agrees_with_lookup:
  assumes "0 < cap" "rows_fit (updateInfo chunk)" "len \<le> length out"
    and "off + len \<le> getNumValues chunk"
  shows "length (ColumnChunk_scan cap transaction off len chunk out) = length out \<and>
    (\<forall>k < length out. ColumnChunk_scan cap transaction off len chunk out ! k =
      (if k < len then ColumnChunk_lookup cap transaction (off + k) k chunk out ! k else out ! k))"
  using scan_reads [OF assms(1-3), where off = off and transaction = transaction] assms(3,4)
  by (auto simp: lookup_reads getNumValues_eq)

definition chunk_example :: "nat ColumnChunk" where
  "chunk_example = \<lparr>segments = [[10, 11], [12]], updateInfo = update_example\<rparr>"

abbreviation example_transaction :: Transaction where
  "example_transaction \<equiv>
     \<lparr>txnType = WRITE, txnID = START_TRANSACTION_ID, txnStartTS = 1, txnCommitTS = INVALID_TRANSACTION\<rparr>"

theorem chunk_scan_agrees_with_lookup_witness:
  "ColumnChunk_scan 2 example_transaction 1 2 chunk_example [0, 0, 0 :: nat] ! 0 =
      ColumnChunk_lookup 2 example_transaction 1 0 chunk_example [0, 0, 0] ! 0 \<and>
    ColumnChunk_scan 2 example_transaction 1 2 chunk_example [0, 0, 0] ! 1 =
      ColumnChunk_lookup 2 example_transaction 2 1 chunk_example [0, 0, 0] ! 1"
proof -
  have "rows_fit (updateInfo chunk_example)" "1 + 2 \<le> getNumValues chunk_example" by code_simp+
  from chunk_scan_agrees_with_lookup [OF _ this(1) _ this(2), of 2 "[0, 0, 0]" example_transaction]
  show ?thesis by (auto simp: numeral_2_eq_2)
qed

end
