(* ===== verification/Chunked_Group.thy ===== *)
theory Chunked_Group
  imports Column_Chunk
begin

text \<open>
  A chunked node group (\<^verbatim>\<open>storage/table/chunked_node_group.cpp\<close>): the column chunks of a run of rows
  with the version information of the rows. A value of a column is an \<open>option\<close>, \<open>None\<close> for null.
\<close>

section \<open>The group\<close>

datatype ResidencyState = IN_MEMORY | ON_DISK

type_synonym column_id_t = "32 word"

definition INVALID_COLUMN_ID :: column_id_t where
  "INVALID_COLUMN_ID = 0xFFFFFFFF"

definition ROW_IDX_COLUMN_ID :: column_id_t where
  "ROW_IDX_COLUMN_ID = INVALID_COLUMN_ID - 1"

record 'v ChunkedNodeGroup =
  residencyState :: ResidencyState
  startRowIdx :: nat
  groupCapacity :: nat
  groupRows :: nat
  chunks :: "'v option ColumnChunk list"
  versionInfo :: "VersionInfo option"

text \<open>The constructor of an empty group; \<open>numColumns\<close> is the number of the column types.\<close>

definition ChunkedNodeGroup_new :: "nat \<Rightarrow> nat \<Rightarrow> nat \<Rightarrow> ResidencyState \<Rightarrow> 'v ChunkedNodeGroup" where
  "ChunkedNodeGroup_new numColumns capacity start residency =
     \<lparr>residencyState = residency, startRowIdx = start, groupCapacity = capacity, groupRows = 0,
      chunks = replicate numColumns ColumnChunk_new, versionInfo = None\<rparr>"

definition isFullOrOnDisk :: "'v ChunkedNodeGroup \<Rightarrow> bool" where
  "isFullOrOnDisk g \<longleftrightarrow> groupRows g = groupCapacity g \<or> residencyState g = ON_DISK"

definition ChunkedNodeGroup_truncate :: "nat \<Rightarrow> 'v ChunkedNodeGroup \<Rightarrow> 'v ChunkedNodeGroup" where
  "ChunkedNodeGroup_truncate numRows g =
     g\<lparr>chunks := map (ColumnChunk_truncate numRows) (chunks g), groupRows := numRows\<rparr>"

definition resetNumRowsFromChunks :: "'v ChunkedNodeGroup \<Rightarrow> 'v ChunkedNodeGroup" where
  "resetNumRowsFromChunks g =
     g\<lparr>groupRows := getNumValues (chunks g ! 0), groupCapacity := getNumValues (chunks g ! 0)\<rparr>"

definition resetVersionAndUpdateInfo :: "'v ChunkedNodeGroup \<Rightarrow> 'v ChunkedNodeGroup" where
  "resetVersionAndUpdateInfo g = g\<lparr>versionInfo := None, chunks := map resetUpdateInfo (chunks g)\<rparr>"

section \<open>Appending\<close>

text \<open>
  The columns are appended one after the other. The memory below a column may throw; \<open>fails i\<close>
  says whether appending the \<open>i\<close>-th column throws and which values it had written by then. The
  handler truncates every chunk to the rows of the group and rethrows.
\<close>

type_synonym 'v append_failure = "nat \<Rightarrow> (exn \<times> 'v option list) option"

fun append_columns ::
    "'v append_failure \<Rightarrow> nat \<Rightarrow> (nat \<times> ('v option ColumnChunk \<Rightarrow> 'v option ColumnChunk)) list \<Rightarrow>
     'v option ColumnChunk list \<Rightarrow> exn option \<times> 'v option ColumnChunk list" where
  "append_columns fails i [] cs = (None, cs)"
| "append_columns fails i ((columnID, app) # cols) cs =
     (case fails i of
        Some (e, written) \<Rightarrow> (Some e, cs[columnID := append_to_last written (cs ! columnID)])
      | None \<Rightarrow> append_columns fails (Suc i) cols (cs[columnID := app (cs ! columnID)]))"

definition handleAppendException ::
    "'v option ColumnChunk list \<Rightarrow> nat \<Rightarrow> 'v option ColumnChunk list" where
  "handleAppendException cs numRows = map (ColumnChunk_truncate numRows) cs"

definition getOrCreateVersions :: "'v ChunkedNodeGroup \<Rightarrow> VersionInfo" where
  "getOrCreateVersions g = (case versionInfo g of None \<Rightarrow> VersionInfo_new | Some vi \<Rightarrow> vi)"

definition append_rows_with ::
    "nat \<Rightarrow> 'v append_failure \<Rightarrow> bool \<Rightarrow> transaction_t \<Rightarrow> nat \<Rightarrow>
     (nat \<times> ('v option ColumnChunk \<Rightarrow> 'v option ColumnChunk)) list \<Rightarrow> 'v ChunkedNodeGroup \<Rightarrow>
     (exn + nat) \<times> 'v ChunkedNodeGroup" where
  "append_rows_with cap fails versioned transactionID numToAppend cols g =
     (case append_columns fails 0 cols (chunks g) of
        (Some e, cs) \<Rightarrow> (Inl e, g\<lparr>chunks := handleAppendException cs (groupRows g)\<rparr>)
      | (None, cs) \<Rightarrow>
          (Inr numToAppend,
           g\<lparr>chunks := cs,
             versionInfo :=
               (if versioned
                then Some (VersionInfo_append cap transactionID (groupRows g) numToAppend
                             (getOrCreateVersions g))
                else versionInfo g),
             groupRows := groupRows g + numToAppend\<rparr>))"

text \<open>
  \<open>columnVectors\<close> are the selected values of the input vectors, so that slicing the selection is
  slicing the list.
\<close>

definition ChunkedNodeGroup_appendVectors ::
    "nat \<Rightarrow> 'v append_failure \<Rightarrow> 'a Transaction_scheme \<Rightarrow> 'v option list list \<Rightarrow> nat \<Rightarrow> nat \<Rightarrow>
     'v ChunkedNodeGroup \<Rightarrow> (exn + nat) \<times> 'v ChunkedNodeGroup" where
  "ChunkedNodeGroup_appendVectors cap fails transaction columnVectors startRowInVectors
       numValuesToAppend g =
     (let numRowsToAppendInChunk = min numValuesToAppend (groupCapacity g - groupRows g)
      in append_rows_with cap fails (shouldAppendToUndoBuffer transaction) (txnID transaction)
           numRowsToAppendInChunk
           (map (\<lambda>i. (i, ColumnChunk_append
                          (take numRowsToAppendInChunk (drop startRowInVectors (columnVectors ! i)))))
              [0..<length columnVectors]) g)"

definition ChunkedNodeGroup_appendData ::
    "nat \<Rightarrow> 'v append_failure \<Rightarrow> 'a Transaction_scheme \<Rightarrow> nat list \<Rightarrow> 'v option list list \<Rightarrow> nat \<Rightarrow>
     nat \<Rightarrow> 'v ChunkedNodeGroup \<Rightarrow> (exn + nat) \<times> 'v ChunkedNodeGroup" where
  "ChunkedNodeGroup_appendData cap fails transaction columnIDs otherData offsetInOtherNodeGroup
       numRowsToAppend g =
     (let numToAppendInChunkedGroup = min numRowsToAppend (groupCapacity g - groupRows g)
      in append_rows_with cap fails (txnID transaction \<noteq> DUMMY_TRANSACTION_ID) (txnID transaction)
           numToAppendInChunkedGroup
           (map (\<lambda>i. (columnIDs ! i, ColumnChunk_appendData (otherData ! i) offsetInOtherNodeGroup
                          numToAppendInChunkedGroup))
              [0..<length columnIDs]) g)"

definition ChunkedNodeGroup_appendChunks ::
    "nat \<Rightarrow> 'v append_failure \<Rightarrow> 'a Transaction_scheme \<Rightarrow> nat list \<Rightarrow> 'v option ColumnChunk list \<Rightarrow>
     nat \<Rightarrow> nat \<Rightarrow> 'v ChunkedNodeGroup \<Rightarrow> (exn + nat) \<times> 'v ChunkedNodeGroup" where
  "ChunkedNodeGroup_appendChunks cap fails transaction columnIDs others offsetInOtherNodeGroup
       numRowsToAppend g =
     (let numToAppendInChunkedGroup = min numRowsToAppend (groupCapacity g - groupRows g)
      in append_rows_with cap fails (shouldAppendToUndoBuffer transaction) (txnID transaction)
           numToAppendInChunkedGroup
           (map (\<lambda>i. (columnIDs ! i, ColumnChunk_appendChunk (segments (others ! i))
                          offsetInOtherNodeGroup numToAppendInChunkedGroup))
              [0..<length columnIDs]) g)"

definition ChunkedNodeGroup_appendGroup ::
    "nat \<Rightarrow> 'v append_failure \<Rightarrow> 'a Transaction_scheme \<Rightarrow> nat list \<Rightarrow> 'v ChunkedNodeGroup \<Rightarrow> nat \<Rightarrow> nat \<Rightarrow>
     'v ChunkedNodeGroup \<Rightarrow> (exn + nat) \<times> 'v ChunkedNodeGroup" where
  "ChunkedNodeGroup_appendGroup cap fails transaction columnIDs otherGroup offsetInOtherNodeGroup
       numRowsToAppend g =
     ChunkedNodeGroup_appendChunks cap fails transaction columnIDs (chunks otherGroup)
       offsetInOtherNodeGroup numRowsToAppend g"

section \<open>Reading\<close>

datatype ZoneMapCheckResult = ALWAYS_SCAN | SKIP_SCAN

text \<open>
  The part of \<^verbatim>\<open>TableScanState\<close> a group works on. The column predicates and the statistics they are
  checked against enter as the function \<open>checkZoneMap\<close>.
\<close>

record ('v, 'p) TableScanState =
  columnIDs :: "column_id_t list"
  columnPredicateSets :: "'p list"
  outputVectors :: "'v option list list"
  rowIdxVector :: "nat list"
  outSelVector :: SelectionVector

fun zone_map_loop ::
    "('p \<Rightarrow> 'v option ColumnChunk \<Rightarrow> ZoneMapCheckResult) \<Rightarrow> 'v option ColumnChunk list \<Rightarrow>
     (column_id_t \<times> 'p) list \<Rightarrow> ZoneMapCheckResult" where
  "zone_map_loop checkZoneMap cs [] = ALWAYS_SCAN"
| "zone_map_loop checkZoneMap cs ((columnID, preds) # cols) =
     (if columnID = INVALID_COLUMN_ID \<or> columnID = ROW_IDX_COLUMN_ID
      then zone_map_loop checkZoneMap cs cols
      else if ColumnChunk_hasUpdates (cs ! unat columnID) then ALWAYS_SCAN
      else if checkZoneMap preds (cs ! unat columnID) = SKIP_SCAN then SKIP_SCAN
      else zone_map_loop checkZoneMap cs cols)"

definition getZoneMapResult ::
    "('p \<Rightarrow> 'v option ColumnChunk \<Rightarrow> ZoneMapCheckResult) \<Rightarrow> ('v, 'p) TableScanState \<Rightarrow>
     'v option ColumnChunk list \<Rightarrow> ZoneMapCheckResult" where
  "getZoneMapResult checkZoneMap scanState cs =
     (if columnPredicateSets scanState = [] then ALWAYS_SCAN
      else zone_map_loop checkZoneMap cs (zip (columnIDs scanState) (columnPredicateSets scanState)))"

definition setAllNull :: "'v option list \<Rightarrow> 'v option list" where
  "setAllNull out = map (\<lambda>_. None) out"

definition scan_column ::
    "nat \<Rightarrow> 'a Transaction_scheme \<Rightarrow> nat \<Rightarrow> nat \<Rightarrow> 'v ChunkedNodeGroup \<Rightarrow> nat \<Rightarrow>
     ('v, 'p) TableScanState \<Rightarrow> ('v, 'p) TableScanState" where
  "scan_column cap transaction rowIdxInGroup numRowsToScan g i state =
     (let columnID = columnIDs state ! i in
      if columnID = INVALID_COLUMN_ID
      then state\<lparr>outputVectors := (outputVectors state)[i := setAllNull (outputVectors state ! i)]\<rparr>
      else if columnID = ROW_IDX_COLUMN_ID
      then state\<lparr>rowIdxVector := fold (\<lambda>rowIdx out. out[rowIdx := rowIdx + rowIdxInGroup + startRowIdx g])
                   [0..<numRowsToScan] (rowIdxVector state)\<rparr>
      else state\<lparr>outputVectors := (outputVectors state)[i :=
                   ColumnChunk_scan cap transaction rowIdxInGroup numRowsToScan
                     (chunks g ! unat columnID) (outputVectors state ! i)]\<rparr>)"

definition ChunkedNodeGroup_scan ::
    "nat \<Rightarrow> ('p \<Rightarrow> 'v option ColumnChunk \<Rightarrow> ZoneMapCheckResult) \<Rightarrow> 'a Transaction_scheme \<Rightarrow> nat \<Rightarrow> nat \<Rightarrow>
     'v ChunkedNodeGroup \<Rightarrow> ('v, 'p) TableScanState \<Rightarrow> ('v, 'p) TableScanState" where
  "ChunkedNodeGroup_scan cap checkZoneMap transaction rowIdxInGroup numRowsToScan g scanState =
     (if getZoneMapResult checkZoneMap scanState (chunks g) = SKIP_SCAN
      then scanState\<lparr>outSelVector := setToFiltered 0 (outSelVector scanState)\<rparr>
      else
        (let sel = (case versionInfo g of
                      Some vi \<Rightarrow> getSelVectorToScan cap (txnStartTS transaction) (txnID transaction)
                                   rowIdxInGroup numRowsToScan vi (outSelVector scanState)
                    | None \<Rightarrow> setToUnfiltered numRowsToScan (outSelVector scanState));
             scanState = scanState\<lparr>outSelVector := sel\<rparr>
         in if 0 < selectedSize sel
            then fold (scan_column cap transaction rowIdxInGroup numRowsToScan g)
                   [0..<length (columnIDs scanState)] scanState
            else scanState))"

definition lookup_column ::
    "nat \<Rightarrow> 'a Transaction_scheme \<Rightarrow> nat \<Rightarrow> nat \<Rightarrow> 'v ChunkedNodeGroup \<Rightarrow> nat \<Rightarrow>
     ('v, 'p) TableScanState \<Rightarrow> ('v, 'p) TableScanState" where
  "lookup_column cap transaction rowIdxInChunk posInOutput g i state =
     (let columnID = columnIDs state ! i;
          pos = positionsArray cap (outSelVector state) ! posInOutput in
      if columnID = INVALID_COLUMN_ID
      then state\<lparr>outputVectors := (outputVectors state)[i := setAllNull (outputVectors state ! i)]\<rparr>
      else if columnID = ROW_IDX_COLUMN_ID
      then state\<lparr>rowIdxVector := (rowIdxVector state)[pos := rowIdxInChunk + startRowIdx g]\<rparr>
      else state\<lparr>outputVectors := (outputVectors state)[i :=
                   ColumnChunk_lookup cap transaction rowIdxInChunk pos
                     (chunks g ! unat columnID) (outputVectors state ! i)]\<rparr>)"

definition ChunkedNodeGroup_lookup ::
    "nat \<Rightarrow> 'a Transaction_scheme \<Rightarrow> nat \<Rightarrow> nat \<Rightarrow> 'v ChunkedNodeGroup \<Rightarrow> ('v, 'p) TableScanState \<Rightarrow>
     bool \<times> ('v, 'p) TableScanState" where
  "ChunkedNodeGroup_lookup cap transaction rowIdxInChunk posInOutput g state =
     (let hasValuesToRead =
            (case versionInfo g of
               Some vi \<Rightarrow> VersionInfo_isSelected cap (txnStartTS transaction) (txnID transaction)
                            rowIdxInChunk vi
             | None \<Rightarrow> True)
      in if \<not> hasValuesToRead then (False, state)
         else (True, fold (lookup_column cap transaction rowIdxInChunk posInOutput g)
                       [0..<length (columnIDs state)] state))"

definition ChunkedNodeGroup_hasDeletions :: "'a Transaction_scheme \<Rightarrow> 'v ChunkedNodeGroup \<Rightarrow> bool option" where
  "ChunkedNodeGroup_hasDeletions transaction g =
     (case versionInfo g of
        None \<Rightarrow> Some False
      | Some vi \<Rightarrow> VersionInfo_hasDeletionsFor (txnStartTS transaction) (txnID transaction) (vectorsInfo vi))"

definition ChunkedNodeGroup_getNumUpdatedRows :: "'a Transaction_scheme \<Rightarrow> nat \<Rightarrow> 'v ChunkedNodeGroup \<Rightarrow> nat" where
  "ChunkedNodeGroup_getNumUpdatedRows transaction columnID g =
     ColumnChunk_getNumUpdatedRows transaction (chunks g ! columnID)"

definition ChunkedNodeGroup_isDeleted ::
    "nat \<Rightarrow> 'a Transaction_scheme \<Rightarrow> nat \<Rightarrow> 'v ChunkedNodeGroup \<Rightarrow> bool" where
  "ChunkedNodeGroup_isDeleted cap transaction rowInChunk g =
     (case versionInfo g of
        None \<Rightarrow> False
      | Some vi \<Rightarrow> VersionInfo_isDeleted cap (txnStartTS transaction) (txnID transaction) rowInChunk vi)"

definition ChunkedNodeGroup_isInserted ::
    "nat \<Rightarrow> 'a Transaction_scheme \<Rightarrow> nat \<Rightarrow> 'v ChunkedNodeGroup \<Rightarrow> bool" where
  "ChunkedNodeGroup_isInserted cap transaction rowInChunk g =
     (case versionInfo g of
        None \<Rightarrow> rowInChunk < groupRows g
      | Some vi \<Rightarrow> VersionInfo_isInserted cap (txnStartTS transaction) (txnID transaction) rowInChunk vi)"

definition hasAnyUpdates ::
    "nat \<Rightarrow> 'a Transaction_scheme \<Rightarrow> nat \<Rightarrow> nat \<Rightarrow> nat \<Rightarrow> 'v ChunkedNodeGroup \<Rightarrow> bool" where
  "hasAnyUpdates cap transaction columnID startRow numRowsToCheck g =
     ColumnChunk_hasUpdatesIn cap transaction startRow numRowsToCheck (chunks g ! columnID)"

definition ChunkedNodeGroup_getNumDeletions ::
    "nat \<Rightarrow> 'a Transaction_scheme \<Rightarrow> nat \<Rightarrow> nat \<Rightarrow> 'v ChunkedNodeGroup \<Rightarrow> nat" where
  "ChunkedNodeGroup_getNumDeletions cap transaction startRow numRowsToCheck g =
     (case versionInfo g of
        Some vi \<Rightarrow> VersionInfo_getNumDeletions cap (txnStartTS transaction) (txnID transaction) startRow
                     numRowsToCheck vi
      | None \<Rightarrow> 0)"

definition ChunkedNodeGroup_hasUpdates :: "'v ChunkedNodeGroup \<Rightarrow> bool" where
  "ChunkedNodeGroup_hasUpdates g = list_ex ColumnChunk_hasUpdates (chunks g)"

section \<open>Updating, deleting, committing and rolling back\<close>

definition ChunkedNodeGroup_update ::
    "nat \<Rightarrow> nat \<Rightarrow> 'a Transaction_scheme \<Rightarrow> nat \<Rightarrow> nat \<Rightarrow> 'v option \<Rightarrow> 'v ChunkedNodeGroup \<Rightarrow>
     (exn + (nat \<times> nat) option) \<times> 'v ChunkedNodeGroup" where
  "ChunkedNodeGroup_update cap addr transaction rowIdxInChunk columnID val g =
     (let (res, c) = ColumnChunk_update cap addr transaction rowIdxInChunk val (chunks g ! columnID)
      in (res, g\<lparr>chunks := (chunks g)[columnID := c]\<rparr>))"

definition ChunkedNodeGroup_delete ::
    "nat \<Rightarrow> 'a Transaction_scheme \<Rightarrow> nat \<Rightarrow> 'v ChunkedNodeGroup \<Rightarrow> (exn + bool) \<times> 'v ChunkedNodeGroup" where
  "ChunkedNodeGroup_delete cap transaction rowIdxInChunk g =
     (let (res, vi) = VersionInfo_delete cap (txnID transaction) rowIdxInChunk (getOrCreateVersions g)
      in (res, g\<lparr>versionInfo := Some vi\<rparr>))"

text \<open>\<^verbatim>\<open>version_record_handler_op_t\<close>: the four operations an undo record applies to a group.\<close>

type_synonym 'v version_op = "nat \<Rightarrow> nat \<Rightarrow> transaction_t \<Rightarrow> 'v ChunkedNodeGroup \<Rightarrow> 'v ChunkedNodeGroup"

definition ChunkedNodeGroup_commitInsert :: "nat \<Rightarrow> 'v version_op" where
  "ChunkedNodeGroup_commitInsert cap startRow numRowsToCommit ts g =
     g\<lparr>versionInfo := Some (VersionInfo_commitInsert cap startRow numRowsToCommit ts (the (versionInfo g)))\<rparr>"

definition ChunkedNodeGroup_rollbackInsert :: "nat \<Rightarrow> 'v version_op" where
  "ChunkedNodeGroup_rollbackInsert cap startRow numRows ts g =
     (if startRow = 0 then (ChunkedNodeGroup_truncate 0 g)\<lparr>versionInfo := None\<rparr>
      else if groupRows g \<le> startRow then g
      else g\<lparr>versionInfo := Some (VersionInfo_rollbackInsert cap startRow numRows (the (versionInfo g))),
             groupRows := startRow\<rparr>)"

definition ChunkedNodeGroup_commitDelete :: "nat \<Rightarrow> 'v version_op" where
  "ChunkedNodeGroup_commitDelete cap startRow numRows ts g =
     g\<lparr>versionInfo := Some (VersionInfo_commitDelete cap startRow numRows ts (the (versionInfo g)))\<rparr>"

definition ChunkedNodeGroup_rollbackDelete :: "nat \<Rightarrow> 'v version_op" where
  "ChunkedNodeGroup_rollbackDelete cap startRow numRows ts g =
     g\<lparr>versionInfo := Some (VersionInfo_rollbackDelete cap startRow numRows (the (versionInfo g)))\<rparr>"

section \<open>The versions of the rows of a group\<close>

definition group_ins :: "nat \<Rightarrow> 'v ChunkedNodeGroup \<Rightarrow> nat \<Rightarrow> transaction_t" where
  "group_ins cap g row =
     (if row < groupRows g
      then (case versionInfo g of None \<Rightarrow> 0 | Some vi \<Rightarrow> row_ins cap vi row)
      else INVALID_TRANSACTION)"

definition group_del :: "nat \<Rightarrow> 'v ChunkedNodeGroup \<Rightarrow> nat \<Rightarrow> transaction_t" where
  "group_del cap g row =
     (if row < groupRows g
      then (case versionInfo g of None \<Rightarrow> INVALID_TRANSACTION | Some vi \<Rightarrow> row_del cap vi row)
      else INVALID_TRANSACTION)"

definition group_inv :: "nat \<Rightarrow> 'v ChunkedNodeGroup \<Rightarrow> bool" where
  "group_inv cap g \<longleftrightarrow> 0 < cap \<and> vi_inv cap (getOrCreateVersions g)"

lemma row_ins_new [simp]: "row_ins cap VersionInfo_new row = 0"
  by (simp add: row_ins_def getVectorVersionInfo_def VersionInfo_new_def opt_nth_def)

lemma row_del_new [simp]: "row_del cap VersionInfo_new row = INVALID_TRANSACTION"
  by (simp add: row_del_def getVectorVersionInfo_def VersionInfo_new_def opt_nth_def)

lemma group_ins_eq:
  "group_ins cap g row =
     (if row < groupRows g then row_ins cap (getOrCreateVersions g) row else INVALID_TRANSACTION)"
  by (simp add: group_ins_def getOrCreateVersions_def split: option.split)

lemma group_del_eq:
  "group_del cap g row =
     (if row < groupRows g then row_del cap (getOrCreateVersions g) row else INVALID_TRANSACTION)"
  by (simp add: group_del_def getOrCreateVersions_def split: option.split)

lemma getOrCreateVersions_simps [simp]:
  "getOrCreateVersions (g\<lparr>versionInfo := Some vi\<rparr>) = vi"
  "getOrCreateVersions (g\<lparr>versionInfo := None\<rparr>) = VersionInfo_new"
  "getOrCreateVersions (g\<lparr>chunks := cs\<rparr>) = getOrCreateVersions g"
  "getOrCreateVersions (g\<lparr>groupRows := n\<rparr>) = getOrCreateVersions g"
  by (simp_all add: getOrCreateVersions_def)

lemma isInserted_group:
  assumes "snapshot_ok (txnStartTS transaction) (txnID transaction)" "row < groupRows g"
  shows "ChunkedNodeGroup_isInserted cap transaction row g =
    visible (txnStartTS transaction) (txnID transaction) (group_ins cap g row)"
  using assms by (simp add: ChunkedNodeGroup_isInserted_def group_ins_def row_isInserted_visible
      split: option.split)

lemma isDeleted_group:
  assumes "snapshot_ok (txnStartTS transaction) (txnID transaction)" "row < groupRows g"
  shows "ChunkedNodeGroup_isDeleted cap transaction row g =
    visible (txnStartTS transaction) (txnID transaction) (group_del cap g row)"
  using assms by (simp add: ChunkedNodeGroup_isDeleted_def group_del_def row_isDeleted_visible
      split: option.split)

text \<open>A transaction's insertion record over a group, and its deletion record.\<close>

definition group_ins_in :: "nat \<Rightarrow> transaction_t set \<Rightarrow> nat \<times> nat \<Rightarrow> 'v ChunkedNodeGroup \<Rightarrow> bool" where
  "group_ins_in cap T r g \<longleftrightarrow> group_inv cap g \<and> live T \<and> 0 < snd r \<and>
     (\<forall>row\<in>rows_of r. group_ins cap g row \<in> T)"

definition group_del_in :: "nat \<Rightarrow> transaction_t set \<Rightarrow> nat \<times> nat \<Rightarrow> 'v ChunkedNodeGroup \<Rightarrow> bool" where
  "group_del_in cap T r g \<longleftrightarrow> group_inv cap g \<and> live T \<and> 0 < snd r \<and>
     (\<forall>row\<in>rows_of r. group_del cap g row \<in> T)"

lemma group_ins_inD:
  assumes "group_ins_in cap T (s, n) g"
  obtains vi where "versionInfo g = Some vi" "ins_in cap T (s, n) vi" "s + n \<le> groupRows g"
proof -
  have own: "group_ins cap g row \<in> T" if "s \<le> row" "row < s + n" for row
    using assms that by (auto simp: group_ins_in_def)
  have t: "live T" "0 < n" "group_inv cap g" "INVALID_TRANSACTION \<notin> T" "0 \<notin> T"
    using assms by (simp_all add: group_ins_in_def live_def)
  have lt: "row < groupRows g" if "s \<le> row" "row < s + n" for row
    using own [OF that] t(4) unfolding group_ins_def by metis
  have "s \<le> s + n - 1" "s + n - 1 < s + n" using t(2) by simp_all
  from lt [OF this] have le: "s + n \<le> groupRows g" by linarith
  obtain vi where vi: "versionInfo g = Some vi"
    using own [of s] lt [of s] t(2,4,5) by (cases "versionInfo g") (simp_all add: group_ins_def)
  moreover have "ins_in cap T (s, n) vi"
    using own lt t vi by (auto simp: ins_in_def group_inv_def group_ins_def getOrCreateVersions_def)
  ultimately show ?thesis using that le by blast
qed

lemma group_del_inD:
  assumes "group_del_in cap T (s, n) g"
  obtains vi where "versionInfo g = Some vi" "del_in cap T (s, n) vi" "s + n \<le> groupRows g"
proof -
  have own: "group_del cap g row \<in> T" if "s \<le> row" "row < s + n" for row
    using assms that by (auto simp: group_del_in_def)
  have t: "live T" "0 < n" "group_inv cap g" "INVALID_TRANSACTION \<notin> T" "0 \<notin> T"
    using assms by (simp_all add: group_del_in_def live_def)
  have lt: "row < groupRows g" if "s \<le> row" "row < s + n" for row
    using own [OF that] t(4) unfolding group_del_def by metis
  have "s \<le> s + n - 1" "s + n - 1 < s + n" using t(2) by simp_all
  from lt [OF this] have le: "s + n \<le> groupRows g" by linarith
  obtain vi where vi: "versionInfo g = Some vi"
    using own [of s] lt [of s] t(2,4,5) by (cases "versionInfo g") (simp_all add: group_del_def)
  moreover have "del_in cap T (s, n) vi"
    using own lt t vi by (auto simp: del_in_def group_inv_def group_del_def getOrCreateVersions_def)
  ultimately show ?thesis using that le by blast
qed

lemma commitInsert_group:
  assumes own: "group_ins_in cap T (s, n) g" and c: "c < START_TRANSACTION_ID"
    and g': "g' = ChunkedNodeGroup_commitInsert cap s n c g"
  shows "groupRows g' = groupRows g" "group_del cap g' = group_del cap g" "group_inv cap g'"
    "row \<in> rows_of (s, n) \<Longrightarrow> group_ins cap g' row = c"
    "group_ins cap g' row = group_ins cap g row \<or> group_ins cap g row \<in> T \<and> group_ins cap g' row = c"
proof -
  obtain vi where vi: "versionInfo g = Some vi" "ins_in cap T (s, n) vi" "s + n \<le> groupRows g"
    using own by (rule group_ins_inD)
  note rows = commitInsert_rows [OF vi(2) c refl]
  show "group_inv cap g'"
    using own vi_inv_commitInsert [OF vi(2) c] vi(1)
    by (simp add: g' ChunkedNodeGroup_commitInsert_def group_inv_def group_ins_in_def)
  show "groupRows g' = groupRows g" by (simp add: g' ChunkedNodeGroup_commitInsert_def)
  show "group_del cap g' = group_del cap g"
    using rows by (auto simp: fun_eq_iff g' ChunkedNodeGroup_commitInsert_def group_del_def vi(1))
  show "row \<in> rows_of (s, n) \<Longrightarrow> group_ins cap g' row = c"
    using rows [of row] vi(3) by (auto simp: g' ChunkedNodeGroup_commitInsert_def group_ins_def vi(1))
  show "group_ins cap g' row = group_ins cap g row \<or> group_ins cap g row \<in> T \<and> group_ins cap g' row = c"
    using rows [of row] by (auto simp: g' ChunkedNodeGroup_commitInsert_def group_ins_def vi(1))
qed

text \<open>The records of a deletion touch no insertion: the vectors of the deleted rows exist.\<close>

lemma del_record_ins:
  assumes own: "del_in cap T (startRow, numRows) vi"
    and f: "\<And>s n v. vvi_inv cap v \<Longrightarrow> s + n \<le> cap \<Longrightarrow> 0 < n \<Longrightarrow>
      (\<And>i. s \<le> i \<Longrightarrow> i < s + n \<Longrightarrow> del_version v i \<in> T) \<Longrightarrow> ins_version (f s n v) = ins_version v"
  shows "row_ins cap (for_vectors cap startRow numRows f vi) row = row_ins cap vi row"
proof -
  have cap: "0 < cap" and inv: "vi_inv cap vi" and t: "INVALID_TRANSACTION \<notin> T"
    using own by (auto simp: del_in_def live_def)
  from cap show ?thesis
  proof (cases rule: for_vectors_row [where r = row and startRow = startRow and numRows = numRows
        and f = f and vi = vi])
    case (inside s n)
    note del = del_in_vector [OF own inside(2) _ _ inside(4)]
    have "del_version (vector_or_new (row div cap) vi) s \<in> T" using del [of s] inside(1) by simp
    then obtain v where "getVectorVersionInfo (row div cap) vi = Some v"
      using t by (cases "getVectorVersionInfo (row div cap) vi")
        (auto simp: vector_or_new_def VectorVersionInfo_new_def del_version_def)
    with f [OF vi_invD [OF inv] inside(2,1) del] inside(3) show ?thesis
      by (simp add: row_ins_def vector_or_new_def)
  qed (simp add: row_ins_def)
qed

lemma commitDelete_group:
  assumes own: "group_del_in cap T (s, n) g" and c: "c < START_TRANSACTION_ID"
    and g': "g' = ChunkedNodeGroup_commitDelete cap s n c g"
  shows "groupRows g' = groupRows g" "group_ins cap g' = group_ins cap g" "group_inv cap g'"
    "row \<in> rows_of (s, n) \<Longrightarrow> group_del cap g' row = c"
    "group_del cap g' row = group_del cap g row \<or> group_del cap g row \<in> T \<and> group_del cap g' row = c"
proof -
  obtain vi where vi: "versionInfo g = Some vi" "del_in cap T (s, n) vi" "s + n \<le> groupRows g"
    using own by (rule group_del_inD)
  note rows = commitDelete_rows [OF vi(2) c refl]
  show "groupRows g' = groupRows g" by (simp add: g' ChunkedNodeGroup_commitDelete_def)
  have t: "INVALID_TRANSACTION \<notin> T" "c \<noteq> INVALID_TRANSACTION"
    using own c by (auto simp: group_del_in_def live_def)
  have "row_ins cap (VersionInfo_commitDelete cap s n c vi) r = row_ins cap vi r" for r
    unfolding VersionInfo_commitDelete_def using setDeleteCommitTS_versions [OF _ _ _ _ t]
    by (intro del_record_ins [OF vi(2)]) blast
  then show "group_ins cap g' = group_ins cap g"
    by (simp add: fun_eq_iff g' ChunkedNodeGroup_commitDelete_def group_ins_def vi(1))
  have "vi_inv cap (VersionInfo_commitDelete cap s n c vi)"
    unfolding VersionInfo_commitDelete_def using setDeleteCommitTS_versions [OF _ _ _ _ t]
    by (intro vi_inv_del_record [OF vi(2)]) blast
  then show "group_inv cap g'"
    using own by (simp add: g' ChunkedNodeGroup_commitDelete_def group_inv_def group_del_in_def vi(1))
  show "row \<in> rows_of (s, n) \<Longrightarrow> group_del cap g' row = c"
    using rows [of row] vi(3) by (auto simp: g' ChunkedNodeGroup_commitDelete_def group_del_def vi(1))
  show "group_del cap g' row = group_del cap g row \<or> group_del cap g row \<in> T \<and> group_del cap g' row = c"
    using rows [of row] by (auto simp: g' ChunkedNodeGroup_commitDelete_def group_del_def vi(1))
qed

lemma rollbackDelete_group:
  assumes own: "group_del_in cap T (s, n) g"
    and g': "g' = ChunkedNodeGroup_rollbackDelete cap s n c g"
  shows "groupRows g' = groupRows g" "group_ins cap g' = group_ins cap g" "group_inv cap g'"
    "row \<in> rows_of (s, n) \<Longrightarrow> group_del cap g' row = INVALID_TRANSACTION"
    "group_del cap g' row = group_del cap g row \<or>
     group_del cap g row \<in> T \<and> group_del cap g' row = INVALID_TRANSACTION"
proof -
  obtain vi where vi: "versionInfo g = Some vi" "del_in cap T (s, n) vi" "s + n \<le> groupRows g"
    using own by (rule group_del_inD)
  note rows = rollbackDelete_rows [OF vi(2) refl]
  show "groupRows g' = groupRows g" by (simp add: g' ChunkedNodeGroup_rollbackDelete_def)
  have t: "INVALID_TRANSACTION \<notin> T" using own by (auto simp: group_del_in_def live_def)
  have "row_ins cap (VersionInfo_rollbackDelete cap s n vi) r = row_ins cap vi r" for r
    unfolding VersionInfo_rollbackDelete_def using rollbackDeletions_versions [OF _ _ _ _ t]
    by (intro del_record_ins [OF vi(2)]) blast
  then show "group_ins cap g' = group_ins cap g"
    by (simp add: fun_eq_iff g' ChunkedNodeGroup_rollbackDelete_def group_ins_def vi(1))
  have "vi_inv cap (VersionInfo_rollbackDelete cap s n vi)"
    unfolding VersionInfo_rollbackDelete_def using rollbackDeletions_versions [OF _ _ _ _ t]
    by (intro vi_inv_del_record [OF vi(2)]) blast
  then show "group_inv cap g'"
    using own by (simp add: g' ChunkedNodeGroup_rollbackDelete_def group_inv_def group_del_in_def vi(1))
  show "row \<in> rows_of (s, n) \<Longrightarrow> group_del cap g' row = INVALID_TRANSACTION"
    using rows [of row] vi(3) by (auto simp: g' ChunkedNodeGroup_rollbackDelete_def group_del_def vi(1))
  show "group_del cap g' row = group_del cap g row \<or>
     group_del cap g row \<in> T \<and> group_del cap g' row = INVALID_TRANSACTION"
    using rows [of row] by (auto simp: g' ChunkedNodeGroup_rollbackDelete_def group_del_def vi(1))
qed

text \<open>Rolling back an insertion drops every row from its start on.\<close>

lemma rollbackInsert_group:
  assumes own: "group_ins_in cap T (s, n) g"
    and g': "g' = ChunkedNodeGroup_rollbackInsert cap s n c g"
  shows "groupRows g' = s" "s \<le> row \<Longrightarrow> group_ins cap g' row = INVALID_TRANSACTION"
    "row < s \<Longrightarrow> group_ins cap g' row = group_ins cap g row \<or>
       group_ins cap g row \<in> T \<and> group_ins cap g' row = INVALID_TRANSACTION"
proof -
  obtain vi where vi: "versionInfo g = Some vi" "ins_in cap T (s, n) vi" "s + n \<le> groupRows g"
    using own by (rule group_ins_inD)
  have n: "0 < n" using own by (simp add: group_ins_in_def)
  note rows = rollbackInsert_rows [OF vi(2) refl]
  show r: "groupRows g' = s"
    using vi(3) n by (auto simp: g' ChunkedNodeGroup_rollbackInsert_def ChunkedNodeGroup_truncate_def)
  show "s \<le> row \<Longrightarrow> group_ins cap g' row = INVALID_TRANSACTION" by (simp add: group_ins_def r)
  show "row < s \<Longrightarrow> group_ins cap g' row = group_ins cap g row \<or>
       group_ins cap g row \<in> T \<and> group_ins cap g' row = INVALID_TRANSACTION"
    using rows [of row] vi(3) n
    by (auto simp: group_ins_def r vi(1)) (auto simp: g' ChunkedNodeGroup_rollbackInsert_def vi(1))
qed

section \<open>Appending\<close>

text \<open>Every append only adds values at the end of a chunk.\<close>

definition chunk_extends :: "'v ColumnChunk \<Rightarrow> 'v ColumnChunk \<Rightarrow> bool" where
  "chunk_extends c c' \<longleftrightarrow> segments c' \<noteq> [] \<and> updateInfo c' = updateInfo c \<and>
     take (length (chunk_values c)) (chunk_values c') = chunk_values c"

lemma append_to_last_extends:
  "segments c \<noteq> [] \<Longrightarrow> chunk_extends c (append_to_last vs c)"
  by (simp add: chunk_extends_def append_to_last_values) (simp add: append_to_last_def)

lemma chunk_extends_refl [simp]: "chunk_extends c c \<longleftrightarrow> segments c \<noteq> []"
  by (simp add: chunk_extends_def)

lemma chunk_extends_trans: "chunk_extends a b \<Longrightarrow> chunk_extends b c \<Longrightarrow> chunk_extends a c"
  unfolding chunk_extends_def
  by (metis length_take min.absorb2 nle_le take_take take_all)

lemma appendChunk_extends:
  "segments c \<noteq> [] \<Longrightarrow> chunk_extends c (ColumnChunk_appendChunk segs start n c)"
proof (induction segs start n c rule: ColumnChunk_appendChunk.induct)
  case (2 seg segs start n c)
  have "chunk_extends c (ColumnChunk_appendData seg start m c)"
    "segments (ColumnChunk_appendData seg start m c) \<noteq> []" for m
    using 2(3) by (simp_all add: ColumnChunk_appendData_def append_to_last_extends)
  with 2 show ?case by (auto simp: Let_def intro: chunk_extends_trans)
qed simp

lemma append_columns_extends:
  assumes "append_columns fails i cols cs = (r, cs')"
    and "list_all (\<lambda>(columnID, app). \<forall>c. segments c \<noteq> [] \<longrightarrow> chunk_extends c (app c)) cols"
    and "list_all (\<lambda>c. segments c \<noteq> []) cs"
  shows "list_all2 chunk_extends cs cs'"
  using assms
proof (induction fails i cols cs rule: append_columns.induct)
  case (1 fails i cs)
  then show ?case by (simp add: list_all2_conv_all_nth list_all_length)
next
  case (2 fails i columnID app cols cs)
  show ?case
  proof (cases "fails i")
    case None
    let ?cs = "cs[columnID := app (cs ! columnID)]"
    have ne: "segments (cs ! k) \<noteq> []" if "k < length cs" for k
      using 2(4) that by (simp add: list_all_length)
    have "chunk_extends (cs ! k) (?cs ! k)" if "k < length cs" for k
      using ne [OF that] 2(3) that by (cases "k = columnID") auto
    then have ext: "list_all2 chunk_extends cs ?cs" by (simp add: list_all2_conv_all_nth)
    then have "list_all (\<lambda>c. segments c \<noteq> []) ?cs"
      by (auto simp: list_all2_conv_all_nth list_all_length chunk_extends_def)
    with 2(1) [OF None] 2(2,3) None have "list_all2 chunk_extends ?cs cs'" by simp
    with ext show ?thesis
      by (rule list_all2_trans [rotated -2]) (rule chunk_extends_trans)
  next
    case (Some e)
    then obtain x written where "fails i = Some (x, written)" by (cases e) auto
    with 2(2) have cs': "cs' = cs[columnID := append_to_last written (cs ! columnID)]" by simp
    have "chunk_extends (cs ! k) (cs' ! k)" if "k < length cs" for k
      using 2(4) that unfolding cs' by (cases "k = columnID") (auto simp: list_all_length append_to_last_extends)
    then show ?thesis by (simp add: list_all2_conv_all_nth cs')
  qed
qed

lemma truncate_extended:
  "chunk_extends c c' \<Longrightarrow> length (chunk_values c) = n \<Longrightarrow>
    chunk_values (ColumnChunk_truncate n c') = chunk_values c \<and>
    updateInfo (ColumnChunk_truncate n c') = updateInfo c"
  by (auto simp: chunk_extends_def) (simp add: ColumnChunk_truncate_def)

definition chunks_aligned :: "'v ChunkedNodeGroup \<Rightarrow> bool" where
  "chunks_aligned g \<longleftrightarrow>
     list_all (\<lambda>c. segments c \<noteq> [] \<and> length (chunk_values c) = groupRows g) (chunks g)"

lemma append_rows_with_failure:
  assumes "append_rows_with cap fails versioned t n cols g = (Inl e, g')"
    and "chunks_aligned g"
    and "list_all (\<lambda>(columnID, app). \<forall>c. segments c \<noteq> [] \<longrightarrow> chunk_extends c (app c)) cols"
  shows "groupRows g' = groupRows g \<and> versionInfo g' = versionInfo g \<and>
    map chunk_values (chunks g') = map chunk_values (chunks g) \<and>
    map updateInfo (chunks g') = map updateInfo (chunks g)"
proof -
  obtain e cs where ac: "append_columns fails 0 cols (chunks g) = (Some e, cs)"
    and g': "g' = g\<lparr>chunks := handleAppendException cs (groupRows g)\<rparr>"
    using assms(1) by (auto simp: append_rows_with_def split: prod.splits option.splits)
  have "list_all2 chunk_extends (chunks g) cs"
    using append_columns_extends [OF ac assms(3)] assms(2)
    by (simp add: chunks_aligned_def list_all_iff)
  note ext = this
  have len: "length cs = length (chunks g)" using list_all2_lengthD [OF ext] by simp
  have tr: "chunk_values (ColumnChunk_truncate (groupRows g) (cs ! i)) = chunk_values (chunks g ! i) \<and>
      updateInfo (ColumnChunk_truncate (groupRows g) (cs ! i)) = updateInfo (chunks g ! i)"
      if "i < length cs" for i
    using ext assms(2) that truncate_extended [of "chunks g ! i" "cs ! i"]
    by (simp add: list_all2_conv_all_nth chunks_aligned_def list_all_length)
  have "map (\<lambda>c. chunk_values (ColumnChunk_truncate (groupRows g) c)) cs = map chunk_values (chunks g)"
    "map (\<lambda>c. updateInfo (ColumnChunk_truncate (groupRows g) c)) cs = map updateInfo (chunks g)"
    using len tr by (auto intro!: nth_equalityI simp del: truncate_values)
  then show ?thesis
    unfolding g' handleAppendException_def by (simp add: o_def del: truncate_values)
qed

text \<open>A versioned append gives the new rows to the transaction and keeps the rows before.\<close>

definition group_appendable :: "nat \<Rightarrow> 'v ChunkedNodeGroup \<Rightarrow> bool" where
  "group_appendable cap g \<longleftrightarrow> appendable cap (groupRows g) (getOrCreateVersions g) \<and>
     (\<forall>row. groupRows g \<le> row \<longrightarrow> row_del cap (getOrCreateVersions g) row = INVALID_TRANSACTION)"

lemma append_rows_with_success:
  assumes "append_rows_with cap fails True t n cols g = (Inr m, g')"
    and "group_inv cap g" "t \<noteq> INVALID_TRANSACTION" "group_appendable cap g" "0 < n"
  shows "m = n" "groupRows g' = groupRows g + n" "group_inv cap g'" "group_appendable cap g'"
    "residencyState g' = residencyState g" "startRowIdx g' = startRowIdx g"
    "groupCapacity g' = groupCapacity g"
    "row < groupRows g \<Longrightarrow> group_ins cap g' row = group_ins cap g row"
    "group_del cap g' row = group_del cap g row"
    "groupRows g \<le> row \<Longrightarrow> row < groupRows g + n \<Longrightarrow> group_ins cap g' row = t"
proof -
  let ?vi = "getOrCreateVersions g"
  let ?vi' = "VersionInfo_append cap t (groupRows g) n ?vi"
  obtain r cs where ac: "append_columns fails 0 cols (chunks g) = (r, cs)" by (rule prod.exhaust)
  have g': "g' = g\<lparr>chunks := cs, versionInfo := Some ?vi', groupRows := groupRows g + n\<rparr>" and m: "m = n"
    using assms(1) by (cases r; simp add: append_rows_with_def ac)+
  have v: "getOrCreateVersions g' = ?vi'" by (simp add: g' getOrCreateVersions_def)
  have inv: "0 < cap" "vi_inv cap ?vi" "appendable cap (groupRows g) ?vi"
    "groupRows g \<le> row \<Longrightarrow> row_del cap ?vi row = INVALID_TRANSACTION" for row
    using assms(2,4) by (auto simp: group_inv_def group_appendable_def)
  have dels: "row_del cap ?vi' row = row_del cap ?vi row" for row
    using append_rows [OF inv(1,2) assms(3) inv(3) refl, where row = row and numRows = n] by simp
  note rows = append_rows [OF inv(1,2) assms(3) inv(3) refl, where row = row and numRows = n]
  show "m = n" "groupRows g' = groupRows g + n" "residencyState g' = residencyState g"
    "startRowIdx g' = startRowIdx g" "groupCapacity g' = groupCapacity g"
    by (simp_all add: m g')
  then show "group_inv cap g'" "group_appendable cap g'"
    "row < groupRows g \<Longrightarrow> group_ins cap g' row = group_ins cap g row"
    "group_del cap g' row = group_del cap g row"
    "groupRows g \<le> row \<Longrightarrow> row < groupRows g + n \<Longrightarrow> group_ins cap g' row = t"
    using rows inv(1,4) appendable_append [OF inv(1) assms(5) inv(2,3) assms(3)]
    by (simp_all add: group_inv_def group_appendable_def group_ins_eq group_del_eq v dels)
qed

section \<open>Scanning\<close>

text \<open>The loop over the columns writes each output vector once.\<close>

lemma scan_columns:
  fixes state :: "('v, 'p) TableScanState"
  assumes "state' = fold (scan_column cap transaction row n g) [0..<m] state"
  shows "columnIDs state' = columnIDs state \<and> outSelVector state' = outSelVector state \<and>
    length (outputVectors state') = length (outputVectors state) \<and>
    (\<forall>i < length (outputVectors state). m \<le> i \<longrightarrow> outputVectors state' ! i = outputVectors state ! i) \<and>
    (\<forall>i < length (outputVectors state). i < m \<longrightarrow>
       columnIDs state ! i \<noteq> INVALID_COLUMN_ID \<longrightarrow> columnIDs state ! i \<noteq> ROW_IDX_COLUMN_ID \<longrightarrow>
       outputVectors state' ! i = ColumnChunk_scan cap transaction row n
         (chunks g ! unat (columnIDs state ! i)) (outputVectors state ! i))"
  using assms
proof (induction m arbitrary: state')
  case (Suc m)
  let ?st = "fold (scan_column cap transaction row n g) [0..<m] state"
  have st': "state' = scan_column cap transaction row n g m ?st" using Suc.prems by simp
  show ?case using Suc.IH [OF refl] unfolding st' scan_column_def Let_def
    by (auto simp: nth_list_update less_Suc_eq)
qed simp

lemma group_scan_state:
  fixes state :: "('v, 'p) TableScanState"
  assumes "0 < cap" "0 < n" "n \<le> cap" "sel_inv cap (outSelVector state)"
    and "scan_ok cap row n (getOrCreateVersions g)"
    and "getZoneMapResult checkZoneMap state (chunks g) = ALWAYS_SCAN"
    and st': "state' = ChunkedNodeGroup_scan cap checkZoneMap transaction row n g state"
  shows "getSelectedPositions cap (outSelVector state') =
      filter (\<lambda>k. VersionInfo_isSelected cap (txnStartTS transaction) (txnID transaction) (row + k)
        (getOrCreateVersions g)) [0..<n]"
    and "getSelectedPositions cap (outSelVector state') \<noteq> [] \<Longrightarrow> i < length (outputVectors state) \<Longrightarrow>
      i < length (columnIDs state) \<Longrightarrow> columnIDs state ! i \<noteq> INVALID_COLUMN_ID \<Longrightarrow>
      columnIDs state ! i \<noteq> ROW_IDX_COLUMN_ID \<Longrightarrow>
      outputVectors state' ! i = ColumnChunk_scan cap transaction row n
        (chunks g ! unat (columnIDs state ! i)) (outputVectors state ! i)"
proof -
  let ?sel = "case versionInfo g of
      Some vi \<Rightarrow> getSelVectorToScan cap (txnStartTS transaction) (txnID transaction) row n vi (outSelVector state)
    | None \<Rightarrow> setToUnfiltered n (outSelVector state)"
  let ?st = "state\<lparr>outSelVector := ?sel\<rparr>"
  have st: "state' = (if 0 < selectedSize ?sel
      then fold (scan_column cap transaction row n g) [0..<length (columnIDs ?st)] ?st else ?st)"
    using assms(6) by (simp add: st' ChunkedNodeGroup_scan_def Let_def)
  note cols = scan_columns [OF refl, where cap = cap and transaction = transaction and row = row
      and n = n and g = g and m = "length (columnIDs ?st)" and state = ?st]
  have sel: "outSelVector state' = ?sel" unfolding st using cols by auto
  have pos: "getSelectedPositions cap ?sel = filter (\<lambda>k. VersionInfo_isSelected cap (txnStartTS transaction)
      (txnID transaction) (row + k) (getOrCreateVersions g)) [0..<n]"
  proof (cases "versionInfo g")
    case None
    have "\<forall>k. VersionInfo_isSelected cap (txnStartTS transaction) (txnID transaction) k VersionInfo_new"
      by (simp add: VersionInfo_isSelected_def getVectorVersionInfo_def opt_nth_def VersionInfo_new_def)
    with None assms(3) show ?thesis
      by (simp add: getOrCreateVersions_def getSelectedPositions_def setToUnfiltered_def min_def take_upt)
  next
    case (Some vi)
    with getSelVectorToScan_rows [OF assms(1-4), of row vi] assms(5) show ?thesis
      by (simp add: getOrCreateVersions_def)
  qed
  then show "getSelectedPositions cap (outSelVector state') =
      filter (\<lambda>k. VersionInfo_isSelected cap (txnStartTS transaction) (txnID transaction) (row + k)
        (getOrCreateVersions g)) [0..<n]" by (simp only: sel)
  show "outputVectors state' ! i = ColumnChunk_scan cap transaction row n
        (chunks g ! unat (columnIDs state ! i)) (outputVectors state ! i)"
    if "getSelectedPositions cap (outSelVector state') \<noteq> []" "i < length (outputVectors state)"
      "i < length (columnIDs state)" "columnIDs state ! i \<noteq> INVALID_COLUMN_ID"
      "columnIDs state ! i \<noteq> ROW_IDX_COLUMN_ID"
  proof -
    have "0 < selectedSize ?sel" using that(1) by (auto simp: sel getSelectedPositions_def)
    with that cols show ?thesis unfolding st by simp
  qed
qed

section \<open>Properties\<close>

text \<open>
  C24: when an append to a chunked group throws while some column is being written, the group is
  left as it was: its rows, its version information, and the values and updates of every column,
  for each of the three ways rows are appended.
\<close>

theorem append_failure_restores:
  assumes "chunks_aligned g"
    and "res = ChunkedNodeGroup_appendVectors cap fails transaction vectors start n g \<or>
      res = ChunkedNodeGroup_appendData cap fails transaction colIDs vectors start n g \<or>
      res = ChunkedNodeGroup_appendChunks cap fails transaction colIDs others start n g"
    and "res = (Inl e, g')"
  shows "groupRows g' = groupRows g \<and> versionInfo g' = versionInfo g \<and>
    map chunk_values (chunks g') = map chunk_values (chunks g) \<and>
    map updateInfo (chunks g') = map updateInfo (chunks g)"
proof -
  from assms(2,3) obtain versioned m cols where
    "append_rows_with cap fails versioned (txnID transaction) m cols g = (Inl e, g')"
    "list_all (\<lambda>(columnID, app). \<forall>c. segments c \<noteq> [] \<longrightarrow> chunk_extends c (app c)) cols"
  proof (elim disjE)
  qed (auto simp: ChunkedNodeGroup_appendVectors_def ChunkedNodeGroup_appendData_def
      ChunkedNodeGroup_appendChunks_def Let_def list_all_iff ColumnChunk_append_def
      ColumnChunk_appendData_def append_to_last_extends appendChunk_extends)
  from append_rows_with_failure [OF this(1) assms(1) this(2)] show ?thesis .
qed

definition group_example :: "nat ChunkedNodeGroup" where
  "group_example = snd (ChunkedNodeGroup_appendVectors 2 (\<lambda>_. None) example_transaction
     [[Some 1, None, Some 3], [Some 4, Some 5, Some 6]] 0 3
     (ChunkedNodeGroup_new 2 8 0 IN_MEMORY))"

abbreviation failing_append :: "(exn + nat) \<times> nat ChunkedNodeGroup" where
  "failing_append \<equiv> ChunkedNodeGroup_appendVectors 2
     (\<lambda>i. if i = 1 then Some (RuntimeException ''memory'', [Some 9]) else None) example_transaction
     [[Some 7, Some 7], [Some 8, Some 8]] 0 2 group_example"

theorem append_failure_restores_witness:
  "groupRows (snd failing_append) = groupRows group_example \<and>
    versionInfo (snd failing_append) = versionInfo group_example \<and>
    map chunk_values (chunks (snd failing_append)) = map chunk_values (chunks group_example) \<and>
    map updateInfo (chunks (snd failing_append)) = map updateInfo (chunks group_example)"
proof -
  have "chunks_aligned group_example" by code_simp
  moreover have "failing_append = (Inl (RuntimeException ''memory''), snd failing_append)" by code_simp
  ultimately show ?thesis
    by (rule append_failure_restores [OF _ disjI1 [OF refl]])
qed


definition scan_state_example :: "(nat, unit) TableScanState" where
  "scan_state_example =
     \<lparr>columnIDs = [1], columnPredicateSets = [], outputVectors = [[None, None]], rowIdxVector = [0, 0],
      outSelVector = SelectionVector_new 2\<rparr>"



end
