(* ===== verification/Node_Group.thy ===== *)
theory Node_Group
  imports Chunked_Group
begin

text \<open>
  A node group (\<^verbatim>\<open>storage/table/node_group.cpp\<close>, \<^verbatim>\<open>group_collection.h\<close>): a sequence of chunked groups,
  the first of which may hold checkpointed rows, and the record handler the undo buffer reaches its
  row versions through. The generated constants \<^verbatim>\<open>DEFAULT_VECTOR_CAPACITY\<close> and
  \<^verbatim>\<open>StorageConfig::CHUNKED_NODE_GROUP_CAPACITY\<close> are the arguments \<open>cap\<close> and \<open>cgCap\<close>.
\<close>

section \<open>Group collections\<close>

definition removeTrailingGroups :: "nat \<Rightarrow> 'g list \<Rightarrow> 'g list" where
  "removeTrailingGroups numGroupsToRemove groups = take (length groups - numGroupsToRemove) groups"

definition getNumEmptyTrailingGroups :: "('g \<Rightarrow> nat) \<Rightarrow> 'g list \<Rightarrow> nat" where
  "getNumEmptyTrailingGroups getNumRows groups =
     length (takeWhile (\<lambda>g. getNumRows g = 0) (rev groups))"

section \<open>The node group\<close>

record 'v NodeGroup =
  nodeGroupIdx :: nat
  ngNumRows :: nat
  nextRowToAppend :: nat
  ngCapacity :: nat
  numColumns :: nat
  chunkedGroups :: "'v ChunkedNodeGroup list"

definition NodeGroup_new :: "nat \<Rightarrow> nat \<Rightarrow> nat \<Rightarrow> 'v NodeGroup" where
  "NodeGroup_new idx columns capacity =
     \<lparr>nodeGroupIdx = idx, ngNumRows = 0, nextRowToAppend = 0, ngCapacity = capacity,
      numColumns = columns, chunkedGroups = []\<rparr>"

definition NodeGroup_of_chunkedGroup :: "nat \<Rightarrow> nat \<Rightarrow> 'v ChunkedNodeGroup \<Rightarrow> 'v NodeGroup" where
  "NodeGroup_of_chunkedGroup idx capacity g =
     \<lparr>nodeGroupIdx = idx, ngNumRows = startRowIdx g + groupRows g,
      nextRowToAppend = startRowIdx g + groupRows g, ngCapacity = capacity,
      numColumns = length (chunks g), chunkedGroups = [g]\<rparr>"

definition moveNextRowToAppend :: "nat \<Rightarrow> 'v NodeGroup \<Rightarrow> 'v NodeGroup" where
  "moveNextRowToAppend numRowsToAppend ng =
     ng\<lparr>nextRowToAppend := nextRowToAppend ng + numRowsToAppend\<rparr>"

text \<open>Subtraction of \<^verbatim>\<open>uint64_t\<close> sizes, which wraps below zero.\<close>

definition sub_u64 :: "nat \<Rightarrow> nat \<Rightarrow> nat" where
  "sub_u64 a b = (if b \<le> a then a - b else a + 2 ^ 64 - b)"

definition getNumRowsLeftToAppend :: "'v NodeGroup \<Rightarrow> nat" where
  "getNumRowsLeftToAppend ng = sub_u64 (ngCapacity ng) (nextRowToAppend ng)"

definition NodeGroup_isFull :: "'v NodeGroup \<Rightarrow> bool" where
  "NodeGroup_isFull ng \<longleftrightarrow> ngNumRows ng = ngCapacity ng"

text \<open>
  The three \<^verbatim>\<open>append\<close> functions share this loop, over the append of the chunked group; \<open>groupAppend\<close>
  takes the position in the source, the number of rows and the group. The loop may run forever
  (when a chunked group can hold no rows), so its value is an \<open>option\<close>.
\<close>

partial_function (option) append_loop ::
    "nat \<Rightarrow> (nat \<Rightarrow> nat \<Rightarrow> 'v ChunkedNodeGroup \<Rightarrow> (exn + nat) \<times> 'v ChunkedNodeGroup) \<Rightarrow> nat \<Rightarrow> nat \<Rightarrow>
     nat \<Rightarrow> nat \<Rightarrow> nat \<Rightarrow> 'v ChunkedNodeGroup list \<Rightarrow>
     ((exn + nat) \<times> 'v ChunkedNodeGroup list) option" where
  "append_loop cgCap groupAppend columns numRowsBeforeAppend startRow numRowsToAppend numRowsAppended
       groups =
     (if numRowsAppended < numRowsToAppend then
        (let groups = (if groups = [] \<or> isFullOrOnDisk (last groups)
                       then groups @ [ChunkedNodeGroup_new columns cgCap
                                        (numRowsBeforeAppend + numRowsAppended) IN_MEMORY]
                       else groups);
             g = last groups;
             numToAppendInChunk =
               min (numRowsToAppend - numRowsAppended) (sub_u64 cgCap (groupRows g));
             (res, g') = groupAppend (startRow + numRowsAppended) numToAppendInChunk g;
             groups = butlast groups @ [g']
         in (case res of
               Inl e \<Rightarrow> Some (Inl e, groups)
             | Inr _ \<Rightarrow> append_loop cgCap groupAppend columns numRowsBeforeAppend startRow
                          numRowsToAppend (numRowsAppended + numToAppendInChunk) groups))
      else Some (Inr numRowsAppended, groups))"

declare append_loop.simps [code]

definition append_with ::
    "nat \<Rightarrow> (nat \<Rightarrow> nat \<Rightarrow> 'v ChunkedNodeGroup \<Rightarrow> (exn + nat) \<times> 'v ChunkedNodeGroup) \<Rightarrow> nat \<Rightarrow> nat \<Rightarrow>
     'v NodeGroup \<Rightarrow> ((exn + nat) \<times> 'v NodeGroup) option" where
  "append_with cgCap groupAppend startRow numRowsToAppend ng =
     (let numRowsBeforeAppend = ngNumRows ng;
          groups = (if chunkedGroups ng = []
                    then [ChunkedNodeGroup_new (numColumns ng) cgCap 0 IN_MEMORY]
                    else chunkedGroups ng)
      in (case append_loop cgCap groupAppend (numColumns ng) numRowsBeforeAppend startRow
                 numRowsToAppend 0 groups of
            None \<Rightarrow> None
          | Some (Inl e, groups) \<Rightarrow> Some (Inl e, ng\<lparr>chunkedGroups := groups\<rparr>)
          | Some (Inr numRowsAppended, groups) \<Rightarrow>
              Some (Inr numRowsBeforeAppend,
                    ng\<lparr>chunkedGroups := groups, ngNumRows := ngNumRows ng + numRowsAppended\<rparr>)))"

definition NodeGroup_appendVectors ::
    "nat \<Rightarrow> nat \<Rightarrow> 'v append_failure \<Rightarrow> 'a Transaction_scheme \<Rightarrow> 'v option list list \<Rightarrow> nat \<Rightarrow> nat \<Rightarrow>
     'v NodeGroup \<Rightarrow> ((exn + nat) \<times> 'v NodeGroup) option" where
  "NodeGroup_appendVectors cap cgCap fails transaction vectors =
     append_with cgCap (ChunkedNodeGroup_appendVectors cap fails transaction vectors)"

definition NodeGroup_appendData ::
    "nat \<Rightarrow> nat \<Rightarrow> 'v append_failure \<Rightarrow> 'a Transaction_scheme \<Rightarrow> nat list \<Rightarrow> 'v option list list \<Rightarrow> nat \<Rightarrow>
     nat \<Rightarrow> 'v NodeGroup \<Rightarrow> ((exn + nat) \<times> 'v NodeGroup) option" where
  "NodeGroup_appendData cap cgCap fails transaction colIDs others =
     append_with cgCap (ChunkedNodeGroup_appendData cap fails transaction colIDs others)"

definition NodeGroup_appendChunks ::
    "nat \<Rightarrow> nat \<Rightarrow> 'v append_failure \<Rightarrow> 'a Transaction_scheme \<Rightarrow> nat list \<Rightarrow> 'v option ColumnChunk list \<Rightarrow>
     nat \<Rightarrow> nat \<Rightarrow> 'v NodeGroup \<Rightarrow> ((exn + nat) \<times> 'v NodeGroup) option" where
  "NodeGroup_appendChunks cap cgCap fails transaction colIDs others =
     append_with cgCap (ChunkedNodeGroup_appendChunks cap fails transaction colIDs others)"

definition NodeGroup_merge :: "'v ChunkedNodeGroup \<Rightarrow> 'v NodeGroup \<Rightarrow> 'v NodeGroup" where
  "NodeGroup_merge g ng =
     ng\<lparr>ngNumRows := ngNumRows ng + groupRows g, chunkedGroups := chunkedGroups ng @ [g]\<rparr>"

section \<open>Finding rows\<close>

definition getStartRowIdxInGroup :: "'v NodeGroup \<Rightarrow> nat" where
  "getStartRowIdxInGroup ng = startRowIdx (hd (chunkedGroups ng))"

text \<open>\<open>None\<close> stands for the pair of invalid indexes.\<close>

definition findChunkedGroupIdxFromRowIdx :: "nat \<Rightarrow> nat \<Rightarrow> 'v NodeGroup \<Rightarrow> (nat \<times> nat) option" where
  "findChunkedGroupIdxFromRowIdx cgCap rowIdx ng =
     (if chunkedGroups ng = [] \<or> rowIdx < getStartRowIdxInGroup ng then None
      else
        (let rowIdx = rowIdx - getStartRowIdxInGroup ng;
             numRowsInFirstGroup = groupRows (hd (chunkedGroups ng))
         in if rowIdx < numRowsInFirstGroup then Some (0, rowIdx)
            else
              (let rowIdx = rowIdx - numRowsInFirstGroup;
                   chunkedGroupIdx = rowIdx div cgCap + 1;
                   rowIdxInChunk = rowIdx mod cgCap
               in if length (chunkedGroups ng) \<le> chunkedGroupIdx then None
                  else Some (chunkedGroupIdx, rowIdxInChunk))))"

definition findChunkedGroupFromRowIdx :: "nat \<Rightarrow> nat \<Rightarrow> 'v NodeGroup \<Rightarrow> nat option" where
  "findChunkedGroupFromRowIdx cgCap rowIdx ng =
     map_option fst (findChunkedGroupIdxFromRowIdx cgCap rowIdx ng)"

definition NodeGroup_isVisible ::
    "nat \<Rightarrow> nat \<Rightarrow> 'a Transaction_scheme \<Rightarrow> nat \<Rightarrow> 'v NodeGroup \<Rightarrow> bool" where
  "NodeGroup_isVisible cap cgCap transaction rowIdxInGroup ng =
     (case findChunkedGroupFromRowIdx cgCap rowIdxInGroup ng of
        None \<Rightarrow> False
      | Some k \<Rightarrow>
          (let g = chunkedGroups ng ! k; rowIdxInChunkedGroup = rowIdxInGroup - startRowIdx g
           in \<not> ChunkedNodeGroup_isDeleted cap transaction rowIdxInChunkedGroup g \<and>
              ChunkedNodeGroup_isInserted cap transaction rowIdxInChunkedGroup g))"

text \<open>Where the code asserts that a row's group exists, \<open>None\<close> is the null dereference.\<close>

definition NodeGroup_isDeleted ::
    "nat \<Rightarrow> nat \<Rightarrow> 'a Transaction_scheme \<Rightarrow> nat \<Rightarrow> 'v NodeGroup \<Rightarrow> bool option" where
  "NodeGroup_isDeleted cap cgCap transaction offsetInGroup ng =
     map_option (\<lambda>k. let g = chunkedGroups ng ! k in
         ChunkedNodeGroup_isDeleted cap transaction (offsetInGroup - startRowIdx g) g)
       (findChunkedGroupFromRowIdx cgCap offsetInGroup ng)"

definition NodeGroup_isInserted ::
    "nat \<Rightarrow> nat \<Rightarrow> 'a Transaction_scheme \<Rightarrow> nat \<Rightarrow> 'v NodeGroup \<Rightarrow> bool option" where
  "NodeGroup_isInserted cap cgCap transaction offsetInGroup ng =
     map_option (\<lambda>k. let g = chunkedGroups ng ! k in
         ChunkedNodeGroup_isInserted cap transaction (offsetInGroup - startRowIdx g) g)
       (findChunkedGroupFromRowIdx cgCap offsetInGroup ng)"

definition NodeGroup_lookup ::
    "nat \<Rightarrow> nat \<Rightarrow> 'a Transaction_scheme \<Rightarrow> nat \<Rightarrow> 'v NodeGroup \<Rightarrow> ('v, 'p) TableScanState \<Rightarrow>
     (bool \<times> ('v, 'p) TableScanState) option" where
  "NodeGroup_lookup cap cgCap transaction posInSel ng state =
     (let pos = positionsArray cap (outSelVector state) ! posInSel;
          rowIdx = rowIdxVector state ! pos
      in map_option (\<lambda>k. let g = chunkedGroups ng ! k in
             ChunkedNodeGroup_lookup cap transaction (rowIdx - startRowIdx g) posInSel g state)
           (findChunkedGroupFromRowIdx cgCap rowIdx ng))"

fun lookup_loop ::
    "nat \<Rightarrow> nat \<Rightarrow> 'a Transaction_scheme \<Rightarrow> nat list \<Rightarrow> 'v NodeGroup \<Rightarrow> nat \<Rightarrow> ('v, 'p) TableScanState \<Rightarrow>
     (nat \<times> ('v, 'p) TableScanState) option" where
  "lookup_loop cap cgCap transaction [] ng found state = Some (found, state)"
| "lookup_loop cap cgCap transaction (i # is) ng found state =
     (case NodeGroup_lookup cap cgCap transaction i ng state of
        None \<Rightarrow> None
      | Some (hit, state) \<Rightarrow>
          lookup_loop cap cgCap transaction is ng (found + (if hit then 1 else 0)) state)"

definition NodeGroup_lookupMultiple ::
    "nat \<Rightarrow> nat \<Rightarrow> 'a Transaction_scheme \<Rightarrow> 'v NodeGroup \<Rightarrow> ('v, 'p) TableScanState \<Rightarrow>
     (bool \<times> ('v, 'p) TableScanState) option" where
  "NodeGroup_lookupMultiple cap cgCap transaction ng state =
     (let n = selectedSize (outSelVector state) in
      map_option (\<lambda>(numTuplesFound, state). (numTuplesFound = n, state))
        (lookup_loop cap cgCap transaction [0..<n] ng 0 state))"

section \<open>Writing\<close>

definition NodeGroup_update ::
    "nat \<Rightarrow> nat \<Rightarrow> nat \<Rightarrow> 'a Transaction_scheme \<Rightarrow> nat \<Rightarrow> nat \<Rightarrow> 'v option \<Rightarrow> 'v NodeGroup \<Rightarrow>
     ((exn + (nat \<times> nat) option) \<times> 'v NodeGroup) option" where
  "NodeGroup_update cap cgCap addr transaction rowIdxInGroup columnID val ng =
     map_option (\<lambda>k. let g = chunkedGroups ng ! k;
            (res, g) = ChunkedNodeGroup_update cap addr transaction (rowIdxInGroup - startRowIdx g)
              columnID val g
          in (res, ng\<lparr>chunkedGroups := (chunkedGroups ng)[k := g]\<rparr>))
       (findChunkedGroupFromRowIdx cgCap rowIdxInGroup ng)"

definition NodeGroup_delete ::
    "nat \<Rightarrow> nat \<Rightarrow> 'a Transaction_scheme \<Rightarrow> nat \<Rightarrow> 'v NodeGroup \<Rightarrow>
     ((exn + bool) \<times> 'v NodeGroup) option" where
  "NodeGroup_delete cap cgCap transaction rowIdxInGroup ng =
     map_option (\<lambda>k. let g = chunkedGroups ng ! k;
            (res, g) = ChunkedNodeGroup_delete cap transaction (rowIdxInGroup - startRowIdx g) g
          in (res, ng\<lparr>chunkedGroups := (chunkedGroups ng)[k := g]\<rparr>))
       (findChunkedGroupFromRowIdx cgCap rowIdxInGroup ng)"

fun groups_have_deletions :: "'a Transaction_scheme \<Rightarrow> 'v ChunkedNodeGroup list \<Rightarrow> bool option" where
  "groups_have_deletions transaction [] = Some False"
| "groups_have_deletions transaction (g # groups) =
     (case ChunkedNodeGroup_hasDeletions transaction g of
        None \<Rightarrow> None
      | Some True \<Rightarrow> Some True
      | Some False \<Rightarrow> groups_have_deletions transaction groups)"

definition NodeGroup_hasDeletions :: "'a Transaction_scheme \<Rightarrow> 'v NodeGroup \<Rightarrow> bool option" where
  "NodeGroup_hasDeletions transaction ng = groups_have_deletions transaction (chunkedGroups ng)"

definition NodeGroup_rollbackInsert :: "nat \<Rightarrow> 'v NodeGroup \<Rightarrow> 'v NodeGroup" where
  "NodeGroup_rollbackInsert startRow ng =
     ng\<lparr>chunkedGroups := removeTrailingGroups
            (getNumEmptyTrailingGroups groupRows (chunkedGroups ng)) (chunkedGroups ng),
        ngNumRows := startRow\<rparr>"

text \<open>The loop of \<^verbatim>\<open>applyFuncToChunkedGroups\<close>, from the group the rows start in.\<close>

fun apply_groups ::
    "'v version_op \<Rightarrow> transaction_t \<Rightarrow> nat \<Rightarrow> nat \<Rightarrow> 'v ChunkedNodeGroup list \<Rightarrow> 'v ChunkedNodeGroup list" where
  "apply_groups func ts curStartRowIdxInChunk numRowsLeft [] = []"
| "apply_groups func ts curStartRowIdxInChunk numRowsLeft (g # groups) =
     (if 0 < numRowsLeft then
        (let numRowsForGroup = min numRowsLeft (sub_u64 (groupRows g) curStartRowIdxInChunk)
         in func curStartRowIdxInChunk numRowsForGroup ts g #
              apply_groups func ts 0 (numRowsLeft - numRowsForGroup) groups)
      else g # groups)"

definition NodeGroup_applyFuncToChunkedGroups ::
    "nat \<Rightarrow> 'v version_op \<Rightarrow> nat \<Rightarrow> nat \<Rightarrow> transaction_t \<Rightarrow> 'v NodeGroup \<Rightarrow> 'v NodeGroup" where
  "NodeGroup_applyFuncToChunkedGroups cgCap func startRow numRows ts ng =
     (case findChunkedGroupIdxFromRowIdx cgCap startRow ng of
        None \<Rightarrow> ng
      | Some (chunkedGroupIdx, startRowInChunkedGroup) \<Rightarrow>
          ng\<lparr>chunkedGroups := take chunkedGroupIdx (chunkedGroups ng) @
               apply_groups func ts startRowInChunkedGroup numRows
                 (drop chunkedGroupIdx (chunkedGroups ng))\<rparr>)"

definition getNumResidentRows :: "ResidencyState \<Rightarrow> 'v NodeGroup \<Rightarrow> nat" where
  "getNumResidentRows state ng =
     fold (\<lambda>g n. if residencyState g = state then n + groupRows g else n) (chunkedGroups ng) 0"

section \<open>Layout\<close>

text \<open>
  Behind the first group the groups are full except for the last, and every group starts where the
  one before it ends.
\<close>

fun groups_ok :: "nat \<Rightarrow> nat \<Rightarrow> 'v ChunkedNodeGroup list \<Rightarrow> bool" where
  "groups_ok cgCap start [] \<longleftrightarrow> True"
| "groups_ok cgCap start (g # groups) \<longleftrightarrow>
     startRowIdx g = start \<and> groupRows g \<le> cgCap \<and> (groups \<noteq> [] \<longrightarrow> groupRows g = cgCap) \<and>
     groups_ok cgCap (start + groupRows g) groups"

definition total_rows :: "'v ChunkedNodeGroup list \<Rightarrow> nat" where
  "total_rows groups = sum_list (map groupRows groups)"

fun layout_ok :: "nat \<Rightarrow> 'v ChunkedNodeGroup list \<Rightarrow> bool" where
  "layout_ok cgCap [] \<longleftrightarrow> True"
| "layout_ok cgCap (g # groups) \<longleftrightarrow> groups_ok cgCap (startRowIdx g + groupRows g) groups"

definition group_start :: "'v ChunkedNodeGroup list \<Rightarrow> nat" where
  "group_start groups = (case groups of [] \<Rightarrow> 0 | g # _ \<Rightarrow> startRowIdx g)"

definition ng_shape :: "nat \<Rightarrow> 'v NodeGroup \<Rightarrow> bool" where
  "ng_shape cgCap ng \<longleftrightarrow> 0 < cgCap \<and> layout_ok cgCap (chunkedGroups ng) \<and>
     ngNumRows ng = group_start (chunkedGroups ng) + total_rows (chunkedGroups ng)"

definition ng_inv :: "nat \<Rightarrow> nat \<Rightarrow> 'v NodeGroup \<Rightarrow> bool" where
  "ng_inv cap cgCap ng \<longleftrightarrow> 0 < cap \<and> ng_shape cgCap ng \<and> list_all (group_inv cap) (chunkedGroups ng)"

lemma total_rows_simps [simp]:
  "total_rows [] = 0" "total_rows (g # groups) = groupRows g + total_rows groups"
  "total_rows (xs @ ys) = total_rows xs + total_rows ys"
  by (simp_all add: total_rows_def)

lemma find_in_tail:
  assumes "groups_ok cgCap start groups" "r < total_rows groups" "0 < cgCap"
  shows "r div cgCap < length groups \<and> r mod cgCap < groupRows (groups ! (r div cgCap)) \<and>
    startRowIdx (groups ! (r div cgCap)) + r mod cgCap = start + r \<and>
    total_rows (take (r div cgCap) groups) + r mod cgCap = r"
  using assms
proof (induction groups arbitrary: start r)
  case (Cons g groups)
  show ?case
  proof (cases "r < groupRows g")
    case True
    with Cons.prems show ?thesis by simp
  next
    case False
    with Cons.prems have "groups \<noteq> []" by auto
    with Cons.prems False have g: "groupRows g = cgCap" "r - cgCap < total_rows groups" "cgCap \<le> r"
      by auto
    then have "r div cgCap = Suc ((r - cgCap) div cgCap)" "r mod cgCap = (r - cgCap) mod cgCap"
      using Cons.prems(3) by (simp_all add: le_div_geq le_mod_geq)
    with Cons.IH [of "start + groupRows g" "r - cgCap"] Cons.prems g show ?thesis by (simp add: add.assoc)
  qed
qed simp

lemma find_group:
  assumes inv: "ng_shape cgCap ng" and row: "group_start (chunkedGroups ng) \<le> row" "row < ngNumRows ng"
  obtains k i where "findChunkedGroupIdxFromRowIdx cgCap row ng = Some (k, i)"
    "k < length (chunkedGroups ng)" "i < groupRows (chunkedGroups ng ! k)"
    "startRowIdx (chunkedGroups ng ! k) + i = row"
    "group_start (chunkedGroups ng) + total_rows (take k (chunkedGroups ng)) + i = row"
proof (cases "chunkedGroups ng")
  case Nil
  with assms show ?thesis by (simp add: ng_shape_def group_start_def)
next
  case (Cons g groups)
  let ?r = "row - startRowIdx g"
  have lay: "groups_ok cgCap (startRowIdx g + groupRows g) groups" "0 < cgCap"
    "startRowIdx g \<le> row" "?r < groupRows g + total_rows groups"
    using assms Cons by (auto simp: ng_shape_def group_start_def)
  show ?thesis
  proof (cases "?r < groupRows g")
    case True
    with that [of 0 ?r] Cons lay show ?thesis
      by (simp add: findChunkedGroupIdxFromRowIdx_def getStartRowIdxInGroup_def group_start_def)
  next
    case False
    let ?q = "?r - groupRows g"
    have q: "?q < total_rows groups" "startRowIdx g + (groupRows g + ?q) = row" using lay False by linarith+
    from find_in_tail [OF lay(1) q(1) lay(2)] q(2) that [of "?q div cgCap + 1" "?q mod cgCap"] Cons lay False
    show ?thesis
      by (simp add: add.assoc findChunkedGroupIdxFromRowIdx_def getStartRowIdxInGroup_def group_start_def Let_def)
  qed
qed

section \<open>The versions of the rows\<close>

definition rows_versions :: "('v ChunkedNodeGroup \<Rightarrow> nat \<Rightarrow> transaction_t) \<Rightarrow> 'v ChunkedNodeGroup list \<Rightarrow>
    transaction_t list" where
  "rows_versions ver groups = concat (map (\<lambda>g. map (ver g) [0..<groupRows g]) groups)"

definition ng_version :: "('v ChunkedNodeGroup \<Rightarrow> nat \<Rightarrow> transaction_t) \<Rightarrow> 'v NodeGroup \<Rightarrow> nat \<Rightarrow> transaction_t" where
  "ng_version ver ng row =
     (let start = group_start (chunkedGroups ng); versions = rows_versions ver (chunkedGroups ng) in
      if start \<le> row \<and> row < start + length versions then versions ! (row - start)
      else INVALID_TRANSACTION)"

definition ng_ins :: "nat \<Rightarrow> 'v NodeGroup \<Rightarrow> nat \<Rightarrow> transaction_t" where
  "ng_ins cap = ng_version (group_ins cap)"

definition ng_del :: "nat \<Rightarrow> 'v NodeGroup \<Rightarrow> nat \<Rightarrow> transaction_t" where
  "ng_del cap = ng_version (group_del cap)"

lemma rows_versions_simps [simp]:
  "rows_versions ver [] = []"
  "rows_versions ver (g # groups) = map (ver g) [0..<groupRows g] @ rows_versions ver groups"
  "rows_versions ver (xs @ ys) = rows_versions ver xs @ rows_versions ver ys"
  by (simp_all add: rows_versions_def)

lemma length_rows_versions [simp]: "length (rows_versions ver groups) = total_rows groups"
  by (induction groups) simp_all

lemma nth_rows_versions:
  "k < length groups \<Longrightarrow> i < groupRows (groups ! k) \<Longrightarrow>
    rows_versions ver groups ! (total_rows (take k groups) + i) = ver (groups ! k) i"
proof (induction groups arbitrary: k)
  case (Cons g groups)
  then show ?case by (cases k) (simp_all add: nth_append add.assoc)
qed simp

lemma ng_version_at:
  assumes inv: "ng_shape cgCap ng" and row: "group_start (chunkedGroups ng) \<le> row" "row < ngNumRows ng"
    and f: "findChunkedGroupIdxFromRowIdx cgCap row ng = Some (k, i)"
  shows "ng_version ver ng row = ver (chunkedGroups ng ! k) i"
proof -
  from inv row obtain k' i' where
    k: "findChunkedGroupIdxFromRowIdx cgCap row ng = Some (k', i')" "k' < length (chunkedGroups ng)"
    "i' < groupRows (chunkedGroups ng ! k')" "startRowIdx (chunkedGroups ng ! k') + i' = row"
    and r: "group_start (chunkedGroups ng) + total_rows (take k' (chunkedGroups ng)) + i' = row"
    by (rule find_group)
  have "row - group_start (chunkedGroups ng) = total_rows (take k' (chunkedGroups ng)) + i'"
    using r by linarith
  with nth_rows_versions [OF k(2,3), of ver] k(1) f row inv show ?thesis
    by (simp add: ng_version_def ng_shape_def)
qed

lemma NodeGroup_isVisible_iff:
  assumes "ng_shape cgCap ng" "snapshot_ok (txnStartTS transaction) (txnID transaction)"
    and "group_start (chunkedGroups ng) \<le> row" "row < ngNumRows ng"
  shows "NodeGroup_isVisible cap cgCap transaction row ng \<longleftrightarrow>
    visible (txnStartTS transaction) (txnID transaction) (ng_ins cap ng row) \<and>
    \<not> visible (txnStartTS transaction) (txnID transaction) (ng_del cap ng row)"
proof -
  from assms(1,3,4) obtain k i where
    k: "findChunkedGroupIdxFromRowIdx cgCap row ng = Some (k, i)" "k < length (chunkedGroups ng)"
    "i < groupRows (chunkedGroups ng ! k)" "startRowIdx (chunkedGroups ng ! k) + i = row"
    by (rule find_group)
  have "row - startRowIdx (chunkedGroups ng ! k) = i" using k(4) by linarith
  with k(1,3) assms(2) ng_version_at [OF assms(1,3,4) k(1)] show ?thesis
    by (auto simp: NodeGroup_isVisible_def findChunkedGroupFromRowIdx_def ng_ins_def ng_del_def
        isInserted_group isDeleted_group Let_def)
qed

lemma total_take_drop: "total_rows (take k groups) + total_rows (drop k groups) = total_rows groups"
  by (metis append_take_drop_id total_rows_simps(3))

lemma rows_versions_take_drop:
  "r < total_rows groups \<Longrightarrow> rows_versions ver groups ! r =
     (if r < total_rows (take k groups) then rows_versions ver (take k groups) ! r
      else rows_versions ver (drop k groups) ! (r - total_rows (take k groups)))"
  by (metis append_take_drop_id rows_versions_simps(3) nth_append length_rows_versions)

lemma owned_range:
  assumes "ng_inv cap cgCap ng" "live T" "0 < n"
    and own: "\<forall>row\<in>rows_of (s, n). ng_version ver ng row \<in> T"
  shows "group_start (chunkedGroups ng) \<le> s" "s + n \<le> ngNumRows ng" "s < ngNumRows ng"
proof -
  have "INVALID_TRANSACTION \<notin> T" using assms(2) by (simp add: live_def)
  with own assms(1) have dom: "group_start (chunkedGroups ng) \<le> row \<and> row < ngNumRows ng"
    if "row \<in> rows_of (s, n)" for row
    using that by (auto simp: ng_version_def Let_def ng_inv_def ng_shape_def split: if_splits)
  have "s \<in> rows_of (s, n)" "s + n - 1 \<in> rows_of (s, n)" using assms(3) by auto
  from this [THEN dom] show "group_start (chunkedGroups ng) \<le> s" "s + n \<le> ngNumRows ng" "s < ngNumRows ng"
    by linarith+
qed

text \<open>Replacing the groups from one on by groups of the same shape.\<close>

lemma ng_version_tail:
  assumes "chunkedGroups ng' = take k (chunkedGroups ng) @ gs"
    and rows: "map groupRows gs = map groupRows (drop k (chunkedGroups ng))"
    and starts: "map startRowIdx gs = map startRowIdx (drop k (chunkedGroups ng))"
    and k: "k \<le> length (chunkedGroups ng)"
  shows "map groupRows (chunkedGroups ng') = map groupRows (chunkedGroups ng)"
    "map startRowIdx (chunkedGroups ng') = map startRowIdx (chunkedGroups ng)"
    "ng_version ver ng' row =
      (let start = group_start (chunkedGroups ng); T = total_rows (take k (chunkedGroups ng)) in
       if start + T \<le> row \<and> row < start + total_rows (chunkedGroups ng)
       then rows_versions ver gs ! (row - start - T) else ng_version ver ng row)"
proof -
  let ?gs = "chunkedGroups ng" and ?gs' = "chunkedGroups ng'"
  show r: "map groupRows ?gs' = map groupRows ?gs" and s: "map startRowIdx ?gs' = map startRowIdx ?gs"
    using assms by (simp_all flip: take_map drop_map)
  have st: "group_start ?gs' = group_start ?gs"
    using s by (cases ?gs'; cases ?gs) (simp_all add: group_start_def)
  have len: "total_rows ?gs' = total_rows ?gs" using r by (simp add: total_rows_def)
  have rv: "rows_versions ver ?gs' ! r = (if r < total_rows (take k ?gs)
      then rows_versions ver (take k ?gs) ! r else rows_versions ver gs ! (r - total_rows (take k ?gs)))" for r
    by (simp add: assms(1) nth_append)
  have "total_rows (take k ?gs) \<le> total_rows ?gs" using total_take_drop [of k ?gs] by linarith
  then show "ng_version ver ng' row =
      (let start = group_start ?gs; T = total_rows (take k ?gs) in
       if start + T \<le> row \<and> row < start + total_rows ?gs
       then rows_versions ver gs ! (row - start - T) else ng_version ver ng row)"
    using rows_versions_take_drop [of "row - group_start ?gs" ?gs ver k]
    unfolding ng_version_def Let_def st len length_rows_versions rv by (auto split: if_splits)
qed

section \<open>Operations on the versions of a row range\<close>

text \<open>
  The contract of the operations an undo record applies to a chunked group without changing its
  rows: the rows of the record take the version \<open>res c\<close>, and no row of another transaction changes.
\<close>

locale group_operation =
  fixes cap :: nat
    and ver :: "'v ChunkedNodeGroup \<Rightarrow> nat \<Rightarrow> transaction_t"
    and ver2 :: "'v ChunkedNodeGroup \<Rightarrow> nat \<Rightarrow> transaction_t"
    and func :: "'v version_op"
    and res :: "transaction_t \<Rightarrow> transaction_t"
  assumes op_rows: "group_inv cap g \<Longrightarrow> live T \<Longrightarrow> c < START_TRANSACTION_ID \<Longrightarrow> 0 < n \<Longrightarrow>
      \<forall>row\<in>rows_of (s, n). ver g row \<in> T \<Longrightarrow> groupRows (func s n c g) = groupRows g"
    and op_start: "startRowIdx (func s n c g) = startRowIdx g"
    and op_cells: "group_inv cap g \<Longrightarrow> live T \<Longrightarrow> c < START_TRANSACTION_ID \<Longrightarrow> 0 < n \<Longrightarrow>
      \<forall>row\<in>rows_of (s, n). ver g row \<in> T \<Longrightarrow> row \<in> rows_of (s, n) \<Longrightarrow> ver (func s n c g) row = res c"
    and op_frame: "group_inv cap g \<Longrightarrow> live T \<Longrightarrow> c < START_TRANSACTION_ID \<Longrightarrow> 0 < n \<Longrightarrow>
      \<forall>row\<in>rows_of (s, n). ver g row \<in> T \<Longrightarrow>
      ver (func s n c g) row = ver g row \<or> ver g row \<in> T \<and> ver (func s n c g) row = res c"
    and op_other: "group_inv cap g \<Longrightarrow> live T \<Longrightarrow> c < START_TRANSACTION_ID \<Longrightarrow> 0 < n \<Longrightarrow>
      \<forall>row\<in>rows_of (s, n). ver g row \<in> T \<Longrightarrow> ver2 (func s n c g) = ver2 g"
    and op_inv: "group_inv cap g \<Longrightarrow> live T \<Longrightarrow> c < START_TRANSACTION_ID \<Longrightarrow> 0 < n \<Longrightarrow>
      \<forall>row\<in>rows_of (s, n). ver g row \<in> T \<Longrightarrow> group_inv cap (func s n c g)"

definition dense :: "'v ChunkedNodeGroup list \<Rightarrow> bool" where
  "dense groups \<longleftrightarrow> list_all (\<lambda>g. 0 < groupRows g) (butlast groups)"

lemma dense_tail: "dense (g # groups) \<Longrightarrow> dense groups"
  by (cases groups) (simp_all add: dense_def)

lemma dense_hd: "dense groups \<Longrightarrow> 0 < total_rows groups \<Longrightarrow> groups \<noteq> [] \<and> 0 < groupRows (hd groups)"
  by (cases groups rule: list.exhaust; cases "tl groups") (auto simp: dense_def)

lemma groups_ok_dense: "groups_ok cgCap start groups \<Longrightarrow> 0 < cgCap \<Longrightarrow> dense groups"
proof (induction groups arbitrary: start)
  case (Cons g groups)
  then have "dense groups" by auto
  with Cons.prems show ?case by (cases groups) (simp_all add: dense_def)
qed (simp add: dense_def)

lemma groups_ok_drop: "groups_ok cgCap start groups \<Longrightarrow> \<exists>start'. groups_ok cgCap start' (drop k groups)"
proof (induction groups arbitrary: start k)
  case (Cons g groups)
  then show ?case by (cases k) fastforce+
qed simp

lemma layout_dense:
  assumes "layout_ok cgCap groups" "0 < cgCap" "k < length groups" "0 < groupRows (groups ! k)"
  shows "dense (drop k groups)"
proof (cases groups)
  case (Cons g gs)
  have gs: "dense (drop j gs)" for j
    using assms(1,2) Cons groups_ok_drop [of cgCap _ gs j] groups_ok_dense by fastforce
  show ?thesis
  proof (cases k)
    case 0
    with assms(4) Cons gs [of 0] show ?thesis by (cases gs) (simp_all add: dense_def)
  qed (use Cons gs in simp)
qed (use assms(3) in simp)

text \<open>Where the rows of a record start, and what the groups from there on hold.\<close>

lemma owned_split:
  assumes inv: "ng_inv cap cgCap ng" "live T" "0 < n" "\<forall>row\<in>rows_of (s, n). ng_version ver ng row \<in> T"
  obtains k i where "findChunkedGroupIdxFromRowIdx cgCap s ng = Some (k, i)"
    "k \<le> length (chunkedGroups ng)" "0 < n \<longrightarrow> i < groupRows (hd (drop k (chunkedGroups ng)))"
    "group_start (chunkedGroups ng) + total_rows (take k (chunkedGroups ng)) + i = s"
    "i + n \<le> total_rows (drop k (chunkedGroups ng))"
    "\<forall>r\<in>rows_of (i, n). rows_versions ver (drop k (chunkedGroups ng)) ! r \<in> T"
    "dense (drop k (chunkedGroups ng))" "list_all (group_inv cap) (drop k (chunkedGroups ng))"
proof -
  let ?gs = "chunkedGroups ng" and ?st = "group_start (chunkedGroups ng)"
  note range = owned_range [OF inv]
  have "ng_shape cgCap ng" using inv(1) by (simp add: ng_inv_def)
  from this range(1,3) obtain k i where
    k: "findChunkedGroupIdxFromRowIdx cgCap s ng = Some (k, i)" "k < length ?gs" "i < groupRows (?gs ! k)"
    "startRowIdx (?gs ! k) + i = s" "?st + total_rows (take k ?gs) + i = s"
    by (rule find_group)
  let ?T = "total_rows (take k ?gs)"
  note tail = ng_version_tail(3) [where ng' = ng and ver = ver, OF append_take_drop_id [symmetric] refl
      refl less_imp_le [OF k(2)], unfolded Let_def]
  have le: "i + n \<le> total_rows (drop k ?gs)"
    using range(2) k(5) total_take_drop [of k ?gs] inv(1) by (simp add: ng_inv_def ng_shape_def)
  have "\<forall>r\<in>rows_of (i, n). rows_versions ver (drop k ?gs) ! r \<in> T"
  proof
    fix r assume r: "r \<in> rows_of (i, n)"
    then have "?st + (?T + r) \<in> rows_of (s, n)" using k(5) by auto
    with inv(4) have "ng_version ver ng (?st + (?T + r)) \<in> T" by blast
    moreover have "?T + r < total_rows ?gs" using r le total_take_drop [of k ?gs] by auto
    then have "ng_version ver ng (?st + (?T + r)) = rows_versions ver (drop k ?gs) ! r"
      using tail [of "?st + (?T + r)"] by simp
    ultimately show "rows_versions ver (drop k ?gs) ! r \<in> T" by simp
  qed
  then show ?thesis
    using that [OF k(1) less_imp_le [OF k(2)] _ k(5) le] inv(1) layout_dense [of cgCap ?gs k] k(2,3)
    by (simp add: ng_inv_def ng_shape_def list_all_iff in_set_dropD [of _ k] hd_drop_conv_nth)
qed

context group_operation
begin

lemma apply_groups_versions:
  assumes t: "live T" and c: "c < START_TRANSACTION_ID"
    and "list_all (group_inv cap) groups" "dense groups" "i + n \<le> total_rows groups"
    and "0 < n \<longrightarrow> i < groupRows (hd groups)"
    and "\<forall>r\<in>rows_of (i, n). rows_versions ver groups ! r \<in> T"
    and "groups' = apply_groups func c i n groups"
  shows "map groupRows groups' = map groupRows groups \<and> map startRowIdx groups' = map startRowIdx groups \<and>
    rows_versions ver2 groups' = rows_versions ver2 groups \<and> list_all (group_inv cap) groups' \<and>
    (\<forall>r < total_rows groups.
       (r \<in> rows_of (i, n) \<longrightarrow> rows_versions ver groups' ! r = res c) \<and>
       (rows_versions ver groups' ! r = rows_versions ver groups ! r \<or>
        rows_versions ver groups ! r \<in> T \<and> rows_versions ver groups' ! r = res c))"
  using assms(3-)
proof (induction groups arbitrary: i n groups')
  case (Cons g groups)
  show ?case
  proof (cases "n = 0")
    case False
    define m where "m = min n (groupRows g - i)"
    have i: "i < groupRows g" and m: "0 < m" "m \<le> n" "i + m \<le> groupRows g"
      "n - m \<le> total_rows groups" "m < n \<Longrightarrow> i + m = groupRows g"
      using Cons.prems(3,4) False by (auto simp: m_def)
    define g' where "g' = func i m c g"
    define gs where "gs = apply_groups func c 0 (n - m) groups"
    have groups': "groups' = g' # gs"
      using Cons.prems(6) False i by (simp add: sub_u64_def Let_def m_def g'_def gs_def)
    have own: "\<forall>row\<in>rows_of (i, m). ver g row \<in> T"
    proof
      fix row assume row: "row \<in> rows_of (i, m)"
      with m have "row < groupRows g" "row \<in> rows_of (i, n)" by auto
      with Cons.prems(5) have "rows_versions ver (g # groups) ! row \<in> T" by blast
      with \<open>row < groupRows g\<close> show "ver g row \<in> T" by (simp add: nth_append)
    qed
    have inv: "group_inv cap g" using Cons.prems(1) by simp
    note op = op_rows [OF inv t c m(1) own] op_cells [OF inv t c m(1) own]
      op_frame [OF inv t c m(1) own] op_other [OF inv t c m(1) own] op_inv [OF inv t c m(1) own]
    have rest: "\<forall>r\<in>rows_of (0, n - m). rows_versions ver groups ! r \<in> T"
    proof
      fix r assume r: "r \<in> rows_of (0, n - m)"
      then have "m < n" "r < n - m" by auto
      then have "groupRows g + r \<in> rows_of (i, n)" using m(5) by auto
      with Cons.prems(5) have "rows_versions ver (g # groups) ! (groupRows g + r) \<in> T" by blast
      then show "rows_versions ver groups ! r \<in> T" by (simp add: nth_append)
    qed
    have "0 < n - m \<longrightarrow> 0 < groupRows (hd groups)"
      using dense_hd [OF dense_tail [OF Cons.prems(2)]] m(4) by auto
    then have IH: "map groupRows gs = map groupRows groups" "map startRowIdx gs = map startRowIdx groups"
      "rows_versions ver2 gs = rows_versions ver2 groups" "list_all (group_inv cap) gs"
      "r < total_rows groups \<Longrightarrow> r \<in> rows_of (0, n - m) \<Longrightarrow> rows_versions ver gs ! r = res c"
      "r < total_rows groups \<Longrightarrow> rows_versions ver gs ! r = rows_versions ver groups ! r \<or>
         rows_versions ver groups ! r \<in> T \<and> rows_versions ver gs ! r = res c" for r
      using Cons.IH [of 0 "n - m" gs] Cons.prems(1) dense_tail [OF Cons.prems(2)] m(4) rest
      by (simp_all add: gs_def)
    have g': "groupRows g' = groupRows g" "startRowIdx g' = startRowIdx g" "ver2 g' = ver2 g"
      using op(1,4) by (simp_all add: g'_def op_start)
    have "rows_versions ver groups' ! r = res c"
      if r: "r < total_rows (g # groups)" "r \<in> rows_of (i, n)" for r
    proof (cases "r < groupRows g")
      case True
      then have "r \<in> rows_of (i, m)" using r(2) by (auto simp: m_def)
      with op(2) True show ?thesis by (simp add: groups' nth_append g'(1)) (simp add: g'_def)
    next
      case ge: False
      then have "r - groupRows g \<in> rows_of (0, n - m)" "r - groupRows g < total_rows groups"
        using r m by auto
      with IH(5) ge show ?thesis by (simp add: groups' nth_append g'(1))
    qed
    moreover have "rows_versions ver groups' ! r = rows_versions ver (g # groups) ! r \<or>
        rows_versions ver (g # groups) ! r \<in> T \<and> rows_versions ver groups' ! r = res c"
      if r: "r < total_rows (g # groups)" for r
      using op(3) [of r] IH(6) [of "r - groupRows g"] r
      by (simp add: groups' nth_append g'(1)) (auto simp: g'_def)
    ultimately show ?thesis using IH(1,2,3,4) g' op(5) by (simp add: groups' g'_def)
  qed (use Cons.prems in simp)
qed simp

lemma apply_node_group:
  assumes inv: "ng_inv cap cgCap ng" and t: "live T" and c: "c < START_TRANSACTION_ID"
    and n: "0 < n" and own: "\<forall>row\<in>rows_of (s, n). ng_version ver ng row \<in> T"
    and ng': "ng' = NodeGroup_applyFuncToChunkedGroups cgCap func s n c ng"
  shows "map groupRows (chunkedGroups ng') = map groupRows (chunkedGroups ng)"
    "map startRowIdx (chunkedGroups ng') = map startRowIdx (chunkedGroups ng)"
    "ngNumRows ng' = ngNumRows ng" "ng_version ver2 ng' = ng_version ver2 ng"
    "list_all (group_inv cap) (chunkedGroups ng')"
    "row \<in> rows_of (s, n) \<Longrightarrow> ng_version ver ng' row = res c"
    "ng_version ver ng' row = ng_version ver ng row \<or>
     ng_version ver ng row \<in> T \<and> ng_version ver ng' row = res c"
proof -
  let ?gs = "chunkedGroups ng" and ?st = "group_start (chunkedGroups ng)"
  from inv t n own obtain k i where
    k: "findChunkedGroupIdxFromRowIdx cgCap s ng = Some (k, i)" "k \<le> length ?gs"
    "0 < n \<longrightarrow> i < groupRows (hd (drop k ?gs))" "?st + total_rows (take k ?gs) + i = s"
    "i + n \<le> total_rows (drop k ?gs)" "\<forall>r\<in>rows_of (i, n). rows_versions ver (drop k ?gs) ! r \<in> T"
    "dense (drop k ?gs)" "list_all (group_inv cap) (drop k ?gs)"
    by (rule owned_split)
  let ?T = "total_rows (take k ?gs)"
  define gs where "gs = apply_groups func c i n (drop k ?gs)"
  note tail = ng_version_tail(3) [where ng' = ng and ver = ver, OF append_take_drop_id [symmetric] refl
      refl k(2), unfolded Let_def]
  from apply_groups_versions [OF t c k(8,7,5,3,6) gs_def]
  have ag: "map groupRows gs = map groupRows (drop k ?gs)" "map startRowIdx gs = map startRowIdx (drop k ?gs)"
    "rows_versions ver2 gs = rows_versions ver2 (drop k ?gs)" "list_all (group_inv cap) gs"
    "r < total_rows (drop k ?gs) \<Longrightarrow> r \<in> rows_of (i, n) \<Longrightarrow> rows_versions ver gs ! r = res c"
    "r < total_rows (drop k ?gs) \<Longrightarrow> rows_versions ver gs ! r = rows_versions ver (drop k ?gs) ! r \<or>
       rows_versions ver (drop k ?gs) ! r \<in> T \<and> rows_versions ver gs ! r = res c" for r
    by blast+
  have ng'': "chunkedGroups ng' = take k ?gs @ gs" "ngNumRows ng' = ngNumRows ng"
    by (simp_all add: ng' NodeGroup_applyFuncToChunkedGroups_def k(1) gs_def)
  note tail' = ng_version_tail [OF ng''(1) ag(1,2) k(2), unfolded Let_def]
  show "map groupRows (chunkedGroups ng') = map groupRows ?gs"
    "map startRowIdx (chunkedGroups ng') = map startRowIdx ?gs" "ngNumRows ng' = ngNumRows ng"
    using tail'(1,2) ng''(2) by simp_all
  show "list_all (group_inv cap) (chunkedGroups ng')"
    using inv ag(4) by (auto simp: ng''(1) ng_inv_def list_all_iff dest: in_set_takeD)
  show "ng_version ver2 ng' = ng_version ver2 ng"
    by (rule ext, unfold tail'(3) [where ver = ver2] ag(3), rule ng_version_tail(3) [where ng' = ng
          and ver = ver2, OF append_take_drop_id [symmetric] refl refl k(2), unfolded Let_def, symmetric])
  show "ng_version ver ng' row = res c" if "row \<in> rows_of (s, n)"
  proof -
    have "row - ?st - ?T \<in> rows_of (i, n)" "?st + ?T \<le> row" "row - ?st - ?T < total_rows (drop k ?gs)"
      "row < ?st + total_rows ?gs" using that k(4,5) total_take_drop [of k ?gs] by auto
    with ag(5) show ?thesis by (simp add: tail'(3))
  qed
  show "ng_version ver ng' row = ng_version ver ng row \<or>
     ng_version ver ng row \<in> T \<and> ng_version ver ng' row = res c"
    using ag(6) [of "row - ?st - ?T"] tail [of row] total_take_drop [of k ?gs] by (auto simp: tail'(3))
qed

end

text \<open>The record of a transaction over a row range of a node group.\<close>

definition ng_owned :: "nat \<Rightarrow> nat \<Rightarrow> ('v ChunkedNodeGroup \<Rightarrow> nat \<Rightarrow> transaction_t) \<Rightarrow> transaction_t \<Rightarrow>
    nat \<times> nat \<Rightarrow> 'v NodeGroup \<Rightarrow> bool" where
  "ng_owned cap cgCap ver t r ng \<longleftrightarrow> ng_inv cap cgCap ng \<and> uncommitted t \<and> 0 < snd r \<and>
     (\<forall>row\<in>rows_of r. ng_version ver ng row = t)"

definition apply_record :: "nat \<Rightarrow> 'v version_op \<Rightarrow> transaction_t \<Rightarrow> nat \<times> nat \<Rightarrow> 'v NodeGroup \<Rightarrow> 'v NodeGroup" where
  "apply_record cgCap func c r ng =
     NodeGroup_applyFuncToChunkedGroups cgCap func (fst r) (snd r) c ng"

locale group_commit = group_operation cap ver ver2 func "\<lambda>c. c"
  for cap :: nat and ver ver2 :: "'v ChunkedNodeGroup \<Rightarrow> nat \<Rightarrow> transaction_t" and func :: "'v version_op"

sublocale group_commit < rows: stamp_store "ng_version ver" rows_of "ng_owned cap cgCap ver"
    "apply_record cgCap func"
  for cgCap
proof
  fix t r c row and s :: "'v NodeGroup"
  assume own: "ng_owned cap cgCap ver t r s" and c: "c < START_TRANSACTION_ID"
  note op = apply_node_group [where cgCap = cgCap and ng = s and T = "{t}" and c = c and n = "snd r"
      and s = "fst r", OF _ _ c _ _ refl]
  show "row \<in> rows_of r \<Longrightarrow> ng_version ver (apply_record cgCap func c r s) row = c"
    using own op(6) by (simp add: ng_owned_def apply_record_def)
  show "ng_version ver (apply_record cgCap func c r s) row = ng_version ver s row \<or>
      ng_version ver s row = t \<and> ng_version ver (apply_record cgCap func c r s) row = c"
    using own op(7) by (simp add: ng_owned_def apply_record_def)
qed

locale group_rollback = group_operation cap ver ver2 func "\<lambda>c. INVALID_TRANSACTION"
  for cap :: nat and ver ver2 :: "'v ChunkedNodeGroup \<Rightarrow> nat \<Rightarrow> transaction_t" and func :: "'v version_op"

sublocale group_rollback < rows: undo_store "ng_version ver" rows_of "ng_owned cap cgCap ver"
    "apply_record cgCap func 0"
  for cgCap
proof
  fix t r row and s :: "'v NodeGroup"
  assume own: "ng_owned cap cgCap ver t r s"
  note op = apply_node_group [where cgCap = cgCap and ng = s and T = "{t}" and c = 0 and n = "snd r"
      and s = "fst r", OF _ _ zero_less_START _ _ refl]
  show "row \<in> rows_of r \<Longrightarrow> ng_version ver (apply_record cgCap func 0 r s) row = INVALID_TRANSACTION"
    using own op(6) by (simp add: ng_owned_def apply_record_def)
  show "ng_version ver (apply_record cgCap func 0 r s) row = ng_version ver s row \<or>
      ng_version ver s row = t \<and> ng_version ver (apply_record cgCap func 0 r s) row = INVALID_TRANSACTION"
    using own op(7) by (simp add: ng_owned_def apply_record_def)
qed

interpretation ins_commit: group_commit cap "group_ins cap" "group_del cap" "ChunkedNodeGroup_commitInsert cap"
  for cap
proof
  fix g :: "'v ChunkedNodeGroup" and T c n s row
  assume own: "group_inv cap g" "live T" "0 < n" "\<forall>row\<in>rows_of (s, n). group_ins cap g row \<in> T"
    and c: "c < START_TRANSACTION_ID"
  then have "group_ins_in cap T (s, n) g" by (simp add: group_ins_in_def)
  from commitInsert_group [OF this c refl] show
    "groupRows (ChunkedNodeGroup_commitInsert cap s n c g) = groupRows g" "group_inv cap (ChunkedNodeGroup_commitInsert cap s n c g)"
    "group_del cap (ChunkedNodeGroup_commitInsert cap s n c g) = group_del cap g"
    "row \<in> rows_of (s, n) \<Longrightarrow> group_ins cap (ChunkedNodeGroup_commitInsert cap s n c g) row = c"
    "group_ins cap (ChunkedNodeGroup_commitInsert cap s n c g) row = group_ins cap g row \<or>
     group_ins cap g row \<in> T \<and> group_ins cap (ChunkedNodeGroup_commitInsert cap s n c g) row = c"
    by blast+
qed (simp add: ChunkedNodeGroup_commitInsert_def)

interpretation del_commit: group_commit cap "group_del cap" "group_ins cap" "ChunkedNodeGroup_commitDelete cap"
  for cap
proof
  fix g :: "'v ChunkedNodeGroup" and T c n s row
  assume own: "group_inv cap g" "live T" "0 < n" "\<forall>row\<in>rows_of (s, n). group_del cap g row \<in> T"
    and c: "c < START_TRANSACTION_ID"
  then have "group_del_in cap T (s, n) g" by (simp add: group_del_in_def)
  from commitDelete_group [OF this c refl] show
    "groupRows (ChunkedNodeGroup_commitDelete cap s n c g) = groupRows g" "group_inv cap (ChunkedNodeGroup_commitDelete cap s n c g)"
    "group_ins cap (ChunkedNodeGroup_commitDelete cap s n c g) = group_ins cap g"
    "row \<in> rows_of (s, n) \<Longrightarrow> group_del cap (ChunkedNodeGroup_commitDelete cap s n c g) row = c"
    "group_del cap (ChunkedNodeGroup_commitDelete cap s n c g) row = group_del cap g row \<or>
     group_del cap g row \<in> T \<and> group_del cap (ChunkedNodeGroup_commitDelete cap s n c g) row = c"
    by blast+
qed (simp add: ChunkedNodeGroup_commitDelete_def)

interpretation del_rollback: group_rollback cap "group_del cap" "group_ins cap"
    "ChunkedNodeGroup_rollbackDelete cap"
  for cap
proof
  fix g :: "'v ChunkedNodeGroup" and T c n s row
  assume own: "group_inv cap g" "live T" "0 < n" "\<forall>row\<in>rows_of (s, n). group_del cap g row \<in> T"
  then have "group_del_in cap T (s, n) g" by (simp add: group_del_in_def)
  from rollbackDelete_group [OF this refl] show
    "groupRows (ChunkedNodeGroup_rollbackDelete cap s n c g) = groupRows g" "group_inv cap (ChunkedNodeGroup_rollbackDelete cap s n c g)"
    "group_ins cap (ChunkedNodeGroup_rollbackDelete cap s n c g) = group_ins cap g"
    "row \<in> rows_of (s, n) \<Longrightarrow> group_del cap (ChunkedNodeGroup_rollbackDelete cap s n c g) row = INVALID_TRANSACTION"
    "group_del cap (ChunkedNodeGroup_rollbackDelete cap s n c g) row = group_del cap g row \<or>
     group_del cap g row \<in> T \<and>
       group_del cap (ChunkedNodeGroup_rollbackDelete cap s n c g) row = INVALID_TRANSACTION"
    by blast+
qed (simp add: ChunkedNodeGroup_rollbackDelete_def)

section \<open>Rolling back an insertion\<close>

text \<open>
  The version record handler of in-memory rows: \<^verbatim>\<open>InMemoryVersionRecordHandler::rollbackInsert\<close> applies
  the rollback to the chunked groups and then drops the groups left empty; the result is the node
  group and the number of rows rolled back, which the table subtracts from its total.
\<close>

definition InMemoryVersionRecordHandler_rollbackInsert ::
    "nat \<Rightarrow> nat \<Rightarrow> nat \<Rightarrow> nat \<Rightarrow> transaction_t \<Rightarrow> 'v NodeGroup \<Rightarrow> nat \<times> 'v NodeGroup" where
  "InMemoryVersionRecordHandler_rollbackInsert cap cgCap startRow numRows ts ng =
     (let ng = NodeGroup_applyFuncToChunkedGroups cgCap (ChunkedNodeGroup_rollbackInsert cap) startRow
                 numRows ts ng;
          numRowsToRollback = min numRows (sub_u64 (ngNumRows ng) startRow)
      in (numRowsToRollback, NodeGroup_rollbackInsert startRow ng))"

lemma apply_rollback_groups:
  assumes t: "uncommitted t"
    and "list_all (group_inv cap) groups" "dense groups" "i + n = total_rows groups"
    and "0 < n \<longrightarrow> i < groupRows (hd groups)"
    and "\<forall>r\<in>rows_of (i, n). rows_versions (group_ins cap) groups ! r = t"
    and "groups' = apply_groups (ChunkedNodeGroup_rollbackInsert cap) c i n groups"
  shows "map startRowIdx groups' = map startRowIdx groups \<and> total_rows groups' = i \<and>
    (\<forall>r < i. rows_versions (group_ins cap) groups' ! r = rows_versions (group_ins cap) groups ! r \<or>
      rows_versions (group_ins cap) groups ! r = t \<and>
      rows_versions (group_ins cap) groups' ! r = INVALID_TRANSACTION)"
  using assms(2-)
proof (induction groups arbitrary: i n groups')
  case (Cons g groups)
  show ?case
  proof (cases "n = 0")
    case False
    define m where "m = groupRows g - i"
    have i: "i < groupRows g" and m: "0 < m" "n - m = total_rows groups" "i + m = groupRows g" "m \<le> n"
      using Cons.prems(3,4) False by (auto simp: m_def)
    define g' where "g' = ChunkedNodeGroup_rollbackInsert cap i m c g"
    define gs where "gs = apply_groups (ChunkedNodeGroup_rollbackInsert cap) c 0 (n - m) groups"
    have groups': "groups' = g' # gs"
      using Cons.prems(6) False i m(3,4) by (simp add: sub_u64_def Let_def m_def g'_def gs_def min_def)
    have own: "group_ins cap g row = t" if "row \<in> rows_of (i, m)" for row
    proof -
      have "row \<in> rows_of (i, n)" "row < groupRows g" using that m by auto
      with Cons.prems(5) have "rows_versions (group_ins cap) (g # groups) ! row = t" by blast
      with \<open>row < groupRows g\<close> show ?thesis by (simp add: nth_append)
    qed
    then have "group_ins_in cap {t} (i, m) g"
      using Cons.prems(1) t m(1) by (simp add: group_ins_in_def)
    note rb = rollbackInsert_group [OF this g'_def]
    have rest: "\<forall>r\<in>rows_of (0, n - m). rows_versions (group_ins cap) groups ! r = t"
    proof
      fix r assume "r \<in> rows_of (0, n - m)"
      then have "groupRows g + r \<in> rows_of (i, n)" using m by auto
      with Cons.prems(5) have "rows_versions (group_ins cap) (g # groups) ! (groupRows g + r) = t" by blast
      then show "rows_versions (group_ins cap) groups ! r = t" by (simp add: nth_append)
    qed
    have "0 < n - m \<longrightarrow> 0 < groupRows (hd groups)"
      using dense_hd [OF dense_tail [OF Cons.prems(2)]] m(2) by auto
    then have IH: "map startRowIdx gs = map startRowIdx groups" "total_rows gs = 0"
      using Cons.IH [of 0 "n - m" gs] Cons.prems(1) dense_tail [OF Cons.prems(2)] m(2) rest
      by (simp_all add: gs_def)
    have "startRowIdx g' = startRowIdx g"
      by (simp add: g'_def ChunkedNodeGroup_rollbackInsert_def ChunkedNodeGroup_truncate_def)
    with IH rb i show ?thesis by (auto simp: groups' nth_append)
  qed (use Cons.prems in simp)
qed simp

lemma rows_versions_empty: "total_rows gs = 0 \<Longrightarrow> rows_versions ver gs = []"
  using length_rows_versions [of ver gs] by (metis length_0_conv)

text \<open>Removing the empty groups at the end changes no row.\<close>

lemma remove_trailing:
  fixes groups :: "'v ChunkedNodeGroup list"
  defines "groups' \<equiv> removeTrailingGroups (getNumEmptyTrailingGroups groupRows groups) groups"
  shows "rows_versions ver groups' = rows_versions ver groups"
    "groups' = [] \<and> total_rows groups = 0 \<or> group_start groups' = group_start groups"
proof -
  let ?e = "takeWhile (\<lambda>g. groupRows g = 0) (rev groups)"
  let ?r = "dropWhile (\<lambda>g. groupRows g = 0) (rev groups)"
  have rev: "groups = rev ?r @ rev ?e"
    by (metis rev_append rev_rev_ident takeWhile_dropWhile_id)
  have "length groups - length ?e = length (rev ?r)"
    using arg_cong [OF rev, of length] by simp
  then have g': "groups' = rev ?r"
    using arg_cong [OF rev, of "take (length (rev ?r))"]
    unfolding groups'_def removeTrailingGroups_def getNumEmptyTrailingGroups_def by simp
  have "total_rows (rev ?e) = 0" by (auto simp: total_rows_def dest: set_takeWhileD)
  then have e: "rows_versions ver (rev ?e) = []" by (rule rows_versions_empty)
  show "rows_versions ver groups' = rows_versions ver groups"
    unfolding g' by (subst (2) rev) (simp only: rows_versions_simps e append_Nil2)
  show "groups' = [] \<and> total_rows groups = 0 \<or> group_start groups' = group_start groups"
  proof (cases "groups' = []")
    case True
    then have "rev ?r = []" using g' by metis
    then have "groups = rev ?e" using rev by (metis append_Nil)
    with \<open>total_rows (rev ?e) = 0\<close> True show ?thesis by metis
  next
    case False
    then show ?thesis using rev unfolding g' group_start_def by (metis append_Cons list.case(2) neq_Nil_conv)
  qed
qed

lemma rollbackInsert_versions:
  assumes own: "ng_owned cap cgCap (group_ins cap) t (s, n) ng" and last: "s + n = ngNumRows ng"
    and ng': "ng' = snd (InMemoryVersionRecordHandler_rollbackInsert cap cgCap s n c ng)"
  shows "ngNumRows ng' = s" "s \<le> row \<Longrightarrow> ng_ins cap ng' row = INVALID_TRANSACTION"
    "ng_ins cap ng' row = ng_ins cap ng row \<or>
     ng_ins cap ng row = t \<and> ng_ins cap ng' row = INVALID_TRANSACTION"
proof -
  let ?gs = "chunkedGroups ng" and ?st = "group_start (chunkedGroups ng)" and ?ver = "group_ins cap"
  have inv: "ng_inv cap cgCap ng" "uncommitted t" "0 < n" "\<forall>row\<in>rows_of (s, n). ng_version ?ver ng row = t"
    using own by (simp_all add: ng_owned_def)
  have own': "live {t}" "\<forall>row\<in>rows_of (s, n). ng_version ?ver ng row \<in> {t}" using inv(2,4) by simp_all
  from inv(1) own'(1) inv(3) own'(2) obtain k i where
    k: "findChunkedGroupIdxFromRowIdx cgCap s ng = Some (k, i)" "k \<le> length ?gs"
    "0 < n \<longrightarrow> i < groupRows (hd (drop k ?gs))" "?st + total_rows (take k ?gs) + i = s"
    "i + n \<le> total_rows (drop k ?gs)" and k6: "\<forall>r\<in>rows_of (i, n). rows_versions ?ver (drop k ?gs) ! r \<in> {t}"
    and k78: "dense (drop k ?gs)" "list_all (group_inv cap) (drop k ?gs)"
    by (rule owned_split)
  have k6': "\<forall>r\<in>rows_of (i, n). rows_versions ?ver (drop k ?gs) ! r = t" using k6 by simp
  let ?T = "total_rows (take k ?gs)"
  define gs where "gs = apply_groups (ChunkedNodeGroup_rollbackInsert cap) c i n (drop k ?gs)"
  have len: "i + n = total_rows (drop k ?gs)" "?T + total_rows (drop k ?gs) = total_rows ?gs"
    using last k(4) total_take_drop [of k ?gs] inv(1) by (auto simp: ng_inv_def ng_shape_def)
  from apply_rollback_groups [OF inv(2) k78(2,1) len(1) k(3) k6' gs_def]
  have ag: "map startRowIdx gs = map startRowIdx (drop k ?gs)" "total_rows gs = i"
    "r < i \<Longrightarrow> rows_versions ?ver gs ! r = rows_versions ?ver (drop k ?gs) ! r \<or>
      rows_versions ?ver (drop k ?gs) ! r = t \<and> rows_versions ?ver gs ! r = INVALID_TRANSACTION" for r
    by blast+
  have groups': "chunkedGroups ng' = removeTrailingGroups
      (getNumEmptyTrailingGroups groupRows (take k ?gs @ gs)) (take k ?gs @ gs)" "ngNumRows ng' = s"
    by (simp_all add: ng' InMemoryVersionRecordHandler_rollbackInsert_def
        NodeGroup_applyFuncToChunkedGroups_def k(1) gs_def NodeGroup_rollbackInsert_def Let_def)
  show "ngNumRows ng' = s" by (rule groups'(2))
  have "map startRowIdx (take k ?gs @ gs) = map startRowIdx ?gs"
    using ag(1) by (simp flip: take_map drop_map)
  then have st: "group_start (take k ?gs @ gs) = ?st"
    by (cases "take k ?gs @ gs"; cases ?gs) (simp_all add: group_start_def)
  have ver': "ng_ins cap ng' row = (if ?st \<le> row \<and> row < s
      then rows_versions ?ver (take k ?gs @ gs) ! (row - ?st) else INVALID_TRANSACTION)" for row
    using remove_trailing [where groups = "take k ?gs @ gs"] ag(2) k(4)
    by (auto simp: ng_ins_def ng_version_def Let_def groups'(1) st)
  have ver: "ng_ins cap ng row = (if ?st \<le> row \<and> row < ?st + total_rows ?gs
      then rows_versions ?ver ?gs ! (row - ?st) else INVALID_TRANSACTION)" for row
    by (simp add: ng_ins_def ng_version_def Let_def)
  show "s \<le> row \<Longrightarrow> ng_ins cap ng' row = INVALID_TRANSACTION" by (simp add: ver')
  show "ng_ins cap ng' row = ng_ins cap ng row \<or>
     ng_ins cap ng row = t \<and> ng_ins cap ng' row = INVALID_TRANSACTION"
  proof (cases "?st \<le> row \<and> row < s")
    case True
    then have r: "row - ?st < ?T + i" "row < ?st + total_rows ?gs" "row - ?st < total_rows ?gs"
      using k(4,5) len by auto
    then show ?thesis
      using ag(3) [of "row - ?st - ?T"] rows_versions_take_drop [of "row - ?st" ?gs ?ver k] True
      by (auto simp: ver' ver nth_append)
  next
    case False
    then have "ng_ins cap ng' row = INVALID_TRANSACTION" by (auto simp: ver')
    moreover have "ng_ins cap ng row = t \<or> ng_ins cap ng row = INVALID_TRANSACTION"
    proof (cases "row \<in> rows_of (s, n)")
      case outside: False
      with False last inv(1) k(4) show ?thesis by (auto simp: ver ng_inv_def ng_shape_def)
    qed (use inv(4) in \<open>simp add: ng_ins_def\<close>)
    ultimately show ?thesis by auto
  qed
qed

definition ng_ins_last :: "nat \<Rightarrow> nat \<Rightarrow> transaction_t \<Rightarrow> nat \<times> nat \<Rightarrow> 'v NodeGroup \<Rightarrow> bool" where
  "ng_ins_last cap cgCap t r ng \<longleftrightarrow>
     ng_owned cap cgCap (group_ins cap) t r ng \<and> fst r + snd r = ngNumRows ng"

interpretation ins_rollback: undo_store "ng_ins cap" rows_of "ng_ins_last cap cgCap"
    "\<lambda>r ng. snd (InMemoryVersionRecordHandler_rollbackInsert cap cgCap (fst r) (snd r) c ng)"
  for cap cgCap c
proof
  fix t r and s :: "'v NodeGroup" and row
  assume "ng_ins_last cap cgCap t r s"
  then have "ng_owned cap cgCap (group_ins cap) t (fst r, snd r) s" "fst r + snd r = ngNumRows s"
    by (simp_all add: ng_ins_last_def)
  note rb = rollbackInsert_versions [OF this refl, where c = c]
  show "row \<in> rows_of r \<Longrightarrow> ng_ins cap (snd (InMemoryVersionRecordHandler_rollbackInsert cap cgCap
      (fst r) (snd r) c s)) row = INVALID_TRANSACTION" using rb(2) by simp
  show "ng_ins cap (snd (InMemoryVersionRecordHandler_rollbackInsert cap cgCap (fst r) (snd r) c s)) row =
      ng_ins cap s row \<or> ng_ins cap s row = t \<and>
      ng_ins cap (snd (InMemoryVersionRecordHandler_rollbackInsert cap cgCap (fst r) (snd r) c s)) row =
        INVALID_TRANSACTION" using rb(3) .
qed

section \<open>Appending\<close>

text \<open>
  The contract of the versioned appends to a chunked group that the loop over the groups relies on:
  as many rows as fit are appended, they belong to the transaction, and the rows before are kept.
\<close>

definition writer :: "'a Transaction_scheme \<Rightarrow> bool" where
  "writer transaction \<longleftrightarrow> shouldAppendToUndoBuffer transaction \<and>
     txnID transaction \<noteq> INVALID_TRANSACTION \<and> txnID transaction \<noteq> DUMMY_TRANSACTION_ID"

locale versioned_append =
  fixes cap :: nat
    and app :: "'a Transaction_scheme \<Rightarrow> nat \<Rightarrow> nat \<Rightarrow> 'v ChunkedNodeGroup \<Rightarrow>
      (exn + nat) \<times> 'v ChunkedNodeGroup"
  assumes append_returns: "writer transaction \<Longrightarrow> \<exists>m g'. app transaction start n g = (Inr m, g')"
    and append_contract: "writer transaction \<Longrightarrow> group_inv cap g \<Longrightarrow> group_appendable cap g \<Longrightarrow> 0 < n \<Longrightarrow>
      n \<le> groupCapacity g - groupRows g \<Longrightarrow> app transaction start n g = (Inr m, g') \<Longrightarrow>
      groupRows g' = groupRows g + n \<and> group_inv cap g' \<and> group_appendable cap g' \<and>
      residencyState g' = residencyState g \<and> startRowIdx g' = startRowIdx g \<and>
      groupCapacity g' = groupCapacity g \<and>
      (\<forall>row. group_del cap g' row = group_del cap g row) \<and>
      (\<forall>row < groupRows g. group_ins cap g' row = group_ins cap g row) \<and>
      (\<forall>row < groupRows g + n. groupRows g \<le> row \<longrightarrow> group_ins cap g' row = txnID transaction)"

lemma append_columns_returns: "\<exists>cs'. append_columns (\<lambda>_. None) i cols cs = (None, cs')"
  by (induction cols arbitrary: i cs) auto

lemma append_rows_with_returns:
  "\<exists>m g'. append_rows_with cap (\<lambda>_. None) versioned t n cols g = (Inr m, g')"
  using append_columns_returns [of 0 cols "chunks g"] by (auto simp: append_rows_with_def)

lemma append_rows_with_contract:
  assumes "append_rows_with cap fails True t n cols g = (Inr m, g')"
    and "group_inv cap g" "t \<noteq> INVALID_TRANSACTION" "group_appendable cap g" "0 < n"
  shows "groupRows g' = groupRows g + n \<and> group_inv cap g' \<and> group_appendable cap g' \<and>
      residencyState g' = residencyState g \<and> startRowIdx g' = startRowIdx g \<and>
      groupCapacity g' = groupCapacity g \<and>
      (\<forall>row. group_del cap g' row = group_del cap g row) \<and>
      (\<forall>row < groupRows g. group_ins cap g' row = group_ins cap g row) \<and>
      (\<forall>row < groupRows g + n. groupRows g \<le> row \<longrightarrow> group_ins cap g' row = t)"
  using append_rows_with_success [OF assms] by blast

interpretation append_vectors: versioned_append cap
    "\<lambda>transaction. ChunkedNodeGroup_appendVectors cap (\<lambda>_. None) transaction vectors"
  for cap vectors
proof (unfold_locales, goal_cases)
  case (2 transaction g n start m g')
  from 2(1,6) [unfolded writer_def ChunkedNodeGroup_appendVectors_def Let_def min_absorb1 [OF 2(5)]]
  show ?case by (intro append_rows_with_contract [OF _ 2(2) _ 2(3,4)]) auto
qed (simp add: ChunkedNodeGroup_appendVectors_def Let_def append_rows_with_returns)

interpretation append_data: versioned_append cap
    "\<lambda>transaction. ChunkedNodeGroup_appendData cap (\<lambda>_. None) transaction colIDs others"
  for cap colIDs others
proof (unfold_locales, goal_cases)
  case (2 transaction g n start m g')
  from 2(1,6) [unfolded writer_def ChunkedNodeGroup_appendData_def Let_def min_absorb1 [OF 2(5)]]
  show ?case by (intro append_rows_with_contract [OF _ 2(2) _ 2(3,4)]) auto
qed (simp add: ChunkedNodeGroup_appendData_def Let_def append_rows_with_returns)

interpretation append_chunks: versioned_append cap
    "\<lambda>transaction. ChunkedNodeGroup_appendChunks cap (\<lambda>_. None) transaction colIDs others"
  for cap colIDs others
proof (unfold_locales, goal_cases)
  case (2 transaction g n start m g')
  from 2(1,6) [unfolded writer_def ChunkedNodeGroup_appendChunks_def Let_def min_absorb1 [OF 2(5)]]
  show ?case by (intro append_rows_with_contract [OF _ 2(2) _ 2(3,4)]) auto
qed (simp add: ChunkedNodeGroup_appendChunks_def Let_def append_rows_with_returns)

definition last_ok :: "nat \<Rightarrow> nat \<Rightarrow> 'v ChunkedNodeGroup \<Rightarrow> bool" where
  "last_ok cap cgCap g \<longleftrightarrow> isFullOrOnDisk g \<or>
     groupCapacity g = cgCap \<and> groupRows g \<le> cgCap \<and> group_appendable cap g"

definition append_ok :: "nat \<Rightarrow> nat \<Rightarrow> 'v ChunkedNodeGroup list \<Rightarrow> bool" where
  "append_ok cap cgCap groups \<longleftrightarrow> 0 < cap \<and> 0 < cgCap \<and> layout_ok cgCap groups \<and>
     list_all (group_inv cap) groups \<and>
     list_all (\<lambda>g. residencyState g = IN_MEMORY \<and> groupCapacity g = cgCap) (tl groups) \<and>
     (groups \<noteq> [] \<longrightarrow> last_ok cap cgCap (last groups))"

lemma groups_ok_snoc:
  "groups_ok cgCap start (gs @ [g]) \<longleftrightarrow> groups_ok cgCap start gs \<and>
     list_all (\<lambda>g. groupRows g = cgCap) gs \<and> startRowIdx g = start + total_rows gs \<and> groupRows g \<le> cgCap"
proof (induction gs arbitrary: start)
  case (Cons a gs)
  show ?case unfolding append_Cons groups_ok.simps Cons.IH by (simp add: add.assoc) blast
qed simp

lemma layout_ok_snoc:
  "layout_ok cgCap (gs @ [g]) \<longleftrightarrow> layout_ok cgCap gs \<and> list_all (\<lambda>g. groupRows g = cgCap) (tl gs) \<and>
     (gs \<noteq> [] \<longrightarrow> startRowIdx g = group_start gs + total_rows gs \<and> groupRows g \<le> cgCap)"
  by (cases gs) (auto simp: groups_ok_snoc group_start_def)

lemma layout_full: "layout_ok cgCap gs \<Longrightarrow> list_all (\<lambda>g. groupRows g = cgCap) (tl (butlast gs))"
  by (cases gs rule: rev_cases) (auto simp: layout_ok_snoc)

lemma new_group_appendable [simp]:
  "group_inv cap (ChunkedNodeGroup_new columns cgCap start residency) \<longleftrightarrow> 0 < cap"
  "group_appendable cap (ChunkedNodeGroup_new columns cgCap start residency)"
  by (simp_all add: group_inv_def group_appendable_def ChunkedNodeGroup_new_def getOrCreateVersions_def
      appendable_def)

lemma new_group_simps [simp]:
  "residencyState (ChunkedNodeGroup_new columns cgCap start residency) = residency"
  "startRowIdx (ChunkedNodeGroup_new columns cgCap start residency) = start"
  "groupCapacity (ChunkedNodeGroup_new columns cgCap start residency) = cgCap"
  "groupRows (ChunkedNodeGroup_new columns cgCap start residency) = 0"
  by (simp_all add: ChunkedNodeGroup_new_def)

lemma group_start_append: "gs \<noteq> [] \<Longrightarrow> group_start (gs @ gs') = group_start gs"
  by (cases gs) (simp_all add: group_start_def)

text \<open>Opening a new group behind a full one keeps the rows.\<close>

lemma append_ok_open:
  assumes ok: "append_ok cap cgCap groups" "groups \<noteq> []"
    and groups': "groups' = (if groups = [] \<or> isFullOrOnDisk (last groups)
      then groups @ [ChunkedNodeGroup_new columns cgCap (group_start groups + total_rows groups) IN_MEMORY]
      else groups)"
  shows "append_ok cap cgCap groups'" "groups' \<noteq> []" "group_start groups' = group_start groups"
    "rows_versions ver groups' = rows_versions ver groups" "\<not> isFullOrOnDisk (last groups')"
    "groupCapacity (last groups') = cgCap" "groupRows (last groups') < cgCap"
    "group_appendable cap (last groups')" "group_inv cap (last groups')"
proof -
  obtain gs g where gs: "groups = gs @ [g]" using ok(2) by (cases groups rule: rev_cases) auto
  let ?new = "ChunkedNodeGroup_new columns cgCap (group_start groups + total_rows groups) IN_MEMORY"
  have tl: "tl (groups @ [?new]) = tl groups @ [?new]" using ok(2) by simp
  have open_ok: "append_ok cap cgCap (groups @ [?new])" if full: "isFullOrOnDisk g"
  proof -
    have "groupRows g = cgCap" if "gs \<noteq> []"
      using that full ok(1) by (cases gs) (auto simp: gs append_ok_def isFullOrOnDisk_def)
    then have "list_all (\<lambda>g. groupRows g = cgCap) (tl groups)"
      using ok(1) by (cases gs) (auto simp: gs append_ok_def layout_ok_snoc groups_ok_snoc)
    with ok show ?thesis unfolding append_ok_def tl layout_ok_snoc by (simp add: last_ok_def)
  qed
  then show "append_ok cap cgCap groups'" using ok(1) by (simp add: groups' gs)
  show "groups' \<noteq> []" "group_start groups' = group_start groups"
    using ok(2) by (auto simp: groups' group_start_append)
  show "rows_versions ver groups' = rows_versions ver groups" by (simp add: groups')
  show "\<not> isFullOrOnDisk (last groups')" "groupCapacity (last groups') = cgCap"
    "groupRows (last groups') < cgCap" "group_appendable cap (last groups')" "group_inv cap (last groups')"
    using ok by (auto simp: groups' append_ok_def last_ok_def gs isFullOrOnDisk_def)
qed

text \<open>Appending to the last group.\<close>

lemma append_ok_step:
  assumes ok: "append_ok cap cgCap groups" "groups \<noteq> []" "\<not> isFullOrOnDisk (last groups)"
    and n: "0 < n" "groupRows (last groups) + n \<le> cgCap" "groupCapacity (last groups) = cgCap"
    and g': "groupRows g' = groupRows (last groups) + n" "group_inv cap g'" "group_appendable cap g'"
      "residencyState g' = residencyState (last groups)" "startRowIdx g' = startRowIdx (last groups)"
      "groupCapacity g' = groupCapacity (last groups)"
    and ver: "\<forall>row < groupRows (last groups). ver g' row = ver (last groups) row"
      "\<forall>row < groupRows (last groups) + n. groupRows (last groups) \<le> row \<longrightarrow> ver g' row = x"
  shows "append_ok cap cgCap (butlast groups @ [g'])"
    "group_start (butlast groups @ [g']) = group_start groups"
    "rows_versions ver (butlast groups @ [g']) = rows_versions ver groups @ replicate n x"
proof -
  obtain gs g where gs: "groups = gs @ [g]" using ok(2) by (cases groups rule: rev_cases) auto
  show "append_ok cap cgCap (butlast groups @ [g'])"
    using ok n g' by (cases gs) (auto simp: gs append_ok_def layout_ok_snoc groups_ok_snoc last_ok_def)
  show "group_start (butlast groups @ [g']) = group_start groups"
    using g'(5) by (cases gs) (simp_all add: gs group_start_def)
  have "map (ver g') [0..<groupRows g + n] = map (ver g) [0..<groupRows g] @ replicate n x"
    using ver by (intro nth_equalityI) (auto simp: gs nth_append)
  then show "rows_versions ver (butlast groups @ [g']) = rows_versions ver groups @ replicate n x"
    using g'(1) by (simp add: gs)
qed

lemma group_del_outside: "groupRows g \<le> row \<Longrightarrow> group_del cap g row = INVALID_TRANSACTION"
  by (simp add: group_del_def)

context versioned_append
begin

lemma append_loop_rows:
  assumes w: "writer transaction" and "appended \<le> toAppend"
    and "append_ok cap cgCap groups" "groups \<noteq> []"
    and "group_start groups + total_rows groups = before + appended"
  shows "\<exists>groups'. append_loop cgCap (app transaction) columns before start toAppend appended groups =
      Some (Inr toAppend, groups') \<and> append_ok cap cgCap groups' \<and> groups' \<noteq> [] \<and>
    group_start groups' = group_start groups \<and>
    rows_versions (group_ins cap) groups' =
      rows_versions (group_ins cap) groups @ replicate (toAppend - appended) (txnID transaction) \<and>
    rows_versions (group_del cap) groups' =
      rows_versions (group_del cap) groups @ replicate (toAppend - appended) INVALID_TRANSACTION"
  using assms(2-)
proof (induction "toAppend - appended" arbitrary: appended groups rule: less_induct)
  case less
  show ?case
  proof (cases "appended < toAppend")
    case False
    with less.prems show ?thesis by (subst append_loop.simps) simp
  next
    case True
    define groups1 where "groups1 = (if groups = [] \<or> isFullOrOnDisk (last groups)
      then groups @ [ChunkedNodeGroup_new columns cgCap (before + appended) IN_MEMORY] else groups)"
    note opened = append_ok_open [OF less.prems(2,3), where columns = columns, unfolded less.prems(4),
        OF groups1_def]
    define n where "n = min (toAppend - appended) (sub_u64 cgCap (groupRows (last groups1)))"
    have n: "0 < n" "groupRows (last groups1) + n \<le> cgCap" "appended + n \<le> toAppend"
      "n \<le> groupCapacity (last groups1) - groupRows (last groups1)"
      using opened(6,7) True by (auto simp: n_def sub_u64_def)
    obtain m g' where app: "app transaction (start + appended) n (last groups1) = (Inr m, g')"
      using append_returns [OF w] by blast
    note g' = append_contract [OF w opened(9,8) n(1,4) app]
    let ?groups = "butlast groups1 @ [g']"
    note step = append_ok_step [where g' = g', OF opened(1,2,5) n(1,2) opened(6)]
    have ins: "append_ok cap cgCap ?groups" "group_start ?groups = group_start groups"
      "rows_versions (group_ins cap) ?groups =
        rows_versions (group_ins cap) groups @ replicate n (txnID transaction)"
      using step [where ver = "group_ins cap" and x = "txnID transaction"] g' opened(3,4) by simp_all
    have del: "rows_versions (group_del cap) ?groups =
        rows_versions (group_del cap) groups @ replicate n INVALID_TRANSACTION"
      using step(3) [where ver = "group_del cap" and x = INVALID_TRANSACTION] g' opened(4)
      by (simp add: group_del_outside)
    have tot: "group_start ?groups + total_rows ?groups = before + (appended + n)"
      using arg_cong [OF ins(3), of length] ins(2) less.prems(4)
      by (simp only: length_rows_versions length_append length_replicate)
    have loop: "append_loop cgCap (app transaction) columns before start toAppend appended groups =
        append_loop cgCap (app transaction) columns before start toAppend (appended + n) ?groups"
      by (subst append_loop.simps)
        (simp only: True if_True Let_def groups1_def [symmetric] n_def [symmetric] app prod.case sum.case)
    have "toAppend - (appended + n) < toAppend - appended" using n(1) True by simp
    from less.hyps [OF this n(3) ins(1) _ tot] show ?thesis
      using n(3) unfolding loop ins(2,3) del
      by (simp del: append_loop.simps add: replicate_add [symmetric])
  qed
qed

lemma append_with_rows:
  assumes w: "writer transaction" and ready: "ng_inv cap cgCap ng" "append_ok cap cgCap (chunkedGroups ng)"
  shows "\<exists>ng'. append_with cgCap (app transaction) start n ng = Some (Inr (ngNumRows ng), ng') \<and>
    ng_inv cap cgCap ng' \<and> append_ok cap cgCap (chunkedGroups ng') \<and>
    ngNumRows ng' = ngNumRows ng + n \<and> ng_del cap ng' = ng_del cap ng \<and>
    ng_ins cap ng' = (\<lambda>row. if ngNumRows ng \<le> row \<and> row < ngNumRows ng + n then txnID transaction
                          else ng_ins cap ng row) \<and>
    group_start (chunkedGroups ng') = group_start (chunkedGroups ng)"
proof -
  define groups where "groups = (if chunkedGroups ng = []
    then [ChunkedNodeGroup_new (numColumns ng) cgCap 0 IN_MEMORY] else chunkedGroups ng)"
  have ok: "append_ok cap cgCap groups" "groups \<noteq> []"
    using ready by (auto simp: groups_def append_ok_def last_ok_def ng_inv_def)
  have same: "group_start groups = group_start (chunkedGroups ng)"
    "rows_versions ver groups = rows_versions ver (chunkedGroups ng)"
    "total_rows groups = total_rows (chunkedGroups ng)" for ver
    by (auto simp: groups_def group_start_def)
  have tot: "group_start groups + total_rows groups = ngNumRows ng + 0"
    using ready(1) same by (simp add: ng_inv_def ng_shape_def)
  from append_loop_rows [OF w le0 ok tot] obtain groups' where
    loop: "append_loop cgCap (app transaction) (numColumns ng) (ngNumRows ng) start n 0 groups =
      Some (Inr n, groups')"
    and g': "append_ok cap cgCap groups'" "groups' \<noteq> []" "group_start groups' = group_start groups"
      "rows_versions (group_ins cap) groups' = rows_versions (group_ins cap) groups @
        replicate (n - 0) (txnID transaction)"
      "rows_versions (group_del cap) groups' = rows_versions (group_del cap) groups @
        replicate (n - 0) INVALID_TRANSACTION" by blast
  let ?ng = "ng\<lparr>chunkedGroups := groups', ngNumRows := ngNumRows ng + n\<rparr>"
  have aw: "append_with cgCap (app transaction) start n ng = Some (Inr (ngNumRows ng), ?ng)"
    by (simp add: append_with_def Let_def groups_def [symmetric] loop)
  have len: "total_rows groups' = total_rows (chunkedGroups ng) + n"
    using arg_cong [OF g'(4), of length] same(3) by simp
  then have "ng_inv cap cgCap ?ng"
    using g'(1,3) tot same by (simp add: ng_inv_def ng_shape_def append_ok_def)
  moreover have "ng_ins cap ?ng row = (if ngNumRows ng \<le> row \<and> row < ngNumRows ng + n
      then txnID transaction else ng_ins cap ng row)" "ng_del cap ?ng row = ng_del cap ng row" for row
    using g'(3-5) tot len same
    by (auto simp: ng_ins_def ng_del_def ng_version_def Let_def nth_append)
  ultimately show ?thesis using aw g'(1,3) same(1) by (auto simp: fun_eq_iff)
qed

end

section \<open>Properties\<close>

lemma groups_ok_cong:
  "map groupRows gs = map groupRows gs' \<Longrightarrow> map startRowIdx gs = map startRowIdx gs' \<Longrightarrow>
    groups_ok cgCap start gs = groups_ok cgCap start gs'"
proof (induction gs arbitrary: start gs')
  case (Cons g gs)
  then show ?case by (cases gs') (auto simp: map_eq_Cons_conv)
qed simp

lemma ng_shape_cong:
  assumes "map groupRows (chunkedGroups ng) = map groupRows (chunkedGroups ng')"
    "map startRowIdx (chunkedGroups ng) = map startRowIdx (chunkedGroups ng')" "ngNumRows ng = ngNumRows ng'"
  shows "ng_shape cgCap ng = ng_shape cgCap ng'"
    "group_start (chunkedGroups ng) = group_start (chunkedGroups ng')"
proof -
  have "layout_ok cgCap (chunkedGroups ng) = layout_ok cgCap (chunkedGroups ng')"
    using assms(1,2) groups_ok_cong [of "tl (chunkedGroups ng)" "tl (chunkedGroups ng')"]
    by (cases "chunkedGroups ng"; cases "chunkedGroups ng'") simp_all
  moreover show "group_start (chunkedGroups ng) = group_start (chunkedGroups ng')"
    using assms(2) by (cases "chunkedGroups ng"; cases "chunkedGroups ng'") (simp_all add: group_start_def)
  ultimately show "ng_shape cgCap ng = ng_shape cgCap ng'"
    using assms by (simp add: ng_shape_def total_rows_def)
qed

lemma groups_ok_start:
  "groups_ok cgCap start gs \<Longrightarrow> k < length gs \<Longrightarrow> startRowIdx (gs ! k) = start + total_rows (take k gs)"
proof (induction gs arbitrary: start k)
  case (Cons g gs)
  then show ?case by (cases k) (auto simp: add.assoc)
qed simp

lemma layout_start:
  "layout_ok cgCap gs \<Longrightarrow> k < length gs \<Longrightarrow> startRowIdx (gs ! k) = group_start gs + total_rows (take k gs)"
  using groups_ok_start [of cgCap _ "tl gs" "k - 1"]
  by (cases gs; cases k) (auto simp: group_start_def)

lemma total_take_Suc: "k < length gs \<Longrightarrow> total_rows (take (Suc k) gs) = total_rows (take k gs) + groupRows (gs ! k)"
  by (simp add: take_Suc_conv_app_nth)

lemma total_take_mono: "k \<le> k' \<Longrightarrow> total_rows (take k gs) \<le> total_rows (take k' gs)"
  by (metis total_take_drop le_add1 min_absorb1 take_take)

lemma row_position_unique:
  assumes "k < length gs" "i < groupRows (gs ! k)" "k' < length gs" "i' < groupRows (gs ! k')"
    and "total_rows (take k gs) + i = total_rows (take k' gs) + i'"
  shows "k = k' \<and> i = i'"
proof -
  have "k \<le> k'"
  proof (rule ccontr)
    assume "\<not> k \<le> k'"
    with total_take_mono [of "Suc k'" k gs] total_take_Suc [OF assms(3)] assms(4,5) show False by simp
  qed
  moreover have "k' \<le> k"
  proof (rule ccontr)
    assume "\<not> k' \<le> k"
    with total_take_mono [of "Suc k" k' gs] total_take_Suc [OF assms(1)] assms(2,5) show False by simp
  qed
  ultimately show ?thesis using assms(5) by simp
qed

text \<open>
  C22: every row of a node group is found in the chunked group that holds it: the division by the
  group capacity that locates it agrees with the running row counts of the groups.
\<close>

theorem find_locates_row:
  assumes "ng_shape cgCap ng" "k < length (chunkedGroups ng)" "i < groupRows (chunkedGroups ng ! k)"
  shows "findChunkedGroupIdxFromRowIdx cgCap (startRowIdx (chunkedGroups ng ! k) + i) ng = Some (k, i)"
proof -
  let ?gs = "chunkedGroups ng"
  have st: "startRowIdx (?gs ! k) = group_start ?gs + total_rows (take k ?gs)"
    using assms(1,2) layout_start by (auto simp: ng_shape_def)
  have "total_rows (take (Suc k) ?gs) \<le> total_rows ?gs"
    using total_take_drop [of "Suc k" ?gs] by linarith
  then have "startRowIdx (?gs ! k) + i < ngNumRows ng" "group_start ?gs \<le> startRowIdx (?gs ! k) + i"
    using assms st total_take_Suc [OF assms(2)] by (auto simp: ng_shape_def)
  with assms(1) obtain k' i' where
    f: "findChunkedGroupIdxFromRowIdx cgCap (startRowIdx (?gs ! k) + i) ng = Some (k', i')"
      "k' < length ?gs" "i' < groupRows (?gs ! k')"
      "group_start ?gs + total_rows (take k' ?gs) + i' = startRowIdx (?gs ! k) + i"
    by (metis find_group)
  from f(4) st have "total_rows (take k ?gs) + i = total_rows (take k' ?gs) + i'" by linarith
  from row_position_unique [OF assms(2,3) f(2,3) this] f(1) show ?thesis by simp
qed

definition node_group_example :: "nat NodeGroup" where
  "node_group_example = snd (the (NodeGroup_appendVectors 2 2 (\<lambda>_. None) example_transaction
     [map Some [0..<3]] 0 3 (NodeGroup_new 0 1 16)))"

theorem find_locates_row_witness:
  "findChunkedGroupIdxFromRowIdx 2 (startRowIdx (chunkedGroups node_group_example ! 1) + 0)
     node_group_example = Some (1, 0)"
  by (rule find_locates_row) code_simp+

text \<open>
  C21: appending rows to a node group returns, whatever the number of rows and however full the last
  chunked group is; it returns the first row's index, adds exactly the rows, gives all of them to
  the appending transaction, changes no other row and no deletion, and keeps the node group ready
  for the next append.
\<close>

theorem node_group_append_returns:
  assumes "ng_inv cap cgCap ng" "append_ok cap cgCap (chunkedGroups ng)" "writer transaction"
  shows "\<exists>ng'. NodeGroup_appendVectors cap cgCap (\<lambda>_. None) transaction vectors start n ng =
      Some (Inr (ngNumRows ng), ng') \<and>
    ng_inv cap cgCap ng' \<and> append_ok cap cgCap (chunkedGroups ng') \<and>
    ngNumRows ng' = ngNumRows ng + n \<and> ng_del cap ng' = ng_del cap ng \<and>
    ng_ins cap ng' = (\<lambda>row. if ngNumRows ng \<le> row \<and> row < ngNumRows ng + n then txnID transaction
                          else ng_ins cap ng row)"
  using append_vectors.append_with_rows [OF assms(3,1,2)] unfolding NodeGroup_appendVectors_def by blast

theorem node_group_append_returns_witness:
  "\<exists>ng'. NodeGroup_appendVectors 2 4 (\<lambda>_. None) example_transaction [[Some 1, Some 2, Some (3 :: nat)]] 0 3
      (NodeGroup_new 0 1 8) = Some (Inr (ngNumRows (NodeGroup_new 0 1 8 :: nat NodeGroup)), ng') \<and>
    ng_inv 2 4 ng' \<and> append_ok 2 4 (chunkedGroups ng') \<and>
    ngNumRows ng' = ngNumRows (NodeGroup_new 0 1 8 :: nat NodeGroup) + 3 \<and>
    ng_del 2 ng' = ng_del 2 (NodeGroup_new 0 1 8 :: nat NodeGroup) \<and>
    ng_ins 2 ng' = (\<lambda>row. if ngNumRows (NodeGroup_new 0 1 8 :: nat NodeGroup) \<le> row \<and>
        row < ngNumRows (NodeGroup_new 0 1 8 :: nat NodeGroup) + 3 then txnID example_transaction
      else ng_ins 2 (NodeGroup_new 0 1 8 :: nat NodeGroup) row)"
  by (rule node_group_append_returns)
    (simp add: ng_inv_def ng_shape_def NodeGroup_new_def group_start_def, simp add: append_ok_def NodeGroup_new_def,
     code_simp)

text \<open>
  C10: when a transaction's appended rows commit with timestamp \<open>c\<close> through the record handler, every
  other transaction sees each of them exactly if it started at or after \<open>c\<close>, and sees the rows that
  were there before as it saw them before.
\<close>

theorem node_group_insert_commit:
  assumes "ng_inv cap cgCap ng" "append_ok cap cgCap (chunkedGroups ng)" "writer transaction"
    and "uncommitted (txnID transaction)" "0 < n" "c < START_TRANSACTION_ID"
    and "NodeGroup_appendVectors cap cgCap (\<lambda>_. None) transaction vectors start n ng = Some (r, ng')"
    and "ng'' = NodeGroup_applyFuncToChunkedGroups cgCap (ChunkedNodeGroup_commitInsert cap)
      (ngNumRows ng) n c ng'"
    and "snapshot_ok (txnStartTS reader) (txnID reader)" "txnID reader \<noteq> txnID transaction"
    and "group_start (chunkedGroups ng) \<le> row"
  shows "(row < ngNumRows ng \<longrightarrow> txnStartTS reader < c \<or> ng_ins cap ng row \<noteq> txnID transaction \<longrightarrow>
      NodeGroup_isVisible cap cgCap reader row ng'' = NodeGroup_isVisible cap cgCap reader row ng) \<and>
    (ngNumRows ng \<le> row \<and> row < ngNumRows ng + n \<longrightarrow>
      (NodeGroup_isVisible cap cgCap reader row ng'' \<longleftrightarrow> c \<le> txnStartTS reader))"
proof -
  let ?t = "txnID transaction" and ?see = "visible (txnStartTS reader) (txnID reader)"
  from append_vectors.append_with_rows [OF assms(3,1,2), of vectors start n] assms(7)
  have ng': "ng_inv cap cgCap ng'" "ngNumRows ng' = ngNumRows ng + n" "ng_del cap ng' = ng_del cap ng"
    "ng_ins cap ng' = (\<lambda>row. if ngNumRows ng \<le> row \<and> row < ngNumRows ng + n then ?t else ng_ins cap ng row)"
    "group_start (chunkedGroups ng') = group_start (chunkedGroups ng)"
    by (auto simp: NodeGroup_appendVectors_def)
  have "\<forall>row\<in>rows_of (ngNumRows ng, n). ng_version (group_ins cap) ng' row \<in> {?t}"
    using ng'(4) by (simp add: ng_ins_def fun_eq_iff)
  note ap = ins_commit.apply_node_group [OF ng'(1) live_uncommitted [OF assms(4)] assms(6,5) this assms(8)]
  note cong = ng_shape_cong [OF ap(1-3)]
  have shape: "ng_shape cgCap ng" "ng_shape cgCap ng''" using assms(1) ng'(1) cong(1) by (simp_all add: ng_inv_def)
  have vis'': "NodeGroup_isVisible cap cgCap reader row ng'' \<longleftrightarrow>
      ?see (ng_ins cap ng'' row) \<and> \<not> ?see (ng_del cap ng row)" if "row < ngNumRows ng + n"
    using NodeGroup_isVisible_iff [OF shape(2) assms(9), of row] that assms(11) cong(2) ng'(2,3,5) ap(3,4)
    by (simp add: ng_del_def)
  have vis: "NodeGroup_isVisible cap cgCap reader row ng \<longleftrightarrow>
      ?see (ng_ins cap ng row) \<and> \<not> ?see (ng_del cap ng row)" if "row < ngNumRows ng"
    using NodeGroup_isVisible_iff [OF shape(1) assms(9,11) that] .
  have hid: "\<not> ?see ?t" "?see c \<longleftrightarrow> c \<le> txnStartTS reader"
    using visible_other_uncommitted [OF assms(9)] visible_committed [OF assms(9,6)] assms(4,10)
    by (auto simp: uncommitted_def)
  have old: "ng_ins cap ng'' row = ng_ins cap ng row \<or> ng_ins cap ng row = ?t \<and> ng_ins cap ng'' row = c"
    if "row < ngNumRows ng" using ap(7) [of row] ng'(4) that by (simp add: ng_ins_def fun_eq_iff)
  have new: "ng_ins cap ng'' row = c" "\<not> ?see (ng_del cap ng row)"
    if "ngNumRows ng \<le> row" "row < ngNumRows ng + n"
  proof -
    show "ng_ins cap ng'' row = c" using ap(6) [of row] that by (simp add: ng_ins_def)
    have "ng_del cap ng row = INVALID_TRANSACTION"
      using that shape(1) by (simp add: ng_del_def ng_version_def ng_shape_def)
    with assms(9) show "\<not> ?see (ng_del cap ng row)" by simp
  qed
  show ?thesis using vis vis'' old new hid by auto
qed

theorem node_group_insert_commit_witness:
  "let ng' = snd (the (NodeGroup_appendVectors 2 4 (\<lambda>_. None) example_transaction [[Some 5, Some 6]] 0 2
         (NodeGroup_new 0 1 16 :: nat NodeGroup)));
       ng'' = NodeGroup_applyFuncToChunkedGroups 4 (ChunkedNodeGroup_commitInsert 2) 0 2 7 ng';
       reader = example_transaction\<lparr>txnID := START_TRANSACTION_ID + 1, txnStartTS := 9\<rparr>
   in NodeGroup_isVisible 2 4 reader 1 ng''"
proof -
  let ?ng = "NodeGroup_new 0 1 16 :: nat NodeGroup"
  let ?reader = "example_transaction\<lparr>txnID := START_TRANSACTION_ID + 1, txnStartTS := 9\<rparr>"
  let ?a = "NodeGroup_appendVectors 2 4 (\<lambda>_. None) example_transaction [[Some 5, Some 6]] 0 2 ?ng"
  have ng: "ng_inv 2 4 ?ng" "append_ok 2 4 (chunkedGroups ?ng)"
    by (simp_all add: ng_inv_def ng_shape_def NodeGroup_new_def group_start_def append_ok_def)
  have h: "writer example_transaction" "uncommitted (txnID example_transaction)" "0 < (2 :: nat)"
    "7 < START_TRANSACTION_ID" "snapshot_ok (txnStartTS ?reader) (txnID ?reader)"
    "txnID ?reader \<noteq> txnID example_transaction" "group_start (chunkedGroups ?ng) \<le> 1" by code_simp+
  have a: "?a = Some (fst (the ?a), snd (the ?a))"
    using append_vectors.append_with_rows [OF h(1) ng, of "[[Some 5, Some 6]]" 0 2]
    by (auto simp: NodeGroup_appendVectors_def)
  from node_group_insert_commit [OF ng h(1-4) a refl h(5-7)] show ?thesis
    by (simp add: Let_def NodeGroup_new_def)
qed

end
