(* ===== verification/Case_Map.thy ===== *)
theory Case_Map
  imports Ryu_Prelude
begin

text \<open>
  Maps keyed by names that differ in more than the case of their ASCII letters
  (\<^verbatim>\<open>common/case_insensitive_map.cpp\<close>, \<^verbatim>\<open>StringUtils::caseInsensitiveEquals\<close>): the unordered map is the
  list of its entries in iteration order, which the code leaves open, and no two keys are equal up
  to case.
\<close>

definition asciiToLowerCase :: "char \<Rightarrow> nat" where
  "asciiToLowerCase c =
     (let n = of_char c in if 65 \<le> n \<and> n \<le> 90 then n + 32 else n)"

definition caseInsensitiveEquals :: "string \<Rightarrow> string \<Rightarrow> bool" where
  "caseInsensitiveEquals left right \<longleftrightarrow> length left = length right \<and>
     list_all (\<lambda>(l, r). asciiToLowerCase l = asciiToLowerCase r) (zip left right)"

type_synonym 'v case_insensitive_map = "(string \<times> 'v) list"

fun ci_at :: "'v case_insensitive_map \<Rightarrow> string \<Rightarrow> 'v option" where
  "ci_at [] name = None"
| "ci_at (kv # m) name = (if caseInsensitiveEquals (fst kv) name then Some (snd kv) else ci_at m name)"

definition ci_contains :: "'v case_insensitive_map \<Rightarrow> string \<Rightarrow> bool" where
  "ci_contains m name \<longleftrightarrow> ci_at m name \<noteq> None"

definition ci_emplace :: "string \<Rightarrow> 'v \<Rightarrow> 'v case_insensitive_map \<Rightarrow> 'v case_insensitive_map" where
  "ci_emplace name v m = (if ci_contains m name then m else m @ [(name, v)])"

definition ci_erase :: "string \<Rightarrow> 'v case_insensitive_map \<Rightarrow> 'v case_insensitive_map" where
  "ci_erase name m = filter (\<lambda>kv. \<not> caseInsensitiveEquals (fst kv) name) m"

section \<open>Laws\<close>

lemma caseInsensitiveEquals_iff:
  "caseInsensitiveEquals l r \<longleftrightarrow> map asciiToLowerCase l = map asciiToLowerCase r"
proof (induction l arbitrary: r)
  case (Cons a l)
  then show ?case by (cases r) (auto simp: caseInsensitiveEquals_def)
qed (simp add: caseInsensitiveEquals_def)

lemma ci_refl [simp]: "caseInsensitiveEquals n n"
  by (simp add: caseInsensitiveEquals_iff)

lemma ci_sym: "caseInsensitiveEquals l r = caseInsensitiveEquals r l"
  by (auto simp: caseInsensitiveEquals_iff)

lemma ci_trans: "caseInsensitiveEquals l r \<Longrightarrow> caseInsensitiveEquals l n = caseInsensitiveEquals r n"
  by (simp add: caseInsensitiveEquals_iff)

lemma ci_trans2: "caseInsensitiveEquals l r \<Longrightarrow> caseInsensitiveEquals n l = caseInsensitiveEquals n r"
  by (simp add: caseInsensitiveEquals_iff)

lemma ci_at_cong: "caseInsensitiveEquals l r \<Longrightarrow> ci_at m l = ci_at m r"
  by (induction m) (simp_all add: ci_trans2)

lemma ci_at_append: "ci_at (m @ m') n = (case ci_at m n of None \<Rightarrow> ci_at m' n | Some v \<Rightarrow> Some v)"
  by (induction m) simp_all

lemma ci_at_None_iff: "ci_at m n = None \<longleftrightarrow> (\<forall>kv\<in>set m. \<not> caseInsensitiveEquals (fst kv) n)"
  by (induction m) auto

lemma ci_at_emplace:
  "ci_at (ci_emplace k v m) n =
     (if caseInsensitiveEquals k n \<and> \<not> ci_contains m k then Some v else ci_at m n)"
  using ci_at_cong [of k n m]
  by (auto simp: ci_emplace_def ci_contains_def ci_at_append split: option.split)

lemma ci_at_erase: "ci_at (ci_erase k m) n = (if caseInsensitiveEquals k n then None else ci_at m n)"
  by (induction m) (auto simp: ci_erase_def caseInsensitiveEquals_iff)

lemma ci_contains_emplace:
  "ci_contains (ci_emplace k v m) n \<longleftrightarrow> caseInsensitiveEquals k n \<or> ci_contains m n"
  using ci_at_cong [of k n m] by (auto simp: ci_contains_def ci_at_emplace)

lemma ci_contains_erase:
  "ci_contains (ci_erase k m) n \<longleftrightarrow> \<not> caseInsensitiveEquals k n \<and> ci_contains m n"
  by (auto simp: ci_contains_def ci_at_erase)

text \<open>The keys of a map are pairwise different up to case.\<close>

definition ci_distinct :: "'v case_insensitive_map \<Rightarrow> bool" where
  "ci_distinct m \<longleftrightarrow> distinct (map (map asciiToLowerCase \<circ> fst) m)"

lemma ci_distinct_Nil [simp]: "ci_distinct []"
  by (simp add: ci_distinct_def)

lemma ci_distinct_emplace [simp]: "ci_distinct m \<Longrightarrow> ci_distinct (ci_emplace k v m)"
  by (auto simp: ci_distinct_def ci_emplace_def ci_contains_def ci_at_None_iff caseInsensitiveEquals_iff)

lemma ci_distinct_erase [simp]: "ci_distinct m \<Longrightarrow> ci_distinct (ci_erase k m)"
  by (auto simp: ci_distinct_def ci_erase_def distinct_map_filter)

lemma ci_at_mem: "ci_distinct m \<Longrightarrow> (k, v) \<in> set m \<Longrightarrow> ci_at m k = Some v"
proof (induction m)
  case (Cons kv m)
  show ?case
  proof (cases "(k, v) = kv")
    case False
    then have "(k, v) \<in> set m" using Cons.prems by simp
    moreover from this have "\<not> caseInsensitiveEquals (fst kv) k"
      using Cons.prems(1) by (force simp: ci_distinct_def caseInsensitiveEquals_iff)
    moreover have "ci_distinct m" using Cons.prems(1) by (simp add: ci_distinct_def)
    ultimately show ?thesis using Cons.IH by simp
  qed auto
qed simp

lemma ci_at_SomeD: "ci_at m n = Some v \<Longrightarrow> \<exists>k. (k, v) \<in> set m \<and> caseInsensitiveEquals k n"
  by (induction m) (auto split: if_splits)

end
