(* ===== verification/Property_Collection.thy ===== *)
theory Property_Collection
  imports Case_Map Serializer
begin

text \<open>
  The properties of a table (\<^verbatim>\<open>catalog/property_definition_collection.cpp\<close>): definitions keyed by a
  property id that is never reused, the column each property is stored in, and the names. The
  logical type and the default expression of a property are one value of the type \<open>'d\<close>, written
  and read by the functions given for it. \<^verbatim>\<open>std::map\<close> is the list of its entries in key order,
  \<^verbatim>\<open>at\<close> on a key that is not there is None.
\<close>

type_synonym property_id_t = "32 word"

record 'd PropertyDefinition =
  propName :: string
  propDef :: 'd

definition PropertyDefinition_rename :: "string \<Rightarrow> 'd PropertyDefinition \<Rightarrow> 'd PropertyDefinition" where
  "PropertyDefinition_rename newName d = d\<lparr>propName := newName\<rparr>"

record 'd PropertyDefinitionCollection =
  nextColumnID :: "32 word"
  nextPropertyID :: property_id_t
  definitions :: "(property_id_t \<times> 'd PropertyDefinition) list"
  columnIDs :: "(property_id_t \<times> 32 word) list"
  nameToPropertyIDMap :: "property_id_t case_insensitive_map"

definition PropertyDefinitionCollection_new :: "32 word \<Rightarrow> 'd PropertyDefinitionCollection" where
  "PropertyDefinitionCollection_new next =
     \<lparr>nextColumnID = next, nextPropertyID = 0, definitions = [], columnIDs = [], nameToPropertyIDMap = []\<rparr>"

text \<open>\<^verbatim>\<open>std::map::emplace\<close>: a new key is put at its place in the order, an old one keeps its value.\<close>

fun map_emplace :: "'k :: linorder \<Rightarrow> 'v \<Rightarrow> ('k \<times> 'v) list \<Rightarrow> ('k \<times> 'v) list" where
  "map_emplace k v [] = [(k, v)]"
| "map_emplace k v ((k', v') # m) =
     (if k < k' then (k, v) # (k', v') # m else if k = k' then (k', v') # m
      else (k', v') # map_emplace k v m)"

definition map_erase :: "'k \<Rightarrow> ('k \<times> 'v) list \<Rightarrow> ('k \<times> 'v) list" where
  "map_erase k m = filter (\<lambda>kv. fst kv \<noteq> k) m"

section \<open>Operations\<close>

definition pc_contains :: "'d PropertyDefinitionCollection \<Rightarrow> string \<Rightarrow> bool" where
  "pc_contains pc name \<longleftrightarrow> ci_contains (nameToPropertyIDMap pc) name"

definition pc_size :: "'d PropertyDefinitionCollection \<Rightarrow> nat" where
  "pc_size pc = length (definitions pc)"

definition getDefinitions :: "'d PropertyDefinitionCollection \<Rightarrow> 'd PropertyDefinition list" where
  "getDefinitions pc =
     List.map_filter (\<lambda>i. map_of (definitions pc) (of_nat i)) [0..<unat (nextPropertyID pc)]"

definition getPropertyID :: "'d PropertyDefinitionCollection \<Rightarrow> string \<Rightarrow> property_id_t option" where
  "getPropertyID pc name = ci_at (nameToPropertyIDMap pc) name"

definition getDefinition :: "'d PropertyDefinitionCollection \<Rightarrow> string \<Rightarrow> 'd PropertyDefinition option" where
  "getDefinition pc name = Option.bind (getPropertyID pc name) (map_of (definitions pc))"

definition getColumnID :: "'d PropertyDefinitionCollection \<Rightarrow> string \<Rightarrow> 32 word option" where
  "getColumnID pc name = Option.bind (getPropertyID pc name) (map_of (columnIDs pc))"

fun number_columns :: "32 word \<Rightarrow> (property_id_t \<times> 'd PropertyDefinition) list \<Rightarrow>
    (property_id_t \<times> 32 word) list \<Rightarrow> 32 word \<times> (property_id_t \<times> 32 word) list" where
  "number_columns next [] cols = (next, cols)"
| "number_columns next ((propertyID, d) # defs) cols =
     number_columns (next + 1) defs (emplace (propertyID, next) cols)"

definition vacuumColumnIDs :: "32 word \<Rightarrow> 'd PropertyDefinitionCollection \<Rightarrow> 'd PropertyDefinitionCollection" where
  "vacuumColumnIDs next pc =
     (let (next', cols) = number_columns next (definitions pc) [] in
      pc\<lparr>nextColumnID := next', columnIDs := cols\<rparr>)"

definition pc_add :: "'d PropertyDefinition \<Rightarrow> 'd PropertyDefinitionCollection \<Rightarrow> 'd PropertyDefinitionCollection" where
  "pc_add d pc =
     (let propertyID = nextPropertyID pc; columnID = nextColumnID pc in
      pc\<lparr>nextPropertyID := propertyID + 1, nextColumnID := columnID + 1,
         columnIDs := emplace (propertyID, columnID) (columnIDs pc),
         definitions := map_emplace propertyID d (definitions pc),
         nameToPropertyIDMap := ci_emplace (propName d) propertyID (nameToPropertyIDMap pc)\<rparr>)"

definition pc_drop :: "string \<Rightarrow> 'd PropertyDefinitionCollection \<Rightarrow> 'd PropertyDefinitionCollection option" where
  "pc_drop name pc = map_option (\<lambda>propertyID.
      pc\<lparr>definitions := map_erase propertyID (definitions pc),
         columnIDs := map_erase propertyID (columnIDs pc),
         nameToPropertyIDMap := ci_erase name (nameToPropertyIDMap pc)\<rparr>)
     (ci_at (nameToPropertyIDMap pc) name)"

definition pc_rename :: "string \<Rightarrow> string \<Rightarrow> 'd PropertyDefinitionCollection \<Rightarrow>
    'd PropertyDefinitionCollection option" where
  "pc_rename name newName pc = map_option (\<lambda>idx.
      pc\<lparr>definitions := map (\<lambda>(i, d). (i, if i = idx then PropertyDefinition_rename newName d else d))
            (definitions pc),
         nameToPropertyIDMap :=
           ci_emplace newName idx (ci_erase name (nameToPropertyIDMap pc))\<rparr>)
     (ci_at (nameToPropertyIDMap pc) name)"

definition getMaxColumnID :: "'d PropertyDefinitionCollection \<Rightarrow> 32 word" where
  "getMaxColumnID pc = fold (\<lambda>(_, i) maxID. if maxID < i then i else maxID) (columnIDs pc) 0"

definition serializePropertyDefinition :: "('d \<Rightarrow> byte list) \<Rightarrow> 'd PropertyDefinition \<Rightarrow> byte list" where
  "serializePropertyDefinition serD d = serializeString (propName d) @ serD (propDef d)"

definition deserializePropertyDefinition :: "'d reader \<Rightarrow> 'd PropertyDefinition reader" where
  "deserializePropertyDefinition deserD bs =
     (case deserializeString bs of
        None \<Rightarrow> None
      | Some (name, bs) \<Rightarrow> map_option (\<lambda>(d, bs). (\<lparr>propName = name, propDef = d\<rparr>, bs)) (deserD bs))"

definition pc_serialize :: "('d \<Rightarrow> byte list) \<Rightarrow> 'd PropertyDefinitionCollection \<Rightarrow> byte list" where
  "pc_serialize serD pc =
     serializeValue (nextColumnID pc) @ serializeValue (nextPropertyID pc) @
     serializeMap serializeValue (serializePropertyDefinition serD) (definitions pc) @
     serializeMap serializeValue serializeValue (columnIDs pc)"

definition pc_deserialize :: "'d reader \<Rightarrow> 'd PropertyDefinitionCollection reader" where
  "pc_deserialize deserD bs =
     Option.bind (deserializeValue bs) (\<lambda>(next, bs).
     Option.bind (deserializeValue bs) (\<lambda>(nextProp, bs).
     Option.bind (deserializeMap deserializeValue (deserializePropertyDefinition deserD) bs) (\<lambda>(defs, bs).
     Option.bind (deserializeMap deserializeValue deserializeValue bs) (\<lambda>(cols, bs).
       Some (\<lparr>nextColumnID = next, nextPropertyID = nextProp, definitions = defs, columnIDs = cols,
              nameToPropertyIDMap = fold (\<lambda>(propertyID, d). ci_emplace (propName d) propertyID) defs []\<rparr>,
             bs)))))"

section \<open>The invariant\<close>

definition names_ok :: "'d PropertyDefinitionCollection \<Rightarrow> bool" where
  "names_ok pc \<longleftrightarrow> ci_distinct (nameToPropertyIDMap pc) \<and>
     (\<forall>n i. ci_at (nameToPropertyIDMap pc) n = Some i \<longleftrightarrow>
        (\<exists>d. (i, d) \<in> set (definitions pc) \<and> caseInsensitiveEquals (propName d) n))"

definition columns_ok :: "'d PropertyDefinitionCollection \<Rightarrow> bool" where
  "columns_ok pc \<longleftrightarrow> distinct (map fst (columnIDs pc)) \<and> distinct (map snd (columnIDs pc)) \<and>
     fst ` set (columnIDs pc) = fst ` set (definitions pc) \<and>
     (\<forall>c\<in>snd ` set (columnIDs pc). c < nextColumnID pc)"

definition pc_inv :: "'d PropertyDefinitionCollection \<Rightarrow> bool" where
  "pc_inv pc \<longleftrightarrow> sorted_wrt (<) (map fst (definitions pc)) \<and>
     (\<forall>i\<in>fst ` set (definitions pc). i < nextPropertyID pc) \<and> columns_ok pc \<and> names_ok pc"

lemma pc_names:
  "pc_inv pc \<Longrightarrow> ci_at (nameToPropertyIDMap pc) n = Some i \<longleftrightarrow>
    (\<exists>d. (i, d) \<in> set (definitions pc) \<and> caseInsensitiveEquals (propName d) n)"
  by (simp add: pc_inv_def names_ok_def)

lemma pc_bound: "pc_inv pc \<Longrightarrow> (i, d) \<in> set (definitions pc) \<Longrightarrow> i < nextPropertyID pc"
  by (force simp: pc_inv_def)

lemma pc_columns:
  assumes "pc_inv pc"
  shows "distinct (map fst (columnIDs pc))" "distinct (map snd (columnIDs pc))"
    "fst ` set (columnIDs pc) = fst ` set (definitions pc)"
    "(i, c) \<in> set (columnIDs pc) \<Longrightarrow> c < nextColumnID pc"
  using assms by (force simp: pc_inv_def columns_ok_def)+

lemma map_emplace_max: "\<forall>k'\<in>fst ` set m. k' < k \<Longrightarrow> map_emplace k v m = m @ [(k, v)]"
  by (induction m) auto

lemma pc_inv_new [simp]: "pc_inv (PropertyDefinitionCollection_new next)"
  by (simp add: pc_inv_def columns_ok_def names_ok_def PropertyDefinitionCollection_new_def)

lemma pc_distinct: "pc_inv pc \<Longrightarrow> distinct (map fst (definitions pc))"
  using strict_sorted_iff by (fastforce simp: pc_inv_def)

text \<open>The result of adding a property whose name is not there yet.\<close>

lemma pc_add_eq:
  assumes "pc_inv pc" "\<not> pc_contains pc (propName d)"
  shows "definitions (pc_add d pc) = definitions pc @ [(nextPropertyID pc, d)]"
    "columnIDs (pc_add d pc) = columnIDs pc @ [(nextPropertyID pc, nextColumnID pc)]"
    "nameToPropertyIDMap (pc_add d pc) = nameToPropertyIDMap pc @ [(propName d, nextPropertyID pc)]"
    "nextPropertyID (pc_add d pc) = nextPropertyID pc + 1" "nextColumnID (pc_add d pc) = nextColumnID pc + 1"
proof -
  have new: "nextPropertyID pc \<notin> fst ` set (columnIDs pc)" "\<forall>i\<in>fst ` set (definitions pc). i < nextPropertyID pc"
    using assms(1) by (auto simp: pc_inv_def columns_ok_def)
  from new(1) show "columnIDs (pc_add d pc) = columnIDs pc @ [(nextPropertyID pc, nextColumnID pc)]"
    by (simp add: pc_add_def emplace_def Let_def)
  from new(2) show "definitions (pc_add d pc) = definitions pc @ [(nextPropertyID pc, d)]"
    by (simp add: pc_add_def map_emplace_max Let_def)
qed (use assms(2) in \<open>simp_all add: pc_add_def ci_emplace_def pc_contains_def Let_def\<close>)

lemma word_less_Suc_max: "(i :: 'a :: len word) < n \<Longrightarrow> n < b \<Longrightarrow> i < n + 1"
  using word_less_Suc [of n b] by simp

lemma pc_inv_add:
  assumes inv: "pc_inv pc" and new: "\<not> pc_contains pc (propName d)"
    and room: "nextPropertyID pc < - 1" "nextColumnID pc < - 1"
  shows "pc_inv (pc_add d pc)"
proof -
  note eqs = pc_add_eq [OF inv new]
  have p: "i \<in> fst ` set (definitions pc) \<Longrightarrow> i < nextPropertyID pc"
    and c: "j \<in> snd ` set (columnIDs pc) \<Longrightarrow> j < nextColumnID pc" for i j
    using inv by (auto simp: pc_inv_def columns_ok_def)
  have "sorted_wrt (<) (map fst (definitions (pc_add d pc)))"
    using inv p by (simp add: eqs sorted_wrt_append pc_inv_def)
  moreover have "\<forall>i\<in>fst ` set (definitions (pc_add d pc)). i < nextPropertyID (pc_add d pc)"
    using p word_less_Suc_max [OF _ room(1)] word_less_Suc [OF room(1)] by (auto simp: eqs)
  moreover have "columns_ok (pc_add d pc)"
    using pc_columns [OF inv] p c word_less_Suc_max [OF _ room(2)] word_less_Suc [OF room(2)]
    by (fastforce simp: columns_ok_def eqs)
  moreover have "names_ok (pc_add d pc)"
  proof -
    have none: "ci_at (nameToPropertyIDMap pc) n = None" if "caseInsensitiveEquals (propName d) n" for n
      using new ci_at_cong [OF that, of "nameToPropertyIDMap pc"] by (simp add: pc_contains_def ci_contains_def)
    have "ci_distinct (nameToPropertyIDMap (pc_add d pc))"
      using inv by (simp add: pc_add_def pc_inv_def names_ok_def Let_def)
    moreover have "ci_at (nameToPropertyIDMap pc @ [(propName d, nextPropertyID pc)]) n = Some i \<longleftrightarrow>
      (\<exists>d'. (i, d') \<in> set (definitions pc @ [(nextPropertyID pc, d)]) \<and> caseInsensitiveEquals (propName d') n)" for n i
    proof (cases "caseInsensitiveEquals (propName d) n")
      case True
      have "\<not> (\<exists>d'. (i, d') \<in> set (definitions pc) \<and> caseInsensitiveEquals (propName d') n)"
        using none [OF True] pc_names [OF inv, of n i] by simp
      with none [OF True] True show ?thesis by (auto simp: ci_at_append)
    next
      case False
      then have "ci_at (nameToPropertyIDMap pc @ [(propName d, nextPropertyID pc)]) n =
          ci_at (nameToPropertyIDMap pc) n" by (simp add: ci_at_append split: option.split)
      with False pc_names [OF inv] show ?thesis by auto
    qed
    ultimately show ?thesis by (simp add: names_ok_def eqs)
  qed
  ultimately show ?thesis by (simp add: pc_inv_def)
qed

lemma pc_id_unique:
  "pc_inv pc \<Longrightarrow> (i, d) \<in> set (definitions pc) \<Longrightarrow> (i, d') \<in> set (definitions pc) \<Longrightarrow> d = d'"
  using pc_distinct by (meson eq_key_imp_eq_value)

lemma pc_name_unique:
  "pc_inv pc \<Longrightarrow> (i, d) \<in> set (definitions pc) \<Longrightarrow> (j, d') \<in> set (definitions pc) \<Longrightarrow>
    caseInsensitiveEquals (propName d) (propName d') \<Longrightarrow> i = j"
  unfolding pc_inv_def names_ok_def by (metis ci_refl option.inject)

lemma pc_inv_drop:
  assumes inv: "pc_inv pc" and drop: "pc_drop name pc = Some pc'"
  shows "pc_inv pc'"
proof -
  obtain p where p: "ci_at (nameToPropertyIDMap pc) name = Some p"
    and pc': "pc' = pc\<lparr>definitions := map_erase p (definitions pc), columnIDs := map_erase p (columnIDs pc),
      nameToPropertyIDMap := ci_erase name (nameToPropertyIDMap pc)\<rparr>"
    using drop by (auto simp: pc_drop_def)
  have defs: "set (definitions pc') = {x \<in> set (definitions pc). fst x \<noteq> p}"
    and cols: "set (columnIDs pc') = {x \<in> set (columnIDs pc). fst x \<noteq> p}"
    and same: "nextPropertyID pc' = nextPropertyID pc" "nextColumnID pc' = nextColumnID pc"
    by (auto simp: pc' map_erase_def)
  obtain d where d: "(p, d) \<in> set (definitions pc)" "caseInsensitiveEquals (propName d) name"
    using p pc_names [OF inv] by blast
  have "sorted_wrt (<) (map fst (definitions pc'))"
    using inv sorted_wrt_filter [of "\<lambda>x y. fst x < fst y" "definitions pc"]
    by (simp add: pc' pc_inv_def map_erase_def sorted_wrt_map)
  moreover have "\<forall>i\<in>fst ` set (definitions pc'). i < nextPropertyID pc'"
    using pc_bound [OF inv] by (auto simp: defs same)
  moreover have "columns_ok pc'"
  proof -
    have "fst ` set (columnIDs pc') = fst ` set (definitions pc')"
      using pc_columns(3) [OF inv] unfolding cols defs by (force simp: image_iff set_eq_iff)
    moreover have "distinct (map fst (columnIDs pc'))" "distinct (map snd (columnIDs pc'))"
      using pc_columns(1,2) [OF inv] by (simp_all add: pc' map_erase_def distinct_map_filter)
    moreover have "\<forall>c\<in>snd ` set (columnIDs pc'). c < nextColumnID pc'"
      using pc_columns(4) [OF inv] by (auto simp: cols same)
    ultimately show ?thesis by (simp add: columns_ok_def)
  qed
  moreover have "names_ok pc'"
  proof -
    have "ci_at (ci_erase name (nameToPropertyIDMap pc)) n = Some i \<longleftrightarrow>
        (\<exists>d. (i, d) \<in> set (definitions pc') \<and> caseInsensitiveEquals (propName d) n)" for n i
    proof (cases "caseInsensitiveEquals name n")
      case True
      have "i = p" if "(i, d') \<in> set (definitions pc)" "caseInsensitiveEquals (propName d') n" for d'
        using pc_name_unique [OF inv that(1) d(1)] that(2) d(2) True
        by (auto simp: caseInsensitiveEquals_iff)
      with True show ?thesis by (auto simp: ci_at_erase defs)
    next
      case False
      have "i \<noteq> p" if "(i, d') \<in> set (definitions pc)" "caseInsensitiveEquals (propName d') n" for d'
        using pc_id_unique [OF inv d(1), of d'] that False d(2) by (auto simp: caseInsensitiveEquals_iff)
      with False show ?thesis by (auto simp: ci_at_erase defs pc_names [OF inv])
    qed
    moreover have "ci_distinct (nameToPropertyIDMap pc')"
      using inv by (simp add: pc' pc_inv_def names_ok_def)
    ultimately show ?thesis by (simp add: names_ok_def pc')
  qed
  ultimately show ?thesis by (simp add: pc_inv_def)
qed

lemma pc_rename_cases:
  assumes inv: "pc_inv pc" and ren: "pc_rename name newName pc = Some pc'"
  obtains p d where "ci_at (nameToPropertyIDMap pc) name = Some p" "(p, d) \<in> set (definitions pc)"
    "caseInsensitiveEquals (propName d) name"
    "set (definitions pc') = (\<lambda>(i, d). (i, if i = p then d\<lparr>propName := newName\<rparr> else d)) ` set (definitions pc)"
    "map fst (definitions pc') = map fst (definitions pc)" "columnIDs pc' = columnIDs pc"
    "nameToPropertyIDMap pc' = ci_emplace newName p (ci_erase name (nameToPropertyIDMap pc))"
    "nextPropertyID pc' = nextPropertyID pc" "nextColumnID pc' = nextColumnID pc"
proof -
  obtain p where p: "ci_at (nameToPropertyIDMap pc) name = Some p"
    and pc': "pc' = pc\<lparr>definitions := map (\<lambda>(i, d). (i, if i = p then PropertyDefinition_rename newName d else d))
            (definitions pc),
         nameToPropertyIDMap := ci_emplace newName p (ci_erase name (nameToPropertyIDMap pc))\<rparr>"
    using ren by (auto simp: pc_rename_def)
  obtain d where "(p, d) \<in> set (definitions pc)" "caseInsensitiveEquals (propName d) name"
    using p pc_names [OF inv] by blast
  with p show thesis
    by (rule that) (auto simp: pc' PropertyDefinition_rename_def comp_def case_prod_unfold)
qed

lemma pc_inv_rename:
  assumes inv: "pc_inv pc" and ren: "pc_rename name newName pc = Some pc'"
    and new: "pc_contains pc newName \<longrightarrow> caseInsensitiveEquals name newName"
  shows "pc_inv pc'"
proof -
  let ?m = "nameToPropertyIDMap pc"
  obtain p d where p: "ci_at ?m name = Some p" and d: "(p, d) \<in> set (definitions pc)"
      "caseInsensitiveEquals (propName d) name"
    and defs: "set (definitions pc') = (\<lambda>(i, d). (i, if i = p then d\<lparr>propName := newName\<rparr> else d)) ` set (definitions pc)"
    and eqs: "map fst (definitions pc') = map fst (definitions pc)" "columnIDs pc' = columnIDs pc"
    "nameToPropertyIDMap pc' = ci_emplace newName p (ci_erase name ?m)"
    "nextPropertyID pc' = nextPropertyID pc" "nextColumnID pc' = nextColumnID pc"
    by (rule pc_rename_cases [OF inv ren])
  have mem: "(i, d') \<in> set (definitions pc') \<longleftrightarrow>
      (\<exists>e. (i, e) \<in> set (definitions pc) \<and> d' = (if i = p then e\<lparr>propName := newName\<rparr> else e))" for i d'
    unfolding defs image_iff Bex_def by auto
  have ids: "fst ` set (definitions pc') = fst ` set (definitions pc)"
    using eqs(1) by (metis list.set_map)
  have at: "ci_at (nameToPropertyIDMap pc') n =
      (if caseInsensitiveEquals newName n then Some p else if caseInsensitiveEquals name n then None else ci_at ?m n)" for n
    using new by (auto simp: eqs ci_at_emplace ci_at_erase ci_contains_erase pc_contains_def)
  have old: "ci_at ?m n = Some p" if "caseInsensitiveEquals name n" for n
    using ci_at_cong [OF that, of ?m] p by simp
  have "ci_at (nameToPropertyIDMap pc') n = Some i \<longleftrightarrow>
      (\<exists>d'. (i, d') \<in> set (definitions pc') \<and> caseInsensitiveEquals (propName d') n)" for n i
  proof (cases "i = p")
    case True
    have uniq: "e = d" if "(p, e) \<in> set (definitions pc)" for e by (rule pc_id_unique [OF inv that d(1)])
    have "(p, d') \<in> set (definitions pc') \<longleftrightarrow> d' = d\<lparr>propName := newName\<rparr>" for d'
      unfolding mem using d(1) by (auto dest: uniq)
    moreover have "ci_at ?m n = Some p \<longleftrightarrow> caseInsensitiveEquals name n"
      unfolding pc_names [OF inv] ci_trans [OF d(2), symmetric] using d(1) uniq by blast
    ultimately show ?thesis using True by (simp add: at)
  next
    case False
    then have "(i, d') \<in> set (definitions pc') \<longleftrightarrow> (i, d') \<in> set (definitions pc)" for d'
      unfolding mem by simp
    moreover have "ci_at ?m n \<noteq> Some i" if "caseInsensitiveEquals newName n"
    proof
      assume "ci_at ?m n = Some i"
      moreover have "ci_at ?m newName = ci_at ?m n" by (rule ci_at_cong [OF that])
      ultimately show False using new False p old [of newName]
        by (simp add: pc_contains_def ci_contains_def)
    qed
    ultimately show ?thesis using False old [of n] pc_names [OF inv, of n i] by (auto simp: at)
  qed
  moreover have "ci_distinct (nameToPropertyIDMap pc')" using inv by (simp add: eqs pc_inv_def names_ok_def)
  ultimately have "names_ok pc'" by (simp add: names_ok_def)
  moreover have "columns_ok pc'" using inv by (simp add: pc_inv_def columns_ok_def eqs ids)
  ultimately show ?thesis using inv by (simp add: pc_inv_def eqs ids)
qed

section \<open>What the operations change\<close>

lemma pc_same_id:
  assumes "pc_inv pc" "ci_at (nameToPropertyIDMap pc) n = Some i" "ci_at (nameToPropertyIDMap pc) n' = Some i"
  shows "caseInsensitiveEquals n n'"
proof -
  obtain d d' where "(i, d) \<in> set (definitions pc)" "caseInsensitiveEquals (propName d) n"
    "(i, d') \<in> set (definitions pc)" "caseInsensitiveEquals (propName d') n'"
    using assms pc_names [OF assms(1)] by blast
  moreover from this have "d = d'" using pc_id_unique [OF assms(1)] by blast
  ultimately show ?thesis by (simp add: caseInsensitiveEquals_iff)
qed

lemma map_of_erase: "map_of (map_erase k m) j = (if j = k then None else map_of m j)"
  by (induction m) (auto simp: map_erase_def)

lemma pc_id_old:
  assumes "pc_inv pc" "ci_at (nameToPropertyIDMap pc) n = Some i"
  shows "i \<noteq> nextPropertyID pc" "map_of (definitions pc) i \<noteq> None" "map_of (columnIDs pc) i \<noteq> None"
proof -
  obtain d where d: "(i, d) \<in> set (definitions pc)" using assms pc_names by blast
  from pc_bound [OF assms(1) d] show "i \<noteq> nextPropertyID pc" by simp
  have "i \<in> fst ` set (definitions pc)" using d by force
  then show "map_of (definitions pc) i \<noteq> None" "map_of (columnIDs pc) i \<noteq> None"
    using pc_columns(3) [OF assms(1)] by (simp_all add: map_of_eq_None_iff)
qed

lemma pc_id_new:
  assumes "pc_inv pc"
  shows "map_of (definitions pc) (nextPropertyID pc) = None" "map_of (columnIDs pc) (nextPropertyID pc) = None"
proof -
  have "i \<in> fst ` set (definitions pc) \<Longrightarrow> i < nextPropertyID pc" for i using pc_bound [OF assms] by auto
  then have "nextPropertyID pc \<notin> fst ` set (definitions pc)" by blast
  then show "map_of (definitions pc) (nextPropertyID pc) = None" "map_of (columnIDs pc) (nextPropertyID pc) = None"
    using pc_columns(3) [OF assms] by (simp_all add: map_of_eq_None_iff)
qed

lemma pc_add_reads:
  assumes "pc_inv pc" "\<not> pc_contains pc (propName d)"
  shows "getDefinition (pc_add d pc) n = (if caseInsensitiveEquals (propName d) n then Some d else getDefinition pc n)"
    "getColumnID (pc_add d pc) n =
      (if caseInsensitiveEquals (propName d) n then Some (nextColumnID pc) else getColumnID pc n)"
proof -
  note eqs = pc_add_eq [OF assms]
  have at: "ci_at (nameToPropertyIDMap (pc_add d pc)) n = (if caseInsensitiveEquals (propName d) n
      then Some (nextPropertyID pc) else ci_at (nameToPropertyIDMap pc) n)"
    using assms(2) ci_at_emplace [of "propName d" "nextPropertyID pc" "nameToPropertyIDMap pc" n]
    by (auto simp: pc_contains_def pc_add_def Let_def)
  show "getDefinition (pc_add d pc) n = (if caseInsensitiveEquals (propName d) n then Some d else getDefinition pc n)"
    using pc_id_new [OF assms(1)] pc_id_old(1) [OF assms(1), of n]
    by (auto simp: getDefinition_def getPropertyID_def at eqs(1,2) map_add_def
        split: option.split Option.bind_splits)
  show "getColumnID (pc_add d pc) n =
      (if caseInsensitiveEquals (propName d) n then Some (nextColumnID pc) else getColumnID pc n)"
    using pc_id_new [OF assms(1)] pc_id_old(1) [OF assms(1), of n]
    by (auto simp: getColumnID_def getPropertyID_def at eqs(1,2) map_add_def
        split: option.split Option.bind_splits)
qed

lemma pc_drop_reads:
  assumes "pc_inv pc" "pc_drop name pc = Some pc'"
  shows "getDefinition pc' n = (if caseInsensitiveEquals name n then None else getDefinition pc n)"
    "getColumnID pc' n = (if caseInsensitiveEquals name n then None else getColumnID pc n)"
proof -
  obtain p where p: "ci_at (nameToPropertyIDMap pc) name = Some p"
    and pc': "pc' = pc\<lparr>definitions := map_erase p (definitions pc), columnIDs := map_erase p (columnIDs pc),
      nameToPropertyIDMap := ci_erase name (nameToPropertyIDMap pc)\<rparr>"
    using assms(2) by (auto simp: pc_drop_def)
  show "getDefinition pc' n = (if caseInsensitiveEquals name n then None else getDefinition pc n)"
    "getColumnID pc' n = (if caseInsensitiveEquals name n then None else getColumnID pc n)"
    using pc_same_id [OF assms(1) p, of n]
    by (auto simp: getDefinition_def getColumnID_def getPropertyID_def pc' ci_at_erase map_of_erase
        split: Option.bind_splits)
qed

lemma map_of_rename:
  "map_of (map (\<lambda>(i, d). (i, if i = p then f d else d)) m) j = (if j = p then map_option f (map_of m j) else map_of m j)"
  by (induction m) auto

lemma pc_rename_reads:
  assumes "pc_inv pc" "pc_rename name newName pc = Some pc'"
    and new: "pc_contains pc newName \<longrightarrow> caseInsensitiveEquals name newName"
  shows "getDefinition pc' n = (if caseInsensitiveEquals newName n
        then map_option (PropertyDefinition_rename newName) (getDefinition pc name)
        else if caseInsensitiveEquals name n then None else getDefinition pc n)"
    "getColumnID pc' n = (if caseInsensitiveEquals newName n then getColumnID pc name
        else if caseInsensitiveEquals name n then None else getColumnID pc n)"
proof -
  obtain p where p: "ci_at (nameToPropertyIDMap pc) name = Some p"
    and pc': "pc' = pc\<lparr>definitions := map (\<lambda>(i, d). (i, if i = p then PropertyDefinition_rename newName d else d))
            (definitions pc),
         nameToPropertyIDMap := ci_emplace newName p (ci_erase name (nameToPropertyIDMap pc))\<rparr>"
    using assms(2) by (auto simp: pc_rename_def)
  have at: "ci_at (nameToPropertyIDMap pc') n = (if caseInsensitiveEquals newName n then Some p
      else if caseInsensitiveEquals name n then None else ci_at (nameToPropertyIDMap pc) n)"
    using new by (auto simp: pc' ci_at_emplace ci_at_erase ci_contains_erase pc_contains_def)
  have other: "i \<noteq> p" if "ci_at (nameToPropertyIDMap pc) n = Some i" "\<not> caseInsensitiveEquals name n" for i
    using pc_same_id [OF assms(1) p, of n] that by auto
  have defs: "map_of (definitions pc') j = (if j = p then map_option (PropertyDefinition_rename newName)
      (map_of (definitions pc) j) else map_of (definitions pc) j)" for j
    by (simp add: pc' map_of_rename)
  show "getDefinition pc' n = (if caseInsensitiveEquals newName n
        then map_option (PropertyDefinition_rename newName) (getDefinition pc name)
        else if caseInsensitiveEquals name n then None else getDefinition pc n)"
    using other by (cases "ci_at (nameToPropertyIDMap pc) n") (auto simp: getDefinition_def getPropertyID_def at defs p)
  have "columnIDs pc' = columnIDs pc" by (simp add: pc')
  then show "getColumnID pc' n = (if caseInsensitiveEquals newName n then getColumnID pc name
        else if caseInsensitiveEquals name n then None else getColumnID pc n)"
    by (simp add: getColumnID_def getPropertyID_def at p)
qed

lemma number_columns_eq:
  "distinct (map fst defs) \<Longrightarrow> fst ` set cols \<inter> fst ` set defs = {} \<Longrightarrow>
    number_columns next defs cols = (next + of_nat (length defs),
      cols @ zip (map fst defs) (map (\<lambda>i. next + of_nat i) [0..<length defs]))"
proof (induction "next" defs cols rule: number_columns.induct)
  case (2 nxt p d defs cols)
  have "map (\<lambda>i. nxt + of_nat i) [0..<Suc (length defs)] =
      nxt # map (\<lambda>i. nxt + 1 + of_nat i) [0..<length defs]"
    unfolding upt_conv_Cons [OF zero_less_Suc] map_Suc_upt [symmetric] by (simp add: comp_def add.assoc add.commute)
  with 2 show ?case by (auto simp: emplace_def add.commute add.left_commute)
qed simp

lemma pc_inv_vacuum:
  assumes inv: "pc_inv pc" and fits: "unat next + pc_size pc < 2 ^ 32"
  shows "pc_inv (vacuumColumnIDs next pc)"
    "map snd (columnIDs (vacuumColumnIDs next pc)) = map (\<lambda>i. next + of_nat i) [0..<pc_size pc]"
proof -
  let ?pc = "vacuumColumnIDs next pc" and ?n = "length (definitions pc)"
  let ?ids = "map (\<lambda>i. next + of_nat i) [0..<?n]"
  have eqs: "columnIDs ?pc = zip (map fst (definitions pc)) ?ids" "nextColumnID ?pc = next + of_nat ?n"
    "definitions ?pc = definitions pc" "nextPropertyID ?pc = nextPropertyID pc"
    "nameToPropertyIDMap ?pc = nameToPropertyIDMap pc"
    using number_columns_eq [OF pc_distinct [OF inv], of "[]" "next"] by (simp_all add: vacuumColumnIDs_def)
  show snds: "map snd (columnIDs ?pc) = map (\<lambda>i. next + of_nat i) [0..<pc_size pc]"
    by (simp add: eqs pc_size_def)
  have val: "unat (next + of_nat i) = unat next + i" if "i \<le> ?n" for i
    using fits that by (simp add: pc_size_def unat_word_ariths unat_of_nat)
  have "inj_on (\<lambda>i. next + of_nat i) {0..<?n}"
    by (rule inj_onI) (metis val add_left_imp_eq atLeastLessThan_iff order_less_imp_le)
  then have "distinct (map snd (columnIDs ?pc))" by (simp add: snds pc_size_def distinct_map)
  moreover have "\<forall>c\<in>snd ` set (columnIDs ?pc). c < nextColumnID ?pc"
  proof
    fix c assume "c \<in> snd ` set (columnIDs ?pc)"
    then have "c \<in> set (map snd (columnIDs ?pc))" by simp
    then obtain i where "i < ?n" "c = next + of_nat i" unfolding snds pc_size_def by auto
    then show "c < nextColumnID ?pc" by (simp add: eqs word_less_nat_alt val)
  qed
  moreover have "map fst (columnIDs ?pc) = map fst (definitions pc)" by (simp add: eqs)
  moreover from this have "fst ` set (columnIDs ?pc) = fst ` set (definitions ?pc)"
    by (metis eqs(3) list.set_map)
  ultimately have "columns_ok ?pc" using pc_distinct [OF inv] by (simp add: columns_ok_def)
  with inv show "pc_inv ?pc" by (simp add: pc_inv_def names_ok_def eqs)
qed

section \<open>Serialization\<close>

lemma definition_codec:
  assumes "codec serD deserD validD"
  shows "codec (serializePropertyDefinition serD) (deserializePropertyDefinition deserD)
    (\<lambda>d. fits_u64 (propName d) \<and> validD (propDef d))"
  by unfold_locales (simp add: serializePropertyDefinition_def deserializePropertyDefinition_def
      string_codec.roundtrip codec.roundtrip [OF assms])

lemmas u32_is_codec = u32_codec.codec_axioms

lemma names_rebuilt:
  assumes "pc_inv pc"
  shows "ci_at (fold (\<lambda>(propertyID, d). ci_emplace (propName d) propertyID) (definitions pc) []) n =
    ci_at (nameToPropertyIDMap pc) n"
proof -
  have step: "ci_at (fold (\<lambda>(propertyID, d). ci_emplace (propName d) propertyID) defs m) n =
      (case ci_at m n of Some i \<Rightarrow> Some i
       | None \<Rightarrow> map_option fst (List.find (\<lambda>(i, d). caseInsensitiveEquals (propName d) n) defs))" for defs m
  proof (induction defs arbitrary: m)
    case (Cons e defs)
    have "ci_contains m (propName (snd e)) \<longleftrightarrow> ci_contains m n" if "caseInsensitiveEquals (propName (snd e)) n"
      using ci_at_cong [OF that, of m] by (simp add: ci_contains_def)
    with Cons show ?case
      by (auto simp: ci_at_emplace ci_contains_def case_prod_unfold split: option.split)
  qed (simp split: option.split)
  show ?thesis
  proof (cases "ci_at (nameToPropertyIDMap pc) n")
    case None
    then have "\<not> caseInsensitiveEquals (propName d) n" if "(i, d) \<in> set (definitions pc)" for i d
      using pc_names [OF assms, of n i] that by auto
    then have "List.find (\<lambda>(i, d). caseInsensitiveEquals (propName d) n) (definitions pc) = None"
      by (auto simp: find_None_iff)
    with None show ?thesis by (simp add: step)
  next
    case (Some i)
    then obtain d where d: "(i, d) \<in> set (definitions pc)" "caseInsensitiveEquals (propName d) n"
      using pc_names [OF assms] by blast
    then have "List.find (\<lambda>(i, d). caseInsensitiveEquals (propName d) n) (definitions pc) \<noteq> None"
      by (auto simp: find_None_iff)
    then obtain j e where f: "List.find (\<lambda>(i, d). caseInsensitiveEquals (propName d) n) (definitions pc) = Some (j, e)"
      by auto
    then have e: "(j, e) \<in> set (definitions pc)" "caseInsensitiveEquals (propName e) n"
      by (auto simp: find_Some_iff) (metis nth_mem)
    have "i = j" by (rule pc_name_unique [OF assms d(1) e(1)]) (use d(2) e(2) in \<open>simp add: caseInsensitiveEquals_iff\<close>)
    with Some f show ?thesis by (simp add: step)
  qed
qed

text \<open>Collections within the sizes of the format, and equality up to the order of the names.\<close>

definition properties_fit :: "('x \<Rightarrow> bool) \<Rightarrow> 'x PropertyDefinitionCollection \<Rightarrow> bool" where
  "properties_fit validX pc \<longleftrightarrow>
     (\<forall>d\<in>snd ` set (definitions pc). fits_u64 (propName d) \<and> validX (propDef d)) \<and>
     fits_u64 (definitions pc) \<and> fits_u64 (columnIDs pc)"

definition same_properties :: "'x PropertyDefinitionCollection \<Rightarrow> 'x PropertyDefinitionCollection \<Rightarrow> bool" where
  "same_properties p q \<longleftrightarrow> q = p\<lparr>nameToPropertyIDMap := nameToPropertyIDMap q\<rparr> \<and>
     (\<forall>n. getDefinition q n = getDefinition p n \<and> getColumnID q n = getColumnID p n)"

lemma pc_roundtrip:
  assumes "codec serX deserX validX" "pc_inv p" "properties_fit validX p"
  shows "\<exists>q. pc_deserialize deserX (pc_serialize serX p @ rest) = Some (q, rest) \<and> same_properties p q"
proof -
  note pairs = codec_pair.map_roundtrip [OF codec_pair.intro]
  have defs: "deserializeMap deserializeValue (deserializePropertyDefinition deserX)
      (serializeMap serializeValue (serializePropertyDefinition serX) (definitions p) @ r) = Some (definitions p, r)" for r
    by (rule pairs [OF u32_is_codec definition_codec [OF assms(1)]])
      (use assms(3) pc_distinct [OF assms(2)] in \<open>auto simp: list_all_iff properties_fit_def\<close>)
  have cols: "deserializeMap deserializeValue deserializeValue
      (serializeMap serializeValue serializeValue (columnIDs p) @ r) = Some (columnIDs p, r)" for r
    by (rule pairs [OF u32_is_codec u32_is_codec])
      (use assms(3) pc_columns(1) [OF assms(2)] in \<open>simp_all add: list_all_iff properties_fit_def\<close>)
  let ?q = "p\<lparr>nameToPropertyIDMap := fold (\<lambda>(propertyID, d). ci_emplace (propName d) propertyID) (definitions p) []\<rparr>"
  have "pc_deserialize deserX (pc_serialize serX p @ rest) = Some (?q, rest)"
    by (simp add: pc_deserialize_def pc_serialize_def u32_codec.roundtrip defs cols)
  then show ?thesis
    by (intro exI [of _ ?q]) (simp add: same_properties_def getDefinition_def getColumnID_def getPropertyID_def
        names_rebuilt [OF assms(2)])
qed

section \<open>Properties\<close>

text \<open>The changes \<^verbatim>\<open>ALTER TABLE\<close> makes to the properties, with the checks the binder does before.\<close>

datatype 'd schema_change = AddProperty "'d PropertyDefinition" | DropProperty string | RenameProperty string string

fun change_allowed :: "'d schema_change \<Rightarrow> 'd PropertyDefinitionCollection \<Rightarrow> bool" where
  "change_allowed (AddProperty d) pc \<longleftrightarrow> \<not> pc_contains pc (propName d) \<and>
     nextPropertyID pc < - 1 \<and> nextColumnID pc < - 1"
| "change_allowed (DropProperty name) pc \<longleftrightarrow> pc_contains pc name"
| "change_allowed (RenameProperty name newName) pc \<longleftrightarrow> pc_contains pc name \<and>
     (pc_contains pc newName \<longrightarrow> caseInsensitiveEquals name newName)"

fun apply_change :: "'d schema_change \<Rightarrow> 'd PropertyDefinitionCollection \<Rightarrow> 'd PropertyDefinitionCollection option" where
  "apply_change (AddProperty d) pc = Some (pc_add d pc)"
| "apply_change (DropProperty name) pc = pc_drop name pc"
| "apply_change (RenameProperty name newName) pc = pc_rename name newName pc"

inductive schema_reachable :: "'d PropertyDefinitionCollection \<Rightarrow> bool" where
  schema_new: "schema_reachable (PropertyDefinitionCollection_new next)"
| schema_change: "schema_reachable pc \<Longrightarrow> change_allowed ch pc \<Longrightarrow> apply_change ch pc = Some pc' \<Longrightarrow>
    schema_reachable pc'"
| schema_vacuum: "schema_reachable pc \<Longrightarrow> unat next + pc_size pc < 2 ^ 32 \<Longrightarrow>
    schema_reachable (vacuumColumnIDs next pc)"

lemma change_inv: "pc_inv pc \<Longrightarrow> change_allowed ch pc \<Longrightarrow> apply_change ch pc = Some pc' \<Longrightarrow> pc_inv pc'"
  by (cases ch) (auto intro: pc_inv_add pc_inv_drop pc_inv_rename)

lemma reachable_inv: "schema_reachable pc \<Longrightarrow> pc_inv pc"
  by (induction rule: schema_reachable.induct) (auto intro: change_inv pc_inv_vacuum(1))

text \<open>
  C29: in every schema that property changes and vacuums can produce, each name leads to one property
  with one column, different names lead to different columns, and the column numbers and property
  numbers still to be given out are not in use.
\<close>

theorem schema_names_columns:
  assumes "schema_reachable pc" "getPropertyID pc n = Some i" "getPropertyID pc n' = Some j"
  shows "(\<exists>d c. getDefinition pc n = Some d \<and> caseInsensitiveEquals (propName d) n \<and>
      getColumnID pc n = Some c \<and> c < nextColumnID pc) \<and> i < nextPropertyID pc \<and>
    (getColumnID pc n = getColumnID pc n' \<longleftrightarrow> caseInsensitiveEquals n n')"
proof -
  note inv = reachable_inv [OF assms(1)]
  obtain d where d: "(i, d) \<in> set (definitions pc)" "caseInsensitiveEquals (propName d) n"
    using assms(2) pc_names [OF inv] by (auto simp: getPropertyID_def)
  obtain c where c: "map_of (columnIDs pc) i = Some c"
    using pc_id_old(3) [OF inv] assms(2) by (auto simp: getPropertyID_def)
  have "getDefinition pc n = Some d"
    using assms(2) d(1) pc_distinct [OF inv] by (simp add: getDefinition_def)
  moreover have "getColumnID pc n = Some c" using assms(2) c by (simp add: getColumnID_def)
  moreover have "c < nextColumnID pc" using pc_columns(4) [OF inv map_of_SomeD [OF c]] .
  moreover have "i < nextPropertyID pc" by (rule pc_bound [OF inv d(1)])
  moreover have "map_of (columnIDs pc) i = map_of (columnIDs pc) j \<longleftrightarrow> i = j"
  proof
    assume "map_of (columnIDs pc) i = map_of (columnIDs pc) j"
    with c have "(i, c) \<in> set (columnIDs pc)" "(j, c) \<in> set (columnIDs pc)" by (auto dest: map_of_SomeD)
    with pc_columns(2) [OF inv] show "i = j" by (force simp: distinct_map inj_on_def)
  qed simp
  moreover have "i = j \<longleftrightarrow> caseInsensitiveEquals n n'"
    using assms(2,3) pc_same_id [OF inv, of n i n'] ci_at_cong [of n n' "nameToPropertyIDMap pc"]
    by (auto simp: getPropertyID_def)
  ultimately show ?thesis using d(2) assms(2,3) by (auto simp: getColumnID_def)
qed

abbreviation schema_example :: "nat PropertyDefinitionCollection" where
  "schema_example \<equiv> pc_add \<lparr>propName = ''name'', propDef = 8\<rparr>
     (pc_add \<lparr>propName = ''id'', propDef = 7\<rparr> (PropertyDefinitionCollection_new 0))"

theorem schema_names_columns_witness:
  "(\<exists>d c. getDefinition schema_example ''ID'' = Some d \<and> caseInsensitiveEquals (propName d) ''ID'' \<and>
      getColumnID schema_example ''ID'' = Some c \<and> c < nextColumnID schema_example) \<and>
    (0 :: property_id_t) < nextPropertyID schema_example \<and>
    (getColumnID schema_example ''ID'' = getColumnID schema_example ''NAME'' \<longleftrightarrow>
      caseInsensitiveEquals ''ID'' ''NAME'')"
proof -
  have "schema_reachable (pc_add \<lparr>propName = ''id'', propDef = 7 :: nat\<rparr> (PropertyDefinitionCollection_new 0))"
    by (rule schema_change [OF schema_new [of 0], where ch = "AddProperty \<lparr>propName = ''id'', propDef = 7 :: nat\<rparr>"]) code_simp+
  then have "schema_reachable schema_example"
    by (rule schema_change [where ch = "AddProperty \<lparr>propName = ''name'', propDef = 8 :: nat\<rparr>"]) code_simp+
  moreover have "getPropertyID schema_example ''ID'' = Some 0" "getPropertyID schema_example ''NAME'' = Some 1"
    by code_simp+
  ultimately show ?thesis by (rule schema_names_columns)
qed

text \<open>
  C30: a change of the schema changes what its name reads and nothing else: an added property is read
  with the definition given and a new column, a dropped one is gone, and a renamed one keeps its
  definition and its column under the new name.
\<close>

theorem schema_change_reads:
  assumes "schema_reachable pc" "change_allowed ch pc"
  shows "\<exists>pc'. apply_change ch pc = Some pc' \<and> pc_inv pc' \<and>
    (case ch of
       AddProperty d \<Rightarrow>
         getDefinition pc' n = (if caseInsensitiveEquals (propName d) n then Some d else getDefinition pc n) \<and>
         getColumnID pc' n = (if caseInsensitiveEquals (propName d) n then Some (nextColumnID pc) else getColumnID pc n)
     | DropProperty name \<Rightarrow>
         getDefinition pc' n = (if caseInsensitiveEquals name n then None else getDefinition pc n) \<and>
         getColumnID pc' n = (if caseInsensitiveEquals name n then None else getColumnID pc n)
     | RenameProperty name newName \<Rightarrow>
         getDefinition pc' n = (if caseInsensitiveEquals newName n
           then map_option (PropertyDefinition_rename newName) (getDefinition pc name)
           else if caseInsensitiveEquals name n then None else getDefinition pc n) \<and>
         getColumnID pc' n = (if caseInsensitiveEquals newName n then getColumnID pc name
           else if caseInsensitiveEquals name n then None else getColumnID pc n))"
proof -
  note inv = reachable_inv [OF assms(1)]
  obtain pc' where pc': "apply_change ch pc = Some pc'"
    using assms(2) by (cases ch) (auto simp: pc_drop_def pc_rename_def pc_contains_def ci_contains_def)
  with change_inv [OF inv assms(2)] show ?thesis
    using assms(2) pc_add_reads [OF inv] pc_drop_reads [OF inv] pc_rename_reads [OF inv]
    by (cases ch) auto
qed

theorem schema_change_reads_witness:
  "\<exists>pc'. apply_change (AddProperty \<lparr>propName = ''Age'', propDef = 9\<rparr>)
      (PropertyDefinitionCollection_new 0 :: nat PropertyDefinitionCollection) = Some pc' \<and>
    getDefinition pc' ''AGE'' = Some \<lparr>propName = ''Age'', propDef = 9\<rparr> \<and> getColumnID pc' ''AGE'' = Some 0"
proof -
  have "change_allowed (AddProperty \<lparr>propName = ''Age'', propDef = 9 :: nat\<rparr>) (PropertyDefinitionCollection_new 0)"
    "caseInsensitiveEquals ''Age'' ''AGE''" by code_simp+
  with schema_change_reads [OF schema_new this(1), of "''AGE''"] show ?thesis
    by (auto simp: PropertyDefinitionCollection_new_def)
qed

text \<open>
  The properties of a table are read back as they were written; the names, which are not
  written, are rebuilt from the definitions.
\<close>

theorem schema_roundtrip:
  assumes "codec serD deserD validD" "schema_reachable pc" "properties_fit validD pc"
  shows "\<exists>pc'. pc_deserialize deserD (pc_serialize serD pc @ rest) = Some (pc', rest) \<and> same_properties pc pc'"
  by (rule pc_roundtrip [OF assms(1) reachable_inv [OF assms(2)] assms(3)])

theorem schema_roundtrip_witness:
  "\<exists>pc'. pc_deserialize deserializeString
      (pc_serialize serializeString (PropertyDefinitionCollection_new 3 :: string PropertyDefinitionCollection) @ [1]) =
      Some (pc', [1]) \<and> same_properties (PropertyDefinitionCollection_new 3) pc'"
  by (rule schema_roundtrip [OF string_codec.codec_axioms schema_new])
    (simp add: properties_fit_def PropertyDefinitionCollection_new_def fits_u64_def)

end
