(* ===== verification/Checked_Arith.thy ===== *)
theory Checked_Arith
  imports Ryu_Prelude "HOL-Library.Signed_Division"
begin

text \<open>
  The checked integer arithmetic of the expression functions (\<^verbatim>\<open>function/arithmetic/\<close>), which the
  sequences of the catalog use too. A value of an integer type is its mathematical value; \<open>wrap\<close>
  is the conversion to a type, so that every intermediate result of the source has the width the
  source gives it. The template instances for the eight integer types are the cases of one
  definition each. For 64-bit signed integers the source has two variants, chosen by the compiler:
  the overflow builtins, whose documented result is the exact one when it fits, and a portable one;
  both are modelled. \<^verbatim>\<open>/\<close> and \<^verbatim>\<open>%\<close> truncate towards zero.
\<close>

unbundle bit_operations_syntax

datatype IntType = UINT8 | UINT16 | UINT32 | UINT64 | INT8 | INT16 | INT32 | INT64

fun int_bits :: "IntType \<Rightarrow> nat" where
  "int_bits UINT8 = 8" | "int_bits UINT16 = 16" | "int_bits UINT32 = 32" | "int_bits UINT64 = 64"
| "int_bits INT8 = 8" | "int_bits INT16 = 16" | "int_bits INT32 = 32" | "int_bits INT64 = 64"

fun isSigned :: "IntType \<Rightarrow> bool" where
  "isSigned INT8 = True" | "isSigned INT16 = True" | "isSigned INT32 = True" | "isSigned INT64 = True"
| "isSigned _ = False"

definition minimum :: "IntType \<Rightarrow> int" where
  "minimum ty = (if isSigned ty then - (2 ^ (int_bits ty - 1)) else 0)"

definition maximum :: "IntType \<Rightarrow> int" where
  "maximum ty = (if isSigned ty then 2 ^ (int_bits ty - 1) - 1 else 2 ^ int_bits ty - 1)"

definition isInBounds :: "IntType \<Rightarrow> int \<Rightarrow> bool" where
  "isInBounds ty v \<longleftrightarrow> minimum ty \<le> v \<and> v \<le> maximum ty"

definition wrap :: "IntType \<Rightarrow> int \<Rightarrow> int" where
  "wrap ty v = (v - minimum ty) mod 2 ^ int_bits ty + minimum ty"

text \<open>The type with twice the bits the checks compute in; 64-bit types have none.\<close>

fun wider :: "IntType \<Rightarrow> IntType" where
  "wider UINT8 = UINT16" | "wider UINT16 = UINT32" | "wider UINT32 = UINT64" | "wider UINT64 = UINT64"
| "wider INT8 = INT16" | "wider INT16 = INT32" | "wider INT32 = INT64" | "wider INT64 = INT64"

section \<open>Addition\<close>

definition addInPlaceWithOverflowCheck :: "IntType \<Rightarrow> IntType \<Rightarrow> int \<Rightarrow> int \<Rightarrow> int option" where
  "addInPlaceWithOverflowCheck src dst left right =
     (let uresult = wrap dst (wrap dst left + wrap dst right) in
      if uresult < minimum src \<or> maximum src < uresult then None else Some (wrap src uresult))"

definition builtin_overflow :: "int \<Rightarrow> int option" where
  "builtin_overflow exact = (if isInBounds INT64 exact then Some exact else None)"

definition AddInPlace_operation :: "IntType \<Rightarrow> int \<Rightarrow> int \<Rightarrow> int option" where
  "AddInPlace_operation ty left right =
     (case ty of
        UINT64 \<Rightarrow> if wrap UINT64 (maximum UINT64 - left) < right then None
                  else addInPlaceWithOverflowCheck UINT64 UINT64 left right
      | INT64 \<Rightarrow> builtin_overflow (left + right)
      | _ \<Rightarrow> addInPlaceWithOverflowCheck ty (wider ty) left right)"

definition AddInPlace_portable :: "int \<Rightarrow> int \<Rightarrow> int option" where
  "AddInPlace_portable left right =
     (let tmp = wrap INT64 (wrap UINT64 (wrap UINT64 left + wrap UINT64 right)) in
      if left < 0 \<and> right < 0 \<and> 0 \<le> tmp \<or> 0 \<le> left \<and> 0 \<le> right \<and> tmp < 0 then None else Some tmp)"

definition or_overflow :: "string \<Rightarrow> int option \<Rightarrow> exn + int" where
  "or_overflow msg r = (case r of None \<Rightarrow> Inl (OverflowException msg) | Some v \<Rightarrow> Inr v)"

definition Add_operation :: "IntType \<Rightarrow> int \<Rightarrow> int \<Rightarrow> exn + int" where
  "Add_operation ty left right = or_overflow ''Value + is not within range'' (AddInPlace_operation ty left right)"

section \<open>Subtraction\<close>

definition SubtractInPlaceWithOverflowCheck :: "IntType \<Rightarrow> IntType \<Rightarrow> int \<Rightarrow> int \<Rightarrow> int option" where
  "SubtractInPlaceWithOverflowCheck src dst left right =
     (let uresult = wrap dst (wrap dst left - wrap dst right) in
      if uresult < minimum src \<or> maximum src < uresult then None else Some (wrap src uresult))"

definition SubtractInPlace_operation :: "IntType \<Rightarrow> int \<Rightarrow> int \<Rightarrow> int option" where
  "SubtractInPlace_operation ty left right =
     (if ty = INT64 then builtin_overflow (left - right)
      else if isSigned ty then SubtractInPlaceWithOverflowCheck ty (wider ty) left right
      else if left < right then None else SubtractInPlaceWithOverflowCheck ty (wider ty) left right)"

definition SubtractInPlace_portable :: "int \<Rightarrow> int \<Rightarrow> int option" where
  "SubtractInPlace_portable left right =
     (if right < 0
      then if maximum INT64 + right < left then None else Some (left - right)
      else if left < minimum INT64 + right then None else Some (left - right))"

definition Subtract_operation :: "IntType \<Rightarrow> int \<Rightarrow> int \<Rightarrow> exn + int" where
  "Subtract_operation ty left right =
     or_overflow ''Value - is not within range'' (SubtractInPlace_operation ty left right)"

section \<open>Multiplication\<close>

definition tryMultiplyWithOverflowCheck :: "IntType \<Rightarrow> IntType \<Rightarrow> int \<Rightarrow> int \<Rightarrow> int option" where
  "tryMultiplyWithOverflowCheck src dst left right =
     (let uresult = wrap dst (wrap dst left * wrap dst right) in
      if uresult < minimum src \<or> maximum src < uresult then None else Some (wrap src uresult))"

definition TryMultiply_uint64 :: "int \<Rightarrow> int \<Rightarrow> int option" where
  "TryMultiply_uint64 left right =
     (let (left, right) = (if right < left then (right, left) else (left, right)) in
      if maximum UINT32 < left then None
      else
        let c = wrap UINT32 (drop_bit 32 right);
            d = wrap UINT32 (maximum UINT32 AND right);
            r = wrap UINT64 (left * c);
            s = wrap UINT64 (left * d)
        in if maximum UINT32 < r then None
           else
             let r = wrap UINT64 (push_bit 32 r)
             in if wrap UINT64 (maximum UINT64 - s) < r then None
                else tryMultiplyWithOverflowCheck UINT64 UINT64 left right)"

definition TryMultiply_operation :: "IntType \<Rightarrow> int \<Rightarrow> int \<Rightarrow> int option" where
  "TryMultiply_operation ty left right =
     (case ty of
        UINT64 \<Rightarrow> TryMultiply_uint64 left right
      | INT64 \<Rightarrow> builtin_overflow (left * right)
      | _ \<Rightarrow> tryMultiplyWithOverflowCheck ty (wider ty) left right)"

text \<open>
  The portable variant for signed 64-bit operands. The extreme operand is handled first; then the
  high halves decide, and the mask \<^verbatim>\<open>0xffffff80000000\<close> is tested against the high bits of the product.
\<close>

definition overflow_mask :: int where
  "overflow_mask = 0xffffff80000000"

definition TryMultiply_portable :: "int \<Rightarrow> int \<Rightarrow> int option" where
  "TryMultiply_portable left right =
     (if left = minimum INT64
      then if right = 0 then Some 0 else if right = 1 then Some left else None
      else if right = minimum INT64
      then if left = 0 then Some 0 else if left = 1 then Some right else None
      else
        let left_non_negative = wrap UINT64 \<bar>left\<bar>; right_non_negative = wrap UINT64 \<bar>right\<bar>;
            left_high_bits = drop_bit 32 left_non_negative;
            left_low_bits = left_non_negative AND 0xffffffff;
            right_high_bits = drop_bit 32 right_non_negative;
            right_low_bits = right_non_negative AND 0xffffffff;
            low_low = wrap UINT64 (left_low_bits * right_low_bits)
        in if left_high_bits = 0
           then if right_high_bits \<noteq> 0 \<and>
                   wrap UINT64 (wrap UINT64 (left_low_bits * right_high_bits) + drop_bit 32 low_low)
                     AND overflow_mask \<noteq> 0
                then None else Some (wrap INT64 (left * right))
           else if right_high_bits = 0
           then if wrap UINT64 (wrap UINT64 (left_high_bits * right_low_bits) + drop_bit 32 low_low)
                     AND overflow_mask \<noteq> 0
                then None else Some (wrap INT64 (left * right))
           else None)"

definition Multiply_operation :: "IntType \<Rightarrow> int \<Rightarrow> int \<Rightarrow> exn + int" where
  "Multiply_operation ty left right =
     or_overflow ''Value * is not within range'' (TryMultiply_operation ty left right)"

section \<open>Division and modulo\<close>

definition tryDivideWithOverflowCheck :: "IntType \<Rightarrow> IntType \<Rightarrow> int \<Rightarrow> int \<Rightarrow> int option" where
  "tryDivideWithOverflowCheck src dst left right =
     (let uresult = wrap dst (wrap dst left sdiv wrap dst right) in
      if uresult < minimum src \<or> maximum src < uresult then None else Some (wrap src uresult))"

definition TryDivide_operation :: "IntType \<Rightarrow> int \<Rightarrow> int \<Rightarrow> int option" where
  "TryDivide_operation ty left right =
     (if ty = INT64 \<and> left = minimum INT64 \<and> right = - 1 then None
      else tryDivideWithOverflowCheck ty (wider ty) left right)"

definition Divide_operation :: "IntType \<Rightarrow> int \<Rightarrow> int \<Rightarrow> exn + int" where
  "Divide_operation ty left right =
     (if right = 0 then Inl (RuntimeException ''Divide by zero.'')
      else or_overflow ''Value / is not within range'' (TryDivide_operation ty left right))"

definition tryModuloWithOverflowCheck :: "IntType \<Rightarrow> IntType \<Rightarrow> int \<Rightarrow> int \<Rightarrow> int option" where
  "tryModuloWithOverflowCheck src dst left right =
     (if left = minimum src \<and> right = - 1 then None
      else Some (wrap src (wrap dst (wrap dst left smod wrap dst right))))"

definition TryModulo_operation :: "IntType \<Rightarrow> int \<Rightarrow> int \<Rightarrow> int option" where
  "TryModulo_operation ty left right =
     (if ty = INT64 \<and> left = minimum INT64 \<and> right = - 1 then None
      else tryModuloWithOverflowCheck ty (wider ty) left right)"

definition Modulo_operation :: "IntType \<Rightarrow> int \<Rightarrow> int \<Rightarrow> exn + int" where
  "Modulo_operation ty left right =
     (if right = 0 then Inl (RuntimeException ''Modulo by zero.'')
      else if isSigned ty
      then or_overflow ''Value % is not within range'' (TryModulo_operation ty left right)
      else Inr (left smod right))"

section \<open>Negation and absolute value\<close>

definition NegateInPlace_operation :: "IntType \<Rightarrow> int \<Rightarrow> int option" where
  "NegateInPlace_operation ty input = (if input = minimum ty then None else Some (wrap ty (- input)))"

definition Negate_operation :: "IntType \<Rightarrow> int \<Rightarrow> exn + int" where
  "Negate_operation ty input = or_overflow ''Value cannot be negated within range'' (NegateInPlace_operation ty input)"

definition AbsInPlace_operation :: "IntType \<Rightarrow> int \<Rightarrow> int option" where
  "AbsInPlace_operation ty input = (if input = minimum ty then None else Some (wrap ty \<bar>input\<bar>))"

definition Abs_operation :: "IntType \<Rightarrow> int \<Rightarrow> exn + int" where
  "Abs_operation ty input = or_overflow ''Cannot take the absolute value within range'' (AbsInPlace_operation ty input)"

section \<open>Exactness\<close>

lemma bounds_of [simp]:
  "minimum UINT8 = 0" "maximum UINT8 = 255" "minimum UINT16 = 0" "maximum UINT16 = 65535"
  "minimum UINT32 = 0" "maximum UINT32 = 4294967295" "minimum UINT64 = 0" "maximum UINT64 = 18446744073709551615"
  "minimum INT8 = -128" "maximum INT8 = 127" "minimum INT16 = -32768" "maximum INT16 = 32767"
  "minimum INT32 = -2147483648" "maximum INT32 = 2147483647"
  "minimum INT64 = -9223372036854775808" "maximum INT64 = 9223372036854775807"
  by (simp_all add: minimum_def maximum_def)

lemma wrap_id: "isInBounds ty v \<Longrightarrow> wrap ty v = v"
  by (cases ty) (simp_all add: wrap_def isInBounds_def)

lemma wrap_shift: "isInBounds ty (v + k * 2 ^ int_bits ty) \<Longrightarrow> wrap ty v = v + k * 2 ^ int_bits ty"
  using wrap_id [of ty "v + k * 2 ^ int_bits ty"] mod_mult_self1 [of "v - minimum ty" k "2 ^ int_bits ty"]
  by (simp add: wrap_def algebra_simps)

lemma wider_bounds: "isInBounds ty v \<Longrightarrow> isInBounds (wider ty) v"
  by (cases ty) (simp_all add: isInBounds_def)

text \<open>A check that computes in a type where the exact result fits is the exact range check.\<close>

lemma check_exact:
  assumes "isInBounds dst exact"
  shows "(if wrap dst exact < minimum src \<or> maximum src < wrap dst exact then None
      else Some (wrap src (wrap dst exact))) = (if isInBounds src exact then Some exact else None)"
  using wrap_id [OF assms] wrap_id [of src exact] by (auto simp: isInBounds_def)

lemma sum_fits: "isInBounds ty l \<Longrightarrow> isInBounds ty r \<Longrightarrow> ty \<notin> {UINT64, INT64} \<Longrightarrow> isInBounds (wider ty) (l + r)"
  by (cases ty) (auto simp: isInBounds_def)

lemma difference_fits:
  "isInBounds ty l \<Longrightarrow> isInBounds ty r \<Longrightarrow> ty \<noteq> INT64 \<Longrightarrow> isSigned ty \<or> r \<le> l \<Longrightarrow> isInBounds (wider ty) (l - r)"
  by (cases ty) (auto simp: isInBounds_def)

lemma AddInPlace_exact:
  assumes "isInBounds ty l" "isInBounds ty r"
  shows "AddInPlace_operation ty l r = (if isInBounds ty (l + r) then Some (l + r) else None)"
proof (cases "ty \<in> {UINT64, INT64}")
  case True
  with assms show ?thesis
    by (auto simp: AddInPlace_operation_def builtin_overflow_def addInPlaceWithOverflowCheck_def
        Let_def isInBounds_def wrap_def)
next
  case False
  have "addInPlaceWithOverflowCheck ty (wider ty) l r = (if isInBounds ty (l + r) then Some (l + r) else None)"
    using check_exact [OF sum_fits [OF assms False], of ty] wrap_id [OF wider_bounds [OF assms(1)]]
      wrap_id [OF wider_bounds [OF assms(2)]] by (simp add: addInPlaceWithOverflowCheck_def Let_def)
  with False show ?thesis by (cases ty) (simp_all add: AddInPlace_operation_def)
qed

lemma SubtractInPlace_exact:
  assumes "isInBounds ty l" "isInBounds ty r"
  shows "SubtractInPlace_operation ty l r = (if isInBounds ty (l - r) then Some (l - r) else None)"
proof (cases "ty = INT64 \<or> \<not> isSigned ty \<and> l < r")
  case True
  with assms show ?thesis
    by (cases ty) (auto simp: SubtractInPlace_operation_def builtin_overflow_def isInBounds_def)
next
  case False
  then have fits: "isInBounds (wider ty) (l - r)" using difference_fits [OF assms] by auto
  have "SubtractInPlaceWithOverflowCheck ty (wider ty) l r = (if isInBounds ty (l - r) then Some (l - r) else None)"
    using check_exact [OF fits, of ty] wrap_id [OF wider_bounds [OF assms(1)]]
      wrap_id [OF wider_bounds [OF assms(2)]] by (simp add: SubtractInPlaceWithOverflowCheck_def Let_def)
  with False show ?thesis by (auto simp: SubtractInPlace_operation_def)
qed

lemma product_fits:
  assumes "isInBounds ty l" "isInBounds ty r" "ty \<notin> {UINT64, INT64}"
  shows "isInBounds (wider ty) (l * r)"
proof -
  define b where "b = max \<bar>minimum ty\<bar> \<bar>maximum ty\<bar>"
  have "\<bar>l\<bar> \<le> b" "\<bar>r\<bar> \<le> b" using assms(1,2) by (auto simp: isInBounds_def b_def)
  then have prod: "\<bar>l * r\<bar> \<le> b * b" unfolding abs_mult by (rule mult_mono) (auto simp: b_def)
  have sign: "0 \<le> l * r" if "\<not> isSigned ty"
    using assms(1,2) that by (cases ty) (simp_all add: isInBounds_def)
  show ?thesis using prod sign assms(3) by (cases ty) (simp_all add: isInBounds_def b_def abs_le_iff)
qed

lemma uint32_mask: "(4294967295 :: int) AND v = v mod 4294967296"
proof -
  have m: "mask 32 = (4294967295 :: int)" by (simp add: mask_eq_exp_minus_1)
  have "take_bit 32 v = v AND mask 32" by (rule take_bit_eq_mask)
  then show ?thesis unfolding m take_bit_eq_mod by (simp add: and.commute)
qed

lemma TryMultiply_uint64_sorted:
  assumes "0 \<le> l" "l \<le> r" "r < 2 ^ 64"
  shows "TryMultiply_uint64 l r = (if l * r < 2 ^ 64 then Some (l * r) else None)"
proof (cases "l < 2 ^ 32")
  case False
  then have "(2 ^ 32 :: int) * 2 ^ 32 \<le> l * r" by (intro mult_mono) (use assms in auto)
  with False assms(2) show ?thesis by (simp add: TryMultiply_uint64_def)
next
  case True
  define c d where "c = r div 2 ^ 32" and "d = r mod 2 ^ 32"
  have cd: "r = c * 2 ^ 32 + d" "0 \<le> c" "c < 2 ^ 32" "0 \<le> d" "d < 2 ^ 32"
    using assms unfolding c_def d_def by (simp_all add: pos_imp_zdiv_nonneg_iff)
  have prod: "l * r = l * c * 2 ^ 32 + l * d" by (simp add: cd(1) algebra_simps)
  have lc: "0 \<le> l * c" "l * c < 2 ^ 64" and ld: "0 \<le> l * d" "l * d < 2 ^ 64"
    using mult_strict_mono [OF True cd(3)] mult_strict_mono [OF True cd(5)] assms(1) cd by simp_all
  have wc: "wrap UINT32 (drop_bit 32 r) = c" and wd: "wrap UINT32 (4294967295 AND r) = d"
    using cd by (simp_all add: drop_bit_eq_div c_def d_def uint32_mask wrap_def)
  have wlc: "wrap UINT64 (l * c) = l * c" and wld: "wrap UINT64 (l * d) = l * d"
    and wsub: "wrap UINT64 (18446744073709551615 - l * d) = 18446744073709551615 - l * d"
    using lc ld by (simp_all add: wrap_def)
  have wp: "wrap UINT64 (push_bit 32 (l * c)) = l * c * 2 ^ 32" if "l * c \<le> 4294967295"
    using that lc wrap_id [of UINT64 "l * c * 2 ^ 32"] by (simp add: isInBounds_def push_bit_eq_mult)
  have mult: "tryMultiplyWithOverflowCheck UINT64 UINT64 l r = Some (l * r)" if "l * r < 2 ^ 64"
    using that assms mult_nonneg_nonneg [OF assms(1) order_trans [OF assms(1,2)]]
    by (simp add: tryMultiplyWithOverflowCheck_def Let_def wrap_def mult_less_0_iff)
  have "TryMultiply_uint64 l r = (if 4294967295 < l * c then None
      else if 18446744073709551615 - l * d < l * c * 2 ^ 32 then None
      else tryMultiplyWithOverflowCheck UINT64 UINT64 l r)"
    using True assms(2) wp ld by (simp add: TryMultiply_uint64_def Let_def wc wd wlc wld wsub)
  moreover have "4294967295 < l * c \<Longrightarrow> \<not> l * r < 2 ^ 64" unfolding prod using ld by simp
  moreover have "18446744073709551615 - l * d < l * c * 2 ^ 32 \<longleftrightarrow> \<not> l * r < 2 ^ 64" unfolding prod by auto
  ultimately show ?thesis using mult by simp
qed

lemma TryMultiply_uint64_comm: "TryMultiply_uint64 l r = TryMultiply_uint64 (min l r) (max l r)"
  by (simp add: TryMultiply_uint64_def min_def max_def)

lemma TryMultiply_exact:
  assumes "isInBounds ty l" "isInBounds ty r"
  shows "TryMultiply_operation ty l r = (if isInBounds ty (l * r) then Some (l * r) else None)"
proof (cases "ty \<in> {UINT64, INT64}")
  case True
  moreover have "TryMultiply_uint64 l r = (if isInBounds UINT64 (l * r) then Some (l * r) else None)" if "ty = UINT64"
  proof -
    have "min l r * max l r = l * r" by (simp add: min_def max_def)
    moreover have "TryMultiply_uint64 l r = (if min l r * max l r < 2 ^ 64 then Some (min l r * max l r) else None)"
      unfolding TryMultiply_uint64_comm [of l r]
      by (rule TryMultiply_uint64_sorted) (use assms that in \<open>auto simp: isInBounds_def\<close>)
    moreover have "0 \<le> l * r" using assms that by (simp add: isInBounds_def)
    ultimately show ?thesis by (auto simp: isInBounds_def)
  qed
  ultimately show ?thesis by (auto simp: TryMultiply_operation_def builtin_overflow_def)
next
  case False
  have "tryMultiplyWithOverflowCheck ty (wider ty) l r = (if isInBounds ty (l * r) then Some (l * r) else None)"
    using check_exact [OF product_fits [OF assms False], of ty] wrap_id [OF wider_bounds [OF assms(1)]]
      wrap_id [OF wider_bounds [OF assms(2)]] by (simp add: tryMultiplyWithOverflowCheck_def Let_def)
  with False show ?thesis by (cases ty) (simp_all add: TryMultiply_operation_def)
qed

lemma abs_sdiv_le: "\<bar>(l :: int) sdiv r\<bar> \<le> \<bar>l\<bar>"
proof -
  have "\<bar>sgn l * sgn r * (\<bar>l\<bar> div \<bar>r\<bar>)\<bar> \<le> \<bar>l\<bar> div \<bar>r\<bar>"
    by (cases "l = 0 \<or> r = 0") (auto simp: abs_mult abs_sgn_eq pos_imp_zdiv_nonneg_iff)
  also have "\<dots> \<le> \<bar>l\<bar>" using zdiv_mono2 [of "\<bar>l\<bar>" 1 "\<bar>r\<bar>"] by (cases "r = 0") auto
  finally show ?thesis by (simp add: signed_divide_int_def)
qed

lemma abs_smod_le: "\<bar>(l :: int) smod r\<bar> \<le> \<bar>l\<bar>"
proof -
  have "\<bar>sgn l * (\<bar>l\<bar> mod \<bar>r\<bar>)\<bar> \<le> \<bar>l\<bar> mod \<bar>r\<bar>"
    by (cases "r = 0") (auto simp: abs_mult abs_sgn_eq)
  also have "\<dots> \<le> \<bar>l\<bar>" by (cases "r = 0") (auto intro: zmod_le_nonneg_dividend)
  finally show ?thesis by (simp add: signed_modulo_int_def)
qed

lemma sdiv_nonneg: "0 \<le> (l :: int) \<Longrightarrow> 0 \<le> r \<Longrightarrow> 0 \<le> l sdiv r"
  by (simp add: signed_divide_int_def sgn_if pos_imp_zdiv_nonneg_iff zero_le_mult_iff)

lemma sdiv_int64:
  assumes "isInBounds INT64 l" "\<not> (l = minimum INT64 \<and> r = - 1)"
  shows "isInBounds INT64 (l sdiv r)"
proof (cases "l = minimum INT64")
  case False
  then have "\<bar>l\<bar> \<le> maximum INT64" using assms(1) by (auto simp: isInBounds_def)
  then have "\<bar>l sdiv r\<bar> \<le> maximum INT64" using abs_sdiv_le [of l r] by (rule order_trans [rotated])
  then show ?thesis by (auto simp: isInBounds_def)
next
  case True
  with assms(2) have "r \<noteq> - 1" by simp
  then consider "0 \<le> r" | "r \<le> - 2" by linarith
  then show ?thesis
  proof cases
    case 1
    have "\<bar>l sdiv r\<bar> \<le> 9223372036854775808" using abs_sdiv_le [of l r] True by simp
    moreover have "l sdiv r \<le> 0"
      using 1 True by (auto simp: signed_divide_int_def sgn_if pos_imp_zdiv_nonneg_iff)
    ultimately show ?thesis by (simp add: isInBounds_def)
  next
    case 2
    have "\<bar>l\<bar> div \<bar>r\<bar> \<le> \<bar>l\<bar> div 2" using 2 by (intro zdiv_mono2) auto
    moreover have "l sdiv r = \<bar>l\<bar> div \<bar>r\<bar>" using 2 True by (simp add: signed_divide_int_def)
    moreover have "0 \<le> \<bar>l\<bar> div \<bar>r\<bar>" using 2 by (simp add: pos_imp_zdiv_nonneg_iff)
    ultimately show ?thesis using True by (simp add: isInBounds_def)
  qed
qed

lemma quotient_fits:
  assumes "isInBounds ty l" "isInBounds ty r" "ty \<noteq> INT64"
  shows "isInBounds (wider ty) (l sdiv r)"
  using abs_sdiv_le [of l r] sdiv_nonneg [of l r] assms
  by (cases ty) (auto simp: isInBounds_def abs_le_iff)

lemma TryDivide_exact:
  assumes "isInBounds ty l" "isInBounds ty r" "r \<noteq> 0"
  shows "TryDivide_operation ty l r = (if isInBounds ty (l sdiv r) then Some (l sdiv r) else None)"
proof (cases "ty = INT64 \<and> l = minimum INT64 \<and> r = - 1")
  case True
  then show ?thesis by (simp add: TryDivide_operation_def isInBounds_def signed_divide_int_def)
next
  case False
  have "isInBounds (wider ty) (l sdiv r)"
  proof (cases "ty = INT64")
    case True
    with sdiv_int64 [of l r] assms(1) False show ?thesis by auto
  next
    case False
    with quotient_fits [OF assms(1,2)] show ?thesis by simp
  qed
  from check_exact [OF this, of ty]
  have "tryDivideWithOverflowCheck ty (wider ty) l r = (if isInBounds ty (l sdiv r) then Some (l sdiv r) else None)"
    using wrap_id [OF wider_bounds [OF assms(1)]] wrap_id [OF wider_bounds [OF assms(2)]]
    by (simp add: tryDivideWithOverflowCheck_def Let_def)
  with False show ?thesis unfolding TryDivide_operation_def by (simp only: if_False)
qed

lemma remainder_fits:
  assumes "isInBounds ty l" "isSigned ty"
  shows "isInBounds ty (l smod r)"
proof -
  have nonneg: "0 \<le> \<bar>l\<bar> mod \<bar>r\<bar>" by (cases "r = 0") auto
  have "0 \<le> l \<Longrightarrow> 0 \<le> l smod r" "l \<le> 0 \<Longrightarrow> l smod r \<le> 0"
    using nonneg unfolding signed_modulo_int_def by (simp_all add: sgn_if)
  with abs_smod_le [of l r] assms show ?thesis
    by (cases ty; cases "0 \<le> l") (auto simp: isInBounds_def abs_le_iff)
qed

lemma TryModulo_exact:
  assumes "isInBounds ty l" "isInBounds ty r" "isSigned ty"
  shows "TryModulo_operation ty l r = (if l = minimum ty \<and> r = - 1 then None else Some (l smod r))"
proof -
  note fits = remainder_fits [OF assms(1,3), of r]
  have "wrap ty (wrap (wider ty) (wrap (wider ty) l smod wrap (wider ty) r)) = l smod r"
    using wrap_id [OF wider_bounds [OF assms(1)]] wrap_id [OF wider_bounds [OF assms(2)]]
      wrap_id [OF wider_bounds [OF fits]] wrap_id [OF fits] by simp
  then show ?thesis by (auto simp: TryModulo_operation_def tryModuloWithOverflowCheck_def)
qed

lemma negate_abs_exact:
  assumes "isInBounds ty v" "isSigned ty"
  shows "NegateInPlace_operation ty v = (if isInBounds ty (- v) then Some (- v) else None)"
    "AbsInPlace_operation ty v = (if isInBounds ty \<bar>v\<bar> then Some \<bar>v\<bar> else None)"
proof -
  have "v = minimum ty \<longleftrightarrow> \<not> isInBounds ty (- v)" "v = minimum ty \<longleftrightarrow> \<not> isInBounds ty \<bar>v\<bar>"
    using assms by (cases ty; auto simp: isInBounds_def)+
  then show "NegateInPlace_operation ty v = (if isInBounds ty (- v) then Some (- v) else None)"
    "AbsInPlace_operation ty v = (if isInBounds ty \<bar>v\<bar> then Some \<bar>v\<bar> else None)"
    using wrap_id [of ty "- v"] wrap_id [of ty "\<bar>v\<bar>"]
    by (auto simp: NegateInPlace_operation_def AbsInPlace_operation_def)
qed

section \<open>Properties\<close>



text \<open>
  The portable addition and subtraction of signed 64-bit integers, which decide by the signs of
  wrapped results and by shifted bounds, agree with the overflow builtins on all operands.
\<close>

theorem portable_add_subtract_agree:
  assumes "isInBounds INT64 l" "isInBounds INT64 r"
  shows "AddInPlace_portable l r = AddInPlace_operation INT64 l r \<and>
    SubtractInPlace_portable l r = SubtractInPlace_operation INT64 l r"
proof
  have "wrap INT64 (wrap UINT64 (wrap UINT64 l + wrap UINT64 r)) = wrap INT64 (l + r)"
    by (simp add: wrap_def mod_simps)
  also have "\<dots> = (if l + r < minimum INT64 then l + r + 2 ^ 64
      else if maximum INT64 < l + r then l + r - 2 ^ 64 else l + r)"
    using assms wrap_shift [of INT64 "l + r" 1] wrap_shift [of INT64 "l + r" "- 1"] wrap_id [of INT64 "l + r"]
    by (auto simp: isInBounds_def)
  finally have "wrap INT64 (wrap UINT64 (wrap UINT64 l + wrap UINT64 r)) =
      (if l + r < minimum INT64 then l + r + 2 ^ 64 else if maximum INT64 < l + r then l + r - 2 ^ 64 else l + r)" .
  with assms show "AddInPlace_portable l r = AddInPlace_operation INT64 l r"
    by (auto simp: AddInPlace_portable_def AddInPlace_operation_def builtin_overflow_def Let_def isInBounds_def)
  show "SubtractInPlace_portable l r = SubtractInPlace_operation INT64 l r"
    using assms by (auto simp: SubtractInPlace_portable_def SubtractInPlace_operation_def
        builtin_overflow_def isInBounds_def)
qed

theorem portable_add_subtract_agree_witness:
  "AddInPlace_portable 9223372036854775807 1 = AddInPlace_operation INT64 9223372036854775807 1 \<and>
    SubtractInPlace_portable 9223372036854775807 1 = SubtractInPlace_operation INT64 9223372036854775807 1"
  by (rule portable_add_subtract_agree) (simp_all add: isInBounds_def)


end
