(* ===== verification/Undo_Buffer.thy ===== *)
theory Undo_Buffer
  imports Snapshot
begin

text \<open>
  The undo buffer of a transaction (\<^verbatim>\<open>storage/undo_buffer.cpp\<close>): records written one after the other
  into memory buffers, each behind a header that gives its type and size, and read back by walking
  from header to header. A buffer is a partial map from byte positions to what was written there;
  pointers into the database are the identities of the objects they point to. The sizes are those
  of the LP64 data model; \<^verbatim>\<open>RYU_PAGE_SIZE\<close> is set by the build and is the argument \<open>pageSize\<close>.
\<close>

section \<open>Records\<close>

datatype UndoRecordType = CATALOG_ENTRY | SEQUENCE_ENTRY | UPDATE_INFO | INSERT_INFO | DELETE_INFO

record SequenceRollbackData =
  rollbackUsageCount :: "64 word"
  rollbackCurrVal :: "64 word"

text \<open>The update information of a column of a chunked group, by its place in the database.\<close>

record ChunkRef =
  refTable :: nat
  refNodeGroup :: nat
  refChunkedGroup :: nat
  refColumn :: nat

datatype UndoRecord =
  CatalogEntryRecord (recordSet: nat) (recordEntry: nat)
| SequenceEntryRecord (recordSequence: nat) (recordRollback: SequenceRollbackData)
| VersionRecord (recordStartRow: nat) (recordNumRows: nat) (recordNodeGroup: nat) (recordHandler: nat)
| VectorUpdateRecord (recordUpdateInfo: ChunkRef) (recordVectorIdx: nat) (recordInfo: nat)
    (recordVersion: transaction_t)

record UndoRecordHeader =
  recordType :: UndoRecordType
  recordSize :: nat

definition sizeof_UndoRecordHeader :: nat where
  "sizeof_UndoRecordHeader = 8"

fun sizeof_record :: "UndoRecord \<Rightarrow> nat" where
  "sizeof_record (CatalogEntryRecord _ _) = 16"
| "sizeof_record (SequenceEntryRecord _ _) = 24"
| "sizeof_record (VersionRecord _ _ _ _) = 32"
| "sizeof_record (VectorUpdateRecord _ _ _ _) = 32"

section \<open>Memory buffers\<close>

datatype memory_cell = HeaderCell UndoRecordHeader | RecordCell UndoRecord

record UndoMemoryBuffer =
  memory :: "nat \<Rightarrow> memory_cell option"
  bufferCapacity :: nat
  currentPosition :: nat

definition UndoMemoryBuffer_new :: "nat \<Rightarrow> UndoMemoryBuffer" where
  "UndoMemoryBuffer_new capacity =
     \<lparr>memory = (\<lambda>_. None), bufferCapacity = capacity, currentPosition = 0\<rparr>"

definition moveCurrentPosition :: "nat \<Rightarrow> UndoMemoryBuffer \<Rightarrow> UndoMemoryBuffer" where
  "moveCurrentPosition offset b = b\<lparr>currentPosition := currentPosition b + offset\<rparr>"

definition canFit :: "nat \<Rightarrow> UndoMemoryBuffer \<Rightarrow> bool" where
  "canFit sz b \<longleftrightarrow> currentPosition b + sz \<le> bufferCapacity b"

text \<open>The capacity of a new buffer is doubled until the record fits.\<close>

partial_function (option) grow_capacity :: "nat \<Rightarrow> nat \<Rightarrow> nat option" where
  "grow_capacity sz capacity =
     (if capacity < sz then grow_capacity sz (capacity * 2) else Some capacity)"

declare grow_capacity.simps [code]

definition createUndoRecord :: "nat \<Rightarrow> nat \<Rightarrow> UndoMemoryBuffer list \<Rightarrow> (nat \<times> UndoMemoryBuffer list) option" where
  "createUndoRecord pageSize sz memoryBuffers =
     map_option (\<lambda>buffers. (currentPosition (last buffers),
         butlast buffers @ [moveCurrentPosition sz (last buffers)]))
       (if memoryBuffers = [] \<or> \<not> canFit sz (last memoryBuffers)
        then map_option (\<lambda>capacity. memoryBuffers @ [UndoMemoryBuffer_new capacity])
               (grow_capacity sz pageSize)
        else Some memoryBuffers)"

definition write_cell :: "nat \<Rightarrow> memory_cell \<Rightarrow> UndoMemoryBuffer list \<Rightarrow> UndoMemoryBuffer list" where
  "write_cell pos cell buffers =
     butlast buffers @ [(last buffers)\<lparr>memory := (memory (last buffers))(pos \<mapsto> cell)\<rparr>]"

text \<open>
  The four creators share the steps: reserve the space, write the header, advance past it, write the
  record.
\<close>

definition write_record :: "UndoRecordType \<Rightarrow> UndoRecord \<Rightarrow> nat \<times> UndoMemoryBuffer list \<Rightarrow> UndoMemoryBuffer list" where
  "write_record type r = (\<lambda>(buffer, ub). write_cell (buffer + sizeof_UndoRecordHeader) (RecordCell r)
     (write_cell buffer (HeaderCell \<lparr>recordType = type, recordSize = sizeof_record r\<rparr>) ub))"

definition create_record :: "nat \<Rightarrow> UndoRecordType \<Rightarrow> UndoRecord \<Rightarrow> UndoMemoryBuffer list \<Rightarrow>
    UndoMemoryBuffer list option" where
  "create_record pageSize type r ub = map_option (write_record type r)
     (createUndoRecord pageSize (sizeof_UndoRecordHeader + sizeof_record r) ub)"

definition createCatalogEntry :: "nat \<Rightarrow> nat \<Rightarrow> nat \<Rightarrow> UndoMemoryBuffer list \<Rightarrow> UndoMemoryBuffer list option" where
  "createCatalogEntry pageSize catalogSet catalogEntry =
     create_record pageSize CATALOG_ENTRY (CatalogEntryRecord catalogSet catalogEntry)"

definition createSequenceChange :: "nat \<Rightarrow> nat \<Rightarrow> SequenceRollbackData \<Rightarrow> UndoMemoryBuffer list \<Rightarrow>
    UndoMemoryBuffer list option" where
  "createSequenceChange pageSize sequenceEntry data =
     create_record pageSize SEQUENCE_ENTRY (SequenceEntryRecord sequenceEntry data)"

definition createVersionInfo :: "nat \<Rightarrow> UndoRecordType \<Rightarrow> nat \<Rightarrow> nat \<Rightarrow> nat \<Rightarrow> nat \<Rightarrow> UndoMemoryBuffer list \<Rightarrow>
    UndoMemoryBuffer list option" where
  "createVersionInfo pageSize type startRow numRows versionRecordHandler nodeGroupIdx =
     create_record pageSize type (VersionRecord startRow numRows nodeGroupIdx versionRecordHandler)"

definition createInsertInfo :: "nat \<Rightarrow> nat \<Rightarrow> nat \<Rightarrow> nat \<Rightarrow> nat \<Rightarrow> UndoMemoryBuffer list \<Rightarrow>
    UndoMemoryBuffer list option" where
  "createInsertInfo pageSize nodeGroupIdx startRow numRows versionRecordHandler =
     createVersionInfo pageSize INSERT_INFO startRow numRows versionRecordHandler nodeGroupIdx"

definition createDeleteInfo :: "nat \<Rightarrow> nat \<Rightarrow> nat \<Rightarrow> nat \<Rightarrow> nat \<Rightarrow> UndoMemoryBuffer list \<Rightarrow>
    UndoMemoryBuffer list option" where
  "createDeleteInfo pageSize nodeGroupIdx startRow numRows versionRecordHandler =
     createVersionInfo pageSize DELETE_INFO startRow numRows versionRecordHandler nodeGroupIdx"

definition createVectorUpdateInfo :: "nat \<Rightarrow> ChunkRef \<Rightarrow> nat \<Rightarrow> nat \<Rightarrow> transaction_t \<Rightarrow>
    UndoMemoryBuffer list \<Rightarrow> UndoMemoryBuffer list option" where
  "createVectorUpdateInfo pageSize ui vectorIdx info ver =
     create_record pageSize UPDATE_INFO (VectorUpdateRecord ui vectorIdx info ver)"

section \<open>Iteration\<close>

type_synonym undo_entry = "UndoRecordType \<times> UndoRecord"

text \<open>
  The walk over one buffer: the header at the current position, the record behind it, and on to the
  next header. Reading a position where nothing (or something else) was written is None.
\<close>

function buffer_entries :: "(nat \<Rightarrow> memory_cell option) \<Rightarrow> nat \<Rightarrow> nat \<Rightarrow> undo_entry list option" where
  "buffer_entries mem current end =
     (if current < end
      then (case (mem current, mem (current + sizeof_UndoRecordHeader)) of
              (Some (HeaderCell h), Some (RecordCell r)) \<Rightarrow>
                map_option ((#) (recordType h, r))
                  (buffer_entries mem (current + sizeof_UndoRecordHeader + recordSize h) end)
            | _ \<Rightarrow> None)
      else Some [])"
  by auto
termination
  by (relation "measure (\<lambda>(_, current, end). end - current)") (auto simp: sizeof_UndoRecordHeader_def)

declare buffer_entries.simps [simp del]

fun for_entries :: "(undo_entry \<Rightarrow> 's \<Rightarrow> exn option \<times> 's) \<Rightarrow> undo_entry list \<Rightarrow> 's \<Rightarrow> exn option \<times> 's" where
  "for_entries callback [] s = (None, s)"
| "for_entries callback (e # es) s =
     (case callback e s of (None, s) \<Rightarrow> for_entries callback es s | (Some ex, s) \<Rightarrow> (Some ex, s))"

fun iterate :: "(undo_entry \<Rightarrow> 's \<Rightarrow> exn option \<times> 's) \<Rightarrow> UndoMemoryBuffer list \<Rightarrow> 's \<Rightarrow>
    (exn option \<times> 's) option" where
  "iterate callback [] s = Some (None, s)"
| "iterate callback (b # buffers) s =
     Option.bind (buffer_entries (memory b) 0 (currentPosition b)) (\<lambda>entries.
       case for_entries callback entries s of
         (None, s) \<Rightarrow> iterate callback buffers s
       | (Some ex, s) \<Rightarrow> Some (Some ex, s))"

text \<open>The reverse iteration collects the entries of a buffer and visits them from the last one.\<close>

fun reverse_loop :: "(undo_entry \<Rightarrow> 's \<Rightarrow> exn option \<times> 's) \<Rightarrow> UndoMemoryBuffer list \<Rightarrow> nat \<Rightarrow> 's \<Rightarrow>
    (exn option \<times> 's) option" where
  "reverse_loop callback buffers 0 s = Some (None, s)"
| "reverse_loop callback buffers (Suc numBuffersLeft) s =
     (let b = buffers ! numBuffersLeft in
      Option.bind (buffer_entries (memory b) 0 (currentPosition b)) (\<lambda>entries.
        case for_entries callback (rev entries) s of
          (None, s) \<Rightarrow> reverse_loop callback buffers numBuffersLeft s
        | (Some ex, s) \<Rightarrow> Some (Some ex, s)))"

definition reverseIterate :: "(undo_entry \<Rightarrow> 's \<Rightarrow> exn option \<times> 's) \<Rightarrow> UndoMemoryBuffer list \<Rightarrow> 's \<Rightarrow>
    (exn option \<times> 's) option" where
  "reverseIterate callback buffers s = reverse_loop callback buffers (length buffers) s"

section \<open>The layout of a buffer\<close>

text \<open>\<open>laid_out mem p es q\<close>: the entries stand one behind the other from position \<open>p\<close> up to \<open>q\<close>.\<close>

fun laid_out :: "(nat \<Rightarrow> memory_cell option) \<Rightarrow> nat \<Rightarrow> undo_entry list \<Rightarrow> nat \<Rightarrow> bool" where
  "laid_out mem p [] q \<longleftrightarrow> p = q"
| "laid_out mem p (e # es) q \<longleftrightarrow>
     mem p = Some (HeaderCell \<lparr>recordType = fst e, recordSize = sizeof_record (snd e)\<rparr>) \<and>
     mem (p + sizeof_UndoRecordHeader) = Some (RecordCell (snd e)) \<and>
     laid_out mem (p + sizeof_UndoRecordHeader + sizeof_record (snd e)) es q"

definition buffer_ok :: "UndoMemoryBuffer \<Rightarrow> undo_entry list \<Rightarrow> bool" where
  "buffer_ok b es \<longleftrightarrow> laid_out (memory b) 0 es (currentPosition b) \<and> currentPosition b \<le> bufferCapacity b"

definition undo_inv :: "UndoMemoryBuffer list \<Rightarrow> undo_entry list \<Rightarrow> bool" where
  "undo_inv buffers es \<longleftrightarrow> (\<exists>ess. list_all2 buffer_ok buffers ess \<and> es = concat ess)"

lemma sizeof_record_pos: "0 < sizeof_record r"
  by (cases r) auto

lemma laid_out_le: "laid_out mem p es q \<Longrightarrow> p \<le> q"
proof (induction es arbitrary: p)
  case (Cons e es)
  then have "p + sizeof_UndoRecordHeader + sizeof_record (snd e) \<le> q" by simp
  then show ?case by simp
qed simp

lemma laid_out_Cons_less: "laid_out mem p (e # es) q \<Longrightarrow> p + sizeof_UndoRecordHeader < q"
  using laid_out_le [of mem "p + sizeof_UndoRecordHeader + sizeof_record (snd e)" es q]
    sizeof_record_pos [of "snd e"] by simp

lemma laid_out_entries: "laid_out mem p es q \<Longrightarrow> buffer_entries mem p q = Some es"
proof (induction es arbitrary: p)
  case Nil
  then show ?case by (subst buffer_entries.simps) simp
next
  case (Cons e es)
  have "p < q" using laid_out_Cons_less [OF Cons.prems] by simp
  with Cons show ?case by (subst buffer_entries.simps) simp
qed

lemma laid_out_frame: "laid_out mem p es q \<Longrightarrow> (\<And>k. k < q \<Longrightarrow> mem' k = mem k) \<Longrightarrow> laid_out mem' p es q"
proof (induction es arbitrary: p)
  case (Cons e es)
  with laid_out_Cons_less [OF Cons.prems(1)] show ?case by simp
qed simp

lemma laid_out_snoc:
  "laid_out mem p es q \<Longrightarrow> laid_out mem q [e] q' \<Longrightarrow> laid_out mem p (es @ [e]) q'"
  by (induction es arbitrary: p) auto

lemma grow_capacity_returns:
  assumes "0 < capacity"
  shows "\<exists>c. grow_capacity sz capacity = Some c \<and> sz \<le> c \<and> capacity \<le> c"
  using assms
proof (induction "sz - capacity" arbitrary: capacity rule: less_induct)
  case less
  show ?case
  proof (cases "capacity < sz")
    case True
    with less(1) [of "capacity * 2"] less(2) show ?thesis
      by (subst grow_capacity.simps) fastforce
  qed (subst grow_capacity.simps, simp)
qed

lemma add_record:
  assumes "buffer_ok b es" "canFit (sizeof_UndoRecordHeader + sizeof_record r) b"
  shows "buffer_ok (b\<lparr>memory := (memory b)(currentPosition b \<mapsto> HeaderCell \<lparr>recordType = type, recordSize = sizeof_record r\<rparr>,
        currentPosition b + sizeof_UndoRecordHeader \<mapsto> RecordCell r),
      currentPosition := currentPosition b + (sizeof_UndoRecordHeader + sizeof_record r)\<rparr>) (es @ [(type, r)])"
    (is "buffer_ok ?b _")
proof -
  have "laid_out (memory b) 0 es (currentPosition b)" using assms(1) by (simp add: buffer_ok_def)
  then have "laid_out (memory ?b) 0 es (currentPosition b)" by (rule laid_out_frame) simp
  then have "laid_out (memory ?b) 0 (es @ [(type, r)]) (currentPosition ?b)"
    by (rule laid_out_snoc) (simp add: sizeof_UndoRecordHeader_def)
  with assms(2) show ?thesis by (simp add: buffer_ok_def canFit_def)
qed

lemma new_buffer_ok: "buffer_ok (UndoMemoryBuffer_new c) []"
  by (simp add: buffer_ok_def UndoMemoryBuffer_new_def)

text \<open>
  Writing a record never fails: it is appended to the entries the buffer holds, in the last memory
  buffer where it fits and in a new one otherwise, and no buffer is filled beyond its capacity.
\<close>

lemma undo_inv_Nil: "undo_inv [] []"
  by (auto simp: undo_inv_def)

lemma undo_inv_snoc: "undo_inv (bs @ [b]) es \<longleftrightarrow> (\<exists>es' eb. undo_inv bs es' \<and> buffer_ok b eb \<and> es = es' @ eb)"
proof
  assume "undo_inv (bs @ [b]) es"
  then obtain ess where "list_all2 buffer_ok (bs @ [b]) ess" and es: "es = concat ess"
    by (auto simp: undo_inv_def)
  then obtain us vs where u: "ess = us @ vs" "list_all2 buffer_ok bs us" "list_all2 buffer_ok [b] vs"
    unfolding list_all2_append1 by blast
  then obtain eb where "vs = [eb]" "buffer_ok b eb" by (auto simp: list_all2_Cons1)
  with u es show "\<exists>es' eb. undo_inv bs es' \<and> buffer_ok b eb \<and> es = es' @ eb"
    by (auto simp: undo_inv_def)
next
  assume "\<exists>es' eb. undo_inv bs es' \<and> buffer_ok b eb \<and> es = es' @ eb"
  then obtain ess eb where e: "list_all2 buffer_ok bs ess" "buffer_ok b eb" "es = concat (ess @ [eb])"
    by (auto simp: undo_inv_def)
  from e(1,2) have "list_all2 buffer_ok (bs @ [b]) (ess @ [eb])" by (simp add: list_all2_appendI)
  with e(3) show "undo_inv (bs @ [b]) es" unfolding undo_inv_def by blast
qed

lemma write_record_ok:
  assumes "undo_inv bs es" "buffer_ok b eb" "canFit (sizeof_UndoRecordHeader + sizeof_record r) b"
  shows "undo_inv (write_record type r (currentPosition b,
      bs @ [moveCurrentPosition (sizeof_UndoRecordHeader + sizeof_record r) b])) (es @ eb @ [(type, r)])"
proof -
  have "write_record type r (currentPosition b,
      bs @ [moveCurrentPosition (sizeof_UndoRecordHeader + sizeof_record r) b]) =
    bs @ [b\<lparr>memory := (memory b)(currentPosition b \<mapsto> HeaderCell \<lparr>recordType = type, recordSize = sizeof_record r\<rparr>,
        currentPosition b + sizeof_UndoRecordHeader \<mapsto> RecordCell r),
      currentPosition := currentPosition b + (sizeof_UndoRecordHeader + sizeof_record r)\<rparr>]"
    by (simp add: write_record_def write_cell_def moveCurrentPosition_def)
  with add_record [OF assms(2,3), of type] assms(1) show ?thesis
    by (simp only: undo_inv_snoc) blast
qed

lemma create_record_appends:
  assumes "undo_inv ub es" "0 < pageSize"
  shows "\<exists>ub'. create_record pageSize type r ub = Some ub' \<and> undo_inv ub' (es @ [(type, r)])"
proof -
  let ?n = "sizeof_UndoRecordHeader + sizeof_record r"
  show ?thesis
  proof (cases "ub = [] \<or> \<not> canFit ?n (last ub)")
    case True
    obtain c where c: "grow_capacity ?n pageSize = Some c" "?n \<le> c"
      using grow_capacity_returns [OF assms(2), of ?n] by auto
    have "canFit ?n (UndoMemoryBuffer_new c)" using c(2) by (simp add: canFit_def UndoMemoryBuffer_new_def)
    from write_record_ok [OF assms(1) new_buffer_ok this, of type] True c(1) show ?thesis
      by (simp add: create_record_def createUndoRecord_def)
  next
    case False
    then obtain bs b where ub: "ub = bs @ [b]" by (metis rev_exhaust)
    with assms(1) obtain es' eb where es: "undo_inv bs es'" "buffer_ok b eb" "es = es' @ eb"
      by (auto simp: undo_inv_snoc)
    from write_record_ok [OF es(1,2), of r type] False ub es(3) show ?thesis
      by (simp add: create_record_def createUndoRecord_def)
  qed
qed

lemma for_entries_append:
  "for_entries f (xs @ ys) s =
    (case for_entries f xs s of (None, s) \<Rightarrow> for_entries f ys s | (Some ex, s) \<Rightarrow> (Some ex, s))"
  by (induction xs arbitrary: s) (auto split: prod.split option.split)

lemma buffer_ok_entries: "buffer_ok b es \<Longrightarrow> buffer_entries (memory b) 0 (currentPosition b) = Some es"
  by (simp add: buffer_ok_def laid_out_entries)

lemma iterate_entries:
  assumes "undo_inv ub es"
  shows "iterate f ub s = Some (for_entries f es s)"
proof -
  have "iterate f ub s = Some (for_entries f (concat ess) s)" if "list_all2 buffer_ok ub ess" for ess
    using that by (induction arbitrary: s rule: list_all2_induct)
      (auto simp: buffer_ok_entries for_entries_append split: prod.split option.split)
  with assms show ?thesis by (auto simp: undo_inv_def)
qed

lemma reverse_loop_butlast:
  "n \<le> length bs \<Longrightarrow> reverse_loop f (bs @ bs') n s = reverse_loop f bs n s"
  by (induction n arbitrary: s) (auto simp: Let_def nth_append intro!: Option.bind_cong split: prod.split option.split)

lemma reverseIterate_entries:
  "undo_inv ub es \<Longrightarrow> reverseIterate f ub s = Some (for_entries f (rev es) s)"
proof (induction ub arbitrary: es s rule: rev_induct)
  case Nil
  then show ?case by (simp add: undo_inv_def reverseIterate_def)
next
  case (snoc b bs)
  then obtain es' eb where es: "undo_inv bs es'" "buffer_ok b eb" "es = es' @ eb"
    by (auto simp: undo_inv_snoc)
  with snoc.IH show ?case
    by (auto simp: reverseIterate_def Let_def buffer_ok_entries for_entries_append reverse_loop_butlast
        split: prod.split option.split)
qed

text \<open>The entries of an undo buffer written by a sequence of creations.\<close>

fun create_records :: "nat \<Rightarrow> undo_entry list \<Rightarrow> UndoMemoryBuffer list \<Rightarrow> UndoMemoryBuffer list option" where
  "create_records pageSize [] ub = Some ub"
| "create_records pageSize (e # es) ub =
     Option.bind (create_record pageSize (fst e) (snd e) ub) (create_records pageSize es)"

lemma create_records_appends:
  "undo_inv ub es \<Longrightarrow> 0 < pageSize \<Longrightarrow>
    \<exists>ub'. create_records pageSize es' ub = Some ub' \<and> undo_inv ub' (es @ es')"
proof (induction es' arbitrary: ub es)
  case (Cons e es')
  from create_record_appends [OF Cons.prems, of "fst e" "snd e"] obtain ub1
    where "create_record pageSize (fst e) (snd e) ub = Some ub1" "undo_inv ub1 (es @ [e])" by auto
  with Cons.IH [OF this(2) Cons.prems(2)] show ?case by simp
qed simp

section \<open>Properties\<close>

text \<open>
  C11: the records a transaction writes are all there: writing returns, whatever the page size, the
  iteration of the commit visits them in the order they were written, the iteration of the rollback
  in the opposite order, and no buffer is filled beyond its capacity.
\<close>

theorem undo_records_iterated:
  assumes "0 < pageSize"
  shows "\<exists>ub. create_records pageSize es [] = Some ub \<and>
    iterate f ub s = Some (for_entries f es s) \<and>
    reverseIterate f ub s = Some (for_entries f (rev es) s) \<and>
    list_all (\<lambda>b. currentPosition b \<le> bufferCapacity b) ub"
proof -
  obtain ub where ub: "create_records pageSize es [] = Some ub" "undo_inv ub es"
    using create_records_appends [OF undo_inv_Nil assms, of es] by auto
  have "list_all (\<lambda>b. currentPosition b \<le> bufferCapacity b) ub"
    using ub(2) by (auto simp: undo_inv_def list_all2_conv_all_nth list_all_length buffer_ok_def)
  with ub iterate_entries [OF ub(2)] reverseIterate_entries [OF ub(2)] show ?thesis by auto
qed

theorem undo_records_iterated_witness:
  "\<exists>ub. create_records 48 [(INSERT_INFO, VersionRecord 0 3 0 1), (DELETE_INFO, VersionRecord 1 1 0 1)] [] = Some ub \<and>
    iterate (\<lambda>e s. (None, s @ [fst e])) ub [] = Some (None, [INSERT_INFO, DELETE_INFO]) \<and>
    reverseIterate (\<lambda>e s. (None, s @ [fst e])) ub [] = Some (None, [DELETE_INFO, INSERT_INFO]) \<and>
    list_all (\<lambda>b. currentPosition b \<le> bufferCapacity b) ub"
  using undo_records_iterated [of 48 "[(INSERT_INFO, VersionRecord 0 3 0 1), (DELETE_INFO, VersionRecord 1 1 0 1)]"
      "\<lambda>e s. (None, s @ [fst e])" "[]"] by simp

end
