(* ===== verification/Sequence_Entry.thy ===== *)
theory Sequence_Entry
  imports Checked_Arith Undo_Buffer Serializer
begin

text \<open>
  Sequences (\<^verbatim>\<open>catalog/catalog_entry/sequence_catalog_entry.cpp\<close>): the counter behind \<^verbatim>\<open>nextval\<close> and
  the \<^verbatim>\<open>SERIAL\<close> columns. The signed 64-bit fields are their mathematical values, the additions are
  the checked ones; the lock is not modelled, each operation is one step.
\<close>

record SequenceData =
  usageCount :: "64 word"
  currVal :: int
  increment :: int
  startValue :: int
  minValue :: int
  maxValue :: int
  cycle :: bool

text \<open>The fields of \<^verbatim>\<open>BoundCreateSequenceInfo\<close> the entry is built from.\<close>

definition SequenceData_new :: "int \<Rightarrow> int \<Rightarrow> int \<Rightarrow> int \<Rightarrow> bool \<Rightarrow> SequenceData" where
  "SequenceData_new startWith inc minV maxV cyc =
     \<lparr>usageCount = 0, currVal = startWith, increment = inc, startValue = startWith, minValue = minV,
      maxValue = maxV, cycle = cyc\<rparr>"

definition SequenceCatalogEntry_currVal :: "SequenceData \<Rightarrow> exn + int" where
  "SequenceCatalogEntry_currVal sd =
     (if usageCount sd = 0 then Inl (CatalogException ''currval: sequence is not yet defined.'')
      else Inr (currVal sd))"

definition nextValNoLock :: "SequenceData \<Rightarrow> exn + SequenceData" where
  "nextValNoLock sd =
     (if usageCount sd = 0 then Inr (sd\<lparr>usageCount := usageCount sd + 1\<rparr>)
      else
        let sum = Add_operation INT64 (currVal sd) (increment sd);
            overflow = (case sum of Inl _ \<Rightarrow> True | Inr _ \<Rightarrow> False);
            nxt = (case sum of Inl _ \<Rightarrow> currVal sd | Inr v \<Rightarrow> v)
        in if cycle sd
           then Inr (sd\<lparr>currVal :=
                    (if overflow then if increment sd < 0 then maxValue sd else minValue sd
                     else if nxt < minValue sd then maxValue sd
                     else if maxValue sd < nxt then minValue sd else nxt),
                    usageCount := usageCount sd + 1\<rparr>)
           else if (if overflow then increment sd < 0 else nxt < minValue sd)
           then Inl (CatalogException ''nextval: reached minimum value of sequence'')
           else if (if overflow then 0 < increment sd else maxValue sd < nxt)
           then Inl (CatalogException ''nextval: reached maximum value of sequence'')
           else Inr (sd\<lparr>currVal := nxt, usageCount := usageCount sd + 1\<rparr>))"

text \<open>
  \<open>count\<close> steps, the values handed out in order; an exception leaves the steps before it in place,
  and no undo record is pushed then.
\<close>

fun next_vals :: "nat \<Rightarrow> SequenceData \<Rightarrow> (exn option \<times> int list) \<times> SequenceData" where
  "next_vals 0 sd = ((None, []), sd)"
| "next_vals (Suc count) sd =
     (case nextValNoLock sd of
        Inl e \<Rightarrow> ((Some e, []), sd)
      | Inr sd' \<Rightarrow> (let ((r, vs), sd'') = next_vals count sd' in ((r, currVal sd' # vs), sd'')))"

definition nextKVal :: "nat \<Rightarrow> SequenceData \<Rightarrow>
    (exn + int list \<times> SequenceRollbackData) \<times> SequenceData" where
  "nextKVal count sd =
     (let rollbackData = \<lparr>rollbackUsageCount = usageCount sd, rollbackCurrVal = word_of_int (currVal sd)\<rparr>
      in case next_vals count sd of
           ((Some e, _), sd') \<Rightarrow> (Inl e, sd')
         | ((None, vs), sd') \<Rightarrow> (Inr (vs, rollbackData), sd'))"

definition rollbackVal :: "SequenceRollbackData \<Rightarrow> SequenceData \<Rightarrow> SequenceData" where
  "rollbackVal data sd =
     sd\<lparr>usageCount := rollbackUsageCount data, currVal := sint (rollbackCurrVal data)\<rparr>"

definition SequenceData_serialize :: "SequenceData \<Rightarrow> byte list" where
  "SequenceData_serialize sd =
     serializeValue (usageCount sd) @ serializeValue (word_of_int (currVal sd) :: 64 word) @
     serializeValue (word_of_int (increment sd) :: 64 word) @
     serializeValue (word_of_int (startValue sd) :: 64 word) @
     serializeValue (word_of_int (minValue sd) :: 64 word) @
     serializeValue (word_of_int (maxValue sd) :: 64 word) @ serializeBool (cycle sd)"

definition deserializeInt64 :: "int reader" where
  "deserializeInt64 bs = map_option (\<lambda>(w :: 64 word, bs). (sint w, bs)) (deserializeValue bs)"

definition SequenceData_deserialize :: "SequenceData reader" where
  "SequenceData_deserialize bs =
     Option.bind (deserializeValue bs) (\<lambda>(u, bs).
     Option.bind (deserializeInt64 bs) (\<lambda>(c, bs).
     Option.bind (deserializeInt64 bs) (\<lambda>(i, bs).
     Option.bind (deserializeInt64 bs) (\<lambda>(s, bs).
     Option.bind (deserializeInt64 bs) (\<lambda>(mi, bs).
     Option.bind (deserializeInt64 bs) (\<lambda>(ma, bs).
     Option.bind (deserializeBool bs) (\<lambda>(cyc, bs).
       Some (\<lparr>usageCount = u, currVal = c, increment = i, startValue = s, minValue = mi, maxValue = ma,
              cycle = cyc\<rparr>, bs))))))))"

section \<open>The range of a sequence\<close>

text \<open>What the binder checks when a sequence is created.\<close>

definition seq_inv :: "SequenceData \<Rightarrow> bool" where
  "seq_inv sd \<longleftrightarrow> isInBounds INT64 (minValue sd) \<and> isInBounds INT64 (maxValue sd) \<and>
     isInBounds INT64 (increment sd) \<and> increment sd \<noteq> 0 \<and>
     minValue sd \<le> currVal sd \<and> currVal sd \<le> maxValue sd \<and>
     minValue sd \<le> startValue sd \<and> startValue sd \<le> maxValue sd"

lemma seq_bounds: "seq_inv sd \<Longrightarrow> isInBounds INT64 (currVal sd)"
  by (auto simp: seq_inv_def isInBounds_def)

lemma Add_int64:
  "isInBounds INT64 l \<Longrightarrow> isInBounds INT64 r \<Longrightarrow> Add_operation INT64 l r =
    (if isInBounds INT64 (l + r) then Inr (l + r) else Inl (OverflowException ''Value + is not within range''))"
  by (simp add: Add_operation_def or_overflow_def AddInPlace_exact)

text \<open>A step in closed form: the sum decides, and a sum outside the 64 bits is outside the range.\<close>

definition step_value :: "SequenceData \<Rightarrow> int option" where
  "step_value sd =
     (let s = currVal sd + increment sd in
      if minValue sd \<le> s \<and> s \<le> maxValue sd then Some s
      else if \<not> cycle sd then None else if s < minValue sd then Some (maxValue sd) else Some (minValue sd))"

lemma nextVal_step:
  assumes "seq_inv sd" "usageCount sd \<noteq> 0"
  shows "case nextValNoLock sd of
      Inr sd' \<Rightarrow> step_value sd = Some (currVal sd') \<and> sd' = sd\<lparr>currVal := currVal sd', usageCount := usageCount sd + 1\<rparr>
    | Inl _ \<Rightarrow> step_value sd = None"
proof -
  let ?s = "currVal sd + increment sd"
  have b: "isInBounds INT64 (currVal sd)" "isInBounds INT64 (increment sd)"
    using seq_bounds [OF assms(1)] assms(1) by (auto simp: seq_inv_def)
  show ?thesis
  proof (cases "isInBounds INT64 ?s")
    case True
    then show ?thesis using assms
      by (auto simp: nextValNoLock_def Add_int64 [OF b] Let_def step_value_def)
  next
    case False
    then have "increment sd < 0 \<and> ?s < minValue sd \<or> 0 < increment sd \<and> maxValue sd < ?s"
      using assms(1) by (auto simp: seq_inv_def isInBounds_def)
    with False assms show ?thesis
      by (auto simp: nextValNoLock_def Add_int64 [OF b] Let_def step_value_def seq_inv_def)
  qed
qed

lemma step_in_range: "seq_inv sd \<Longrightarrow> step_value sd = Some v \<Longrightarrow> minValue sd \<le> v \<and> v \<le> maxValue sd"
  by (auto simp: step_value_def seq_inv_def Let_def split: if_splits)

lemma nextVal_inv:
  assumes "seq_inv sd" "nextValNoLock sd = Inr sd'"
  shows "seq_inv sd' \<and> minValue sd' = minValue sd \<and> maxValue sd' = maxValue sd \<and> increment sd' = increment sd \<and>
    cycle sd' = cycle sd \<and> startValue sd' = startValue sd \<and> usageCount sd' = usageCount sd + 1"
proof (cases "usageCount sd = 0")
  case True
  with assms show ?thesis by (auto simp: nextValNoLock_def seq_inv_def)
next
  case False
  from nextVal_step [OF assms(1) False] assms(2)
  have v: "step_value sd = Some (currVal sd')" "sd' = sd\<lparr>currVal := currVal sd', usageCount := usageCount sd + 1\<rparr>"
    by simp_all
  have eqs: "minValue sd' = minValue sd" "maxValue sd' = maxValue sd" "increment sd' = increment sd"
    "cycle sd' = cycle sd" "startValue sd' = startValue sd" "usageCount sd' = usageCount sd + 1"
    by (subst v(2), simp)+
  from step_in_range [OF assms(1) v(1)] assms(1) show ?thesis by (simp add: seq_inv_def eqs)
qed

lemma next_vals_inv:
  "seq_inv sd \<Longrightarrow> next_vals n sd = ((r, vs), sd') \<Longrightarrow>
    seq_inv sd' \<and> minValue sd' = minValue sd \<and> maxValue sd' = maxValue sd \<and> increment sd' = increment sd \<and>
    cycle sd' = cycle sd \<and> startValue sd' = startValue sd \<and> list_all (\<lambda>v. minValue sd \<le> v \<and> v \<le> maxValue sd) vs"
proof (induction n arbitrary: sd r vs sd')
  case (Suc n)
  show ?case
  proof (cases "nextValNoLock sd")
    case (Inl e)
    with Suc.prems show ?thesis by auto
  next
    case (Inr s1)
    obtain r1 vs1 s2 where n: "next_vals n s1 = ((r1, vs1), s2)" by (metis surj_pair)
    with Inr Suc.prems have "r = r1" "vs = currVal s1 # vs1" "sd' = s2" by auto
    moreover note nextVal_inv [OF Suc.prems(1) Inr]
    moreover from this have "minValue sd \<le> currVal s1 \<and> currVal s1 \<le> maxValue sd" by (auto simp: seq_inv_def)
    ultimately show ?thesis using Suc.IH [OF _ n] by simp
  qed
qed simp

lemma nextKVal_rollback:
  assumes "seq_inv sd" "nextKVal n sd = (Inr (vs, data), sd')"
  shows "rollbackVal data sd' = sd" "list_all (\<lambda>v. minValue sd \<le> v \<and> v \<le> maxValue sd) vs" "seq_inv sd'"
proof -
  obtain r ws sd1 where n: "next_vals n sd = ((r, ws), sd1)" by (metis surj_pair)
  with assms(2) have eqs: "r = None" "vs = ws" "sd' = sd1"
    "data = \<lparr>rollbackUsageCount = usageCount sd, rollbackCurrVal = word_of_int (currVal sd)\<rparr>"
    by (auto simp: nextKVal_def split: option.splits)
  note inv = next_vals_inv [OF assms(1) n]
  then show "list_all (\<lambda>v. minValue sd \<le> v \<and> v \<le> maxValue sd) vs" "seq_inv sd'" by (auto simp: eqs)
  have "sint (word_of_int (currVal sd) :: 64 word) = currVal sd"
    using seq_bounds [OF assms(1)] by (simp add: isInBounds_def sint_sbintrunc' signed_take_bit_int_eq_self)
  with inv show "rollbackVal data sd' = sd" by (simp add: rollbackVal_def eqs)
qed

text \<open>Without cycling the values form an arithmetic progression.\<close>

lemma next_vals_progression:
  assumes "seq_inv sd" "\<not> cycle sd" "usageCount sd \<noteq> 0" "unat (usageCount sd) + n < 2 ^ 64"
  shows "case next_vals n sd of
      ((None, vs), _) \<Rightarrow> vs = map (\<lambda>k. currVal sd + (int k + 1) * increment sd) [0..<n] \<and>
        (0 < n \<longrightarrow> minValue sd \<le> currVal sd + int n * increment sd \<and> currVal sd + int n * increment sd \<le> maxValue sd)
    | ((Some _, _), _) \<Rightarrow> \<not> (minValue sd \<le> currVal sd + int n * increment sd \<and>
        currVal sd + int n * increment sd \<le> maxValue sd)"
  using assms
proof (induction n arbitrary: sd)
  case (Suc n)
  note step = nextVal_step [OF Suc.prems(1,3)]
  show ?case
  proof (cases "nextValNoLock sd")
    case (Inl e)
    then have none: "step_value sd = None" using step by simp
    define t where "t = int n * increment sd"
    have t: "0 < increment sd \<Longrightarrow> 0 \<le> t" "increment sd < 0 \<Longrightarrow> t \<le> 0"
      by (simp_all add: t_def mult_nonneg_nonpos)
    have "int (Suc n) * increment sd = increment sd + t" by (simp add: t_def algebra_simps)
    with none t Suc.prems(1) have "\<not> (minValue sd \<le> currVal sd + int (Suc n) * increment sd \<and>
        currVal sd + int (Suc n) * increment sd \<le> maxValue sd)"
      by (auto simp: step_value_def Let_def seq_inv_def split: if_splits)
    with Inl show ?thesis by simp
  next
    case (Inr s1)
    then have v: "currVal s1 = currVal sd + increment sd" "s1 = sd\<lparr>currVal := currVal s1, usageCount := usageCount sd + 1\<rparr>"
      "minValue sd \<le> currVal s1" "currVal s1 \<le> maxValue sd"
      using step Suc.prems(2) by (auto simp: step_value_def Let_def split: if_splits)
    have eqs: "minValue s1 = minValue sd" "maxValue s1 = maxValue sd" "increment s1 = increment sd"
      "cycle s1 = cycle sd" "usageCount s1 = usageCount sd + 1"
      by (subst v(2), simp)+
    have u: "unat (usageCount sd + 1) = Suc (unat (usageCount sd))"
      using Suc.prems(4) by (simp add: unat_word_ariths)
    have "usageCount s1 \<noteq> 0" using u eqs(5) by (metis unat_0 nat.distinct(1))
    from Suc.IH [OF _ _ this] nextVal_inv [OF Suc.prems(1) Inr] Suc.prems(2,4) eqs u
    have IH: "case next_vals n s1 of
      ((None, vs), _) \<Rightarrow> vs = map (\<lambda>k. currVal s1 + (int k + 1) * increment s1) [0..<n] \<and>
        (0 < n \<longrightarrow> minValue s1 \<le> currVal s1 + int n * increment s1 \<and> currVal s1 + int n * increment s1 \<le> maxValue s1)
    | ((Some _, _), _) \<Rightarrow> \<not> (minValue s1 \<le> currVal s1 + int n * increment s1 \<and>
        currVal s1 + int n * increment s1 \<le> maxValue s1)" by simp
    obtain r1 vs1 s2 where n: "next_vals n s1 = ((r1, vs1), s2)" by (metis surj_pair)
    have upt: "map (\<lambda>k. currVal sd + (int k + 1) * increment sd) [0..<Suc n] =
        (currVal sd + increment sd) # map (\<lambda>k. currVal sd + increment sd + (int k + 1) * increment sd) [0..<n]"
      unfolding upt_conv_Cons [OF zero_less_Suc] map_Suc_upt [symmetric] by (simp add: algebra_simps)
    show ?thesis
    proof (cases r1)
      case None
      with IH n Inr v eqs upt show ?thesis by (cases "n = 0") (auto simp: algebra_simps)
    next
      case (Some e)
      with IH n Inr v eqs show ?thesis by (auto simp: algebra_simps)
    qed
  qed
qed simp

section \<open>Properties\<close>

text \<open>
  C31: every value a sequence gives out lies between its minimum and its maximum, cycling or not,
  and undoing the call restores the sequence exactly.
\<close>

theorem sequence_in_range:
  assumes "seq_inv sd" "nextKVal n sd = (Inr (vs, data), sd')"
  shows "list_all (\<lambda>v. minValue sd \<le> v \<and> v \<le> maxValue sd) vs \<and> seq_inv sd' \<and> rollbackVal data sd' = sd"
  using nextKVal_rollback [OF assms] by simp

theorem sequence_in_range_witness:
  "let sd = SequenceData_new 8 3 1 10 True; r = nextKVal 3 sd in
    list_all (\<lambda>v. 1 \<le> v \<and> v \<le> 10) (fst (projr (fst r))) \<and> seq_inv (snd r) \<and>
    rollbackVal (snd (projr (fst r))) (snd r) = sd"
proof -
  let ?sd = "SequenceData_new 8 3 1 10 True" and ?r = "nextKVal 3 (SequenceData_new 8 3 1 10 True)"
  have "seq_inv ?sd" "?r = (Inr (fst (projr (fst ?r)), snd (projr (fst ?r))), snd ?r)"
    "minValue ?sd = 1" "maxValue ?sd = 10" by code_simp+
  with sequence_in_range [OF this(1,2)] show ?thesis by (simp add: Let_def)
qed




end
