(* ===== verification/Catalog_Entry.thy ===== *)
theory Catalog_Entry
  imports Property_Collection Sequence_Entry
begin

text \<open>
  The entries of the catalog (\<^verbatim>\<open>catalog/catalog_entry/\<close>): node and relationship tables with their
  properties, sequences, and the entries the catalog only carries (macros, types, indexes,
  functions), whose content is a value of the type \<open>'x\<close> with its reader and writer. An entry has an
  identity \<open>entryAddr\<close>, the pointer other parts of the program keep to it; the links to the older and
  newer versions are the positions in the version chain of the catalog set.
\<close>

type_synonym oid_t = "64 word"

datatype CatalogEntryType =
  NODE_TABLE_ENTRY | REL_GROUP_ENTRY | FOREIGN_TABLE_ENTRY | SCALAR_MACRO_ENTRY | AGGREGATE_FUNCTION_ENTRY |
  SCALAR_FUNCTION_ENTRY | REWRITE_FUNCTION_ENTRY | TABLE_FUNCTION_ENTRY | COPY_FUNCTION_ENTRY |
  STANDALONE_TABLE_FUNCTION_ENTRY | SEQUENCE_CATALOG_ENTRY | TYPE_ENTRY | INDEX_ENTRY | DUMMY_ENTRY

fun CatalogEntryType_code :: "CatalogEntryType \<Rightarrow> 8 word" where
  "CatalogEntryType_code NODE_TABLE_ENTRY = 0"
| "CatalogEntryType_code REL_GROUP_ENTRY = 2"
| "CatalogEntryType_code FOREIGN_TABLE_ENTRY = 4"
| "CatalogEntryType_code SCALAR_MACRO_ENTRY = 10"
| "CatalogEntryType_code AGGREGATE_FUNCTION_ENTRY = 20"
| "CatalogEntryType_code SCALAR_FUNCTION_ENTRY = 21"
| "CatalogEntryType_code REWRITE_FUNCTION_ENTRY = 22"
| "CatalogEntryType_code TABLE_FUNCTION_ENTRY = 23"
| "CatalogEntryType_code COPY_FUNCTION_ENTRY = 25"
| "CatalogEntryType_code STANDALONE_TABLE_FUNCTION_ENTRY = 26"
| "CatalogEntryType_code SEQUENCE_CATALOG_ENTRY = 40"
| "CatalogEntryType_code TYPE_ENTRY = 41"
| "CatalogEntryType_code INDEX_ENTRY = 42"
| "CatalogEntryType_code DUMMY_ENTRY = 100"

definition all_entry_types :: "CatalogEntryType list" where
  "all_entry_types = [NODE_TABLE_ENTRY, REL_GROUP_ENTRY, FOREIGN_TABLE_ENTRY, SCALAR_MACRO_ENTRY,
     AGGREGATE_FUNCTION_ENTRY, SCALAR_FUNCTION_ENTRY, REWRITE_FUNCTION_ENTRY, TABLE_FUNCTION_ENTRY,
     COPY_FUNCTION_ENTRY, STANDALONE_TABLE_FUNCTION_ENTRY, SEQUENCE_CATALOG_ENTRY, TYPE_ENTRY, INDEX_ENTRY,
     DUMMY_ENTRY]"

text \<open>An enumerator is written as its code; a byte that is no code of the enumeration is not read.\<close>

definition decode_enum :: "('e \<Rightarrow> 8 word) \<Rightarrow> 'e list \<Rightarrow> 8 word \<Rightarrow> 'e option" where
  "decode_enum code es b = List.find (\<lambda>e. code e = b) es"

definition deserializeEnum :: "('e \<Rightarrow> 8 word) \<Rightarrow> 'e list \<Rightarrow> 'e reader" where
  "deserializeEnum code es bs =
     Option.bind (deserializeValue bs) (\<lambda>(b, bs). map_option (\<lambda>e. (e, bs)) (decode_enum code es b))"

datatype RelMultiplicity = MANY | ONE

fun RelMultiplicity_code :: "RelMultiplicity \<Rightarrow> 8 word" where
  "RelMultiplicity_code MANY = 0" | "RelMultiplicity_code ONE = 1"

datatype ExtendDirection = EXTEND_FWD | EXTEND_BWD | EXTEND_BOTH

fun ExtendDirection_code :: "ExtendDirection \<Rightarrow> 8 word" where
  "ExtendDirection_code EXTEND_FWD = 0" | "ExtendDirection_code EXTEND_BWD = 1"
| "ExtendDirection_code EXTEND_BOTH = 2"

record NodeTableIDPair =
  srcTableID :: oid_t
  dstTableID :: oid_t

record RelTableCatalogInfo =
  nodePair :: NodeTableIDPair
  relOID :: oid_t

record RelGroup =
  srcMultiplicity :: RelMultiplicity
  dstMultiplicity :: RelMultiplicity
  storageDirection :: ExtendDirection
  relTableInfos :: "RelTableCatalogInfo list"

datatype 'x EntryBody =
  DummyBody
| NodeTableBody (comment: string) (propertyCollection: "'x PropertyDefinitionCollection") (primaryKeyName: string)
| RelGroupBody (comment: string) (propertyCollection: "'x PropertyDefinitionCollection") (relGroup: RelGroup)
| SequenceBody (sequenceData: SequenceData)
| OtherBody 'x

record 'x CatalogEntry =
  entryAddr :: nat
  entryType :: CatalogEntryType
  entryName :: string
  entryOID :: oid_t
  timestamp :: transaction_t
  deleted :: bool
  hasParent :: bool
  entryBody :: "'x EntryBody"

definition DummyCatalogEntry :: "nat \<Rightarrow> string \<Rightarrow> oid_t \<Rightarrow> 'x CatalogEntry" where
  "DummyCatalogEntry addr name oid =
     \<lparr>entryAddr = addr, entryType = DUMMY_ENTRY, entryName = name, entryOID = oid, timestamp = 0,
      deleted = True, hasParent = False, entryBody = DummyBody\<rparr>"

section \<open>Altering a table\<close>

datatype 'x BoundExtraAlterInfo =
  RenameTableInfo string
| AddPropertyInfo "'x PropertyDefinition"
| DropPropertyInfo string
| RenamePropertyInfo (newPropName: string) (oldPropName: string)
| CommentInfo string
| AddFromToConnection oid_t oid_t
| DropFromToConnection oid_t oid_t

record 'x BoundAlterInfo =
  alterTableName :: string
  extraInfo :: "'x BoundExtraAlterInfo"

definition dropFromToConnection :: "oid_t \<Rightarrow> oid_t \<Rightarrow> RelGroup \<Rightarrow> RelGroup" where
  "dropFromToConnection src dst rel = rel\<lparr>relTableInfos := filter (\<lambda>info.
     \<not> (srcTableID (nodePair info) = src \<and> dstTableID (nodePair info) = dst)) (relTableInfos rel)\<rparr>"

definition addFromToConnection :: "oid_t \<Rightarrow> oid_t \<Rightarrow> oid_t \<Rightarrow> RelGroup \<Rightarrow> RelGroup" where
  "addFromToConnection src dst oid rel = rel\<lparr>relTableInfos := relTableInfos rel @
     [\<lparr>nodePair = \<lparr>srcTableID = src, dstTableID = dst\<rparr>, relOID = oid\<rparr>]\<rparr>"

definition getRelEntryInfo :: "oid_t \<Rightarrow> oid_t \<Rightarrow> RelGroup \<Rightarrow> RelTableCatalogInfo option" where
  "getRelEntryInfo src dst rel = List.find (\<lambda>info.
     srcTableID (nodePair info) = src \<and> dstTableID (nodePair info) = dst) (relTableInfos rel)"

definition isParent :: "oid_t \<Rightarrow> RelGroup \<Rightarrow> bool" where
  "isParent tableID rel = list_ex (\<lambda>info.
     srcTableID (nodePair info) = tableID \<or> dstTableID (nodePair info) = tableID) (relTableInfos rel)"

fun update_properties :: "('x PropertyDefinitionCollection \<Rightarrow> 'x PropertyDefinitionCollection option) \<Rightarrow>
    'x EntryBody \<Rightarrow> 'x EntryBody option" where
  "update_properties f (NodeTableBody c p pk) = map_option (\<lambda>p. NodeTableBody c p pk) (f p)"
| "update_properties f (RelGroupBody c p rel) = map_option (\<lambda>p. RelGroupBody c p rel) (f p)"
| "update_properties f _ = None"

definition renameProperty :: "string \<Rightarrow> string \<Rightarrow> 'x EntryBody \<Rightarrow> 'x EntryBody option" where
  "renameProperty propertyName newName b =
     map_option (\<lambda>b. case b of
         NodeTableBody c p pk \<Rightarrow>
           NodeTableBody c p (if caseInsensitiveEquals propertyName pk then newName else pk)
       | _ \<Rightarrow> b)
       (update_properties (pc_rename propertyName newName) b)"

fun setComment :: "string \<Rightarrow> 'x EntryBody \<Rightarrow> 'x EntryBody option" where
  "setComment new (NodeTableBody c p pk) = Some (NodeTableBody new p pk)"
| "setComment new (RelGroupBody c p rel) = Some (RelGroupBody new p rel)"
| "setComment new _ = None"

fun update_rel_group :: "(RelGroup \<Rightarrow> RelGroup) \<Rightarrow> 'x EntryBody \<Rightarrow> 'x EntryBody option" where
  "update_rel_group f (RelGroupBody c p rel) = Some (RelGroupBody c p (f rel))"
| "update_rel_group f _ = None"

text \<open>
  \<^verbatim>\<open>TableCatalogEntry::alter\<close> on a copy at the address \<open>addr\<close>: the altered entry and the next object
  identifier of the set, of which a new connection takes one. None is the \<^verbatim>\<open>std::out_of_range\<close> of a
  property that is not there, or a cast to the wrong kind of table.
\<close>

definition TableCatalogEntry_alter :: "nat \<Rightarrow> transaction_t \<Rightarrow> 'x BoundExtraAlterInfo \<Rightarrow> oid_t \<Rightarrow> 'x CatalogEntry \<Rightarrow>
    ('x CatalogEntry \<times> oid_t) option" where
  "TableCatalogEntry_alter addr ts info next e =
     (let newEntry = e\<lparr>entryAddr := addr, timestamp := ts\<rparr>;
          with_body = (\<lambda>next. map_option (\<lambda>b. (newEntry\<lparr>entryBody := b\<rparr>, next)))
      in case info of
           RenameTableInfo newName \<Rightarrow> Some (newEntry\<lparr>entryName := newName\<rparr>, next)
         | RenamePropertyInfo newName oldName \<Rightarrow> with_body next (renameProperty oldName newName (entryBody e))
         | AddPropertyInfo d \<Rightarrow> with_body next (update_properties (\<lambda>p. Some (pc_add d p)) (entryBody e))
         | DropPropertyInfo name \<Rightarrow> with_body next (update_properties (pc_drop name) (entryBody e))
         | CommentInfo c \<Rightarrow> with_body next (setComment c (entryBody e))
         | AddFromToConnection src dst \<Rightarrow>
             with_body (next + 1) (update_rel_group (addFromToConnection src dst next) (entryBody e))
         | DropFromToConnection src dst \<Rightarrow>
             with_body next (update_rel_group (dropFromToConnection src dst) (entryBody e)))"

section \<open>Serialization\<close>

definition NodeTableIDPair_serialize :: "NodeTableIDPair \<Rightarrow> byte list" where
  "NodeTableIDPair_serialize p = serializeValue (srcTableID p) @ serializeValue (dstTableID p)"

definition NodeTableIDPair_deserialize :: "NodeTableIDPair reader" where
  "NodeTableIDPair_deserialize bs =
     Option.bind (deserializeValue bs) (\<lambda>(src, bs).
     Option.bind (deserializeValue bs) (\<lambda>(dst, bs). Some (\<lparr>srcTableID = src, dstTableID = dst\<rparr>, bs)))"

definition RelTableCatalogInfo_serialize :: "RelTableCatalogInfo \<Rightarrow> byte list" where
  "RelTableCatalogInfo_serialize info = NodeTableIDPair_serialize (nodePair info) @ serializeValue (relOID info)"

definition RelTableCatalogInfo_deserialize :: "RelTableCatalogInfo reader" where
  "RelTableCatalogInfo_deserialize bs =
     Option.bind (NodeTableIDPair_deserialize bs) (\<lambda>(pair, bs).
     Option.bind (deserializeValue bs) (\<lambda>(oid, bs). Some (\<lparr>nodePair = pair, relOID = oid\<rparr>, bs)))"

definition RelGroup_serialize :: "RelGroup \<Rightarrow> byte list" where
  "RelGroup_serialize rel =
     serializeValue (RelMultiplicity_code (srcMultiplicity rel)) @
     serializeValue (RelMultiplicity_code (dstMultiplicity rel)) @
     serializeValue (ExtendDirection_code (storageDirection rel)) @
     serializeVector RelTableCatalogInfo_serialize (relTableInfos rel)"

definition RelGroup_deserialize :: "RelGroup reader" where
  "RelGroup_deserialize bs =
     Option.bind (deserializeEnum RelMultiplicity_code [MANY, ONE] bs) (\<lambda>(src, bs).
     Option.bind (deserializeEnum RelMultiplicity_code [MANY, ONE] bs) (\<lambda>(dst, bs).
     Option.bind (deserializeEnum ExtendDirection_code [EXTEND_FWD, EXTEND_BWD, EXTEND_BOTH] bs) (\<lambda>(dir, bs).
     Option.bind (deserializeVector RelTableCatalogInfo_deserialize bs) (\<lambda>(infos, bs).
       Some (\<lparr>srcMultiplicity = src, dstMultiplicity = dst, storageDirection = dir, relTableInfos = infos\<rparr>, bs)))))"

text \<open>A dummy entry is never written; its body is none of the others, so nothing is written for it.\<close>

definition CatalogEntry_serialize :: "('x \<Rightarrow> byte list) \<Rightarrow> 'x CatalogEntry \<Rightarrow> byte list" where
  "CatalogEntry_serialize serX e =
     serializeValue (CatalogEntryType_code (entryType e)) @ serializeString (entryName e) @
     serializeValue (entryOID e) @ serializeBool (hasParent e) @
     (case entryBody e of
        NodeTableBody c p pk \<Rightarrow> serializeString c @ pc_serialize serX p @ serializeString pk
      | RelGroupBody c p rel \<Rightarrow> serializeString c @ pc_serialize serX p @ RelGroup_serialize rel
      | SequenceBody sd \<Rightarrow> SequenceData_serialize sd
      | OtherBody x \<Rightarrow> serX x
      | DummyBody \<Rightarrow> [])"

definition EntryBody_deserialize :: "'x reader \<Rightarrow> CatalogEntryType \<Rightarrow> 'x EntryBody reader" where
  "EntryBody_deserialize deserX type bs =
     (case type of
        NODE_TABLE_ENTRY \<Rightarrow>
          Option.bind (deserializeString bs) (\<lambda>(c, bs).
          Option.bind (pc_deserialize deserX bs) (\<lambda>(p, bs).
          Option.bind (deserializeString bs) (\<lambda>(pk, bs). Some (NodeTableBody c p pk, bs))))
      | REL_GROUP_ENTRY \<Rightarrow>
          Option.bind (deserializeString bs) (\<lambda>(c, bs).
          Option.bind (pc_deserialize deserX bs) (\<lambda>(p, bs).
          Option.bind (RelGroup_deserialize bs) (\<lambda>(rel, bs). Some (RelGroupBody c p rel, bs))))
      | SEQUENCE_CATALOG_ENTRY \<Rightarrow> map_option (\<lambda>(sd, bs). (SequenceBody sd, bs)) (SequenceData_deserialize bs)
      | SCALAR_MACRO_ENTRY \<Rightarrow> map_option (\<lambda>(x, bs). (OtherBody x, bs)) (deserX bs)
      | TYPE_ENTRY \<Rightarrow> map_option (\<lambda>(x, bs). (OtherBody x, bs)) (deserX bs)
      | INDEX_ENTRY \<Rightarrow> map_option (\<lambda>(x, bs). (OtherBody x, bs)) (deserX bs)
      | _ \<Rightarrow> None)"

definition CatalogEntry_deserialize :: "nat \<Rightarrow> 'x reader \<Rightarrow> 'x CatalogEntry reader" where
  "CatalogEntry_deserialize addr deserX bs =
     Option.bind (deserializeEnum CatalogEntryType_code all_entry_types bs) (\<lambda>(type, bs).
     Option.bind (deserializeString bs) (\<lambda>(name, bs).
     Option.bind (deserializeValue bs) (\<lambda>(oid, bs).
     Option.bind (deserializeBool bs) (\<lambda>(parent, bs).
     Option.bind (EntryBody_deserialize deserX type bs) (\<lambda>(b, bs).
       Some (\<lparr>entryAddr = addr, entryType = type, entryName = name, entryOID = oid,
              timestamp = DUMMY_START_TIMESTAMP, deleted = False, hasParent = parent, entryBody = b\<rparr>, bs))))))"

section \<open>Round trip\<close>

lemma enum_roundtrip:
  assumes "e \<in> set es" "distinct (map code es)"
  shows "deserializeEnum code es (serializeValue (code e) @ rest) = Some (e, rest)"
proof -
  have "List.find (\<lambda>e'. code e' = code e) es = Some e"
    using assms by (induction es) (auto simp: image_iff)
  then show ?thesis by (simp add: deserializeEnum_def u8_codec.roundtrip decode_enum_def)
qed

lemma entry_type_roundtrip:
  "deserializeEnum CatalogEntryType_code all_entry_types (serializeValue (CatalogEntryType_code t) @ rest) = Some (t, rest)"
proof (rule enum_roundtrip)
  show "t \<in> set all_entry_types" by (cases t) (simp_all add: all_entry_types_def)
qed code_simp

lemma int64_roundtrip:
  "isInBounds INT64 v \<Longrightarrow> deserializeInt64 (serializeValue (word_of_int v :: 64 word) @ rest) = Some (v, rest)"
  by (simp add: deserializeInt64_def u64_codec.roundtrip isInBounds_def sint_sbintrunc' signed_take_bit_int_eq_self)

definition sequence_fits :: "SequenceData \<Rightarrow> bool" where
  "sequence_fits sd \<longleftrightarrow> list_all (isInBounds INT64) [currVal sd, increment sd, startValue sd, minValue sd, maxValue sd]"

interpretation sequence_codec: codec SequenceData_serialize SequenceData_deserialize sequence_fits
  by unfold_locales (simp add: SequenceData_serialize_def SequenceData_deserialize_def sequence_fits_def
      int64_roundtrip u64_codec.roundtrip bool_codec.roundtrip)

interpretation rel_info_codec: codec RelTableCatalogInfo_serialize RelTableCatalogInfo_deserialize "\<lambda>_. True"
  by unfold_locales (simp add: RelTableCatalogInfo_serialize_def RelTableCatalogInfo_deserialize_def
      NodeTableIDPair_serialize_def NodeTableIDPair_deserialize_def u64_codec.roundtrip)

interpretation rel_group_codec: codec RelGroup_serialize RelGroup_deserialize "\<lambda>rel. fits_u64 (relTableInfos rel)"
proof
  fix rel :: RelGroup and rest
  assume fits: "fits_u64 (relTableInfos rel)"
  have mem: "x \<in> set [MANY, ONE]" "y \<in> set [EXTEND_FWD, EXTEND_BWD, EXTEND_BOTH]" for x y
    by (cases x; simp) (cases y; simp)
  have m: "deserializeEnum RelMultiplicity_code [MANY, ONE] (serializeValue (RelMultiplicity_code x) @ r) = Some (x, r)" for x r
    by (rule enum_roundtrip [OF mem(1)]) simp
  have d: "deserializeEnum ExtendDirection_code [EXTEND_FWD, EXTEND_BWD, EXTEND_BOTH]
      (serializeValue (ExtendDirection_code x) @ r) = Some (x, r)" for x r
    by (rule enum_roundtrip [OF mem(2)]) simp
  have v: "deserializeVector RelTableCatalogInfo_deserialize
      (serializeVector RelTableCatalogInfo_serialize (relTableInfos rel) @ r) = Some (relTableInfos rel, r)" for r
    by (rule rel_info_codec.vector_roundtrip) (simp_all add: fits list_all_iff)
  show "RelGroup_deserialize (RelGroup_serialize rel @ rest) = Some (rel, rest)"
    by (simp add: RelGroup_serialize_def RelGroup_deserialize_def m d v)
qed

text \<open>Bodies that can be written: of the kind the type says, and within the sizes of the format.\<close>

fun body_fits :: "('x \<Rightarrow> bool) \<Rightarrow> CatalogEntryType \<Rightarrow> 'x EntryBody \<Rightarrow> bool" where
  "body_fits validX t (NodeTableBody c p pk) \<longleftrightarrow> t = NODE_TABLE_ENTRY \<and> fits_u64 c \<and> pc_inv p \<and>
     properties_fit validX p \<and> fits_u64 pk"
| "body_fits validX t (RelGroupBody c p rel) \<longleftrightarrow> t = REL_GROUP_ENTRY \<and> fits_u64 c \<and> pc_inv p \<and>
     properties_fit validX p \<and> fits_u64 (relTableInfos rel)"
| "body_fits validX t (SequenceBody sd) \<longleftrightarrow> t = SEQUENCE_CATALOG_ENTRY \<and> sequence_fits sd"
| "body_fits validX t (OtherBody x) \<longleftrightarrow> t \<in> {SCALAR_MACRO_ENTRY, TYPE_ENTRY, INDEX_ENTRY} \<and> validX x"
| "body_fits validX t DummyBody \<longleftrightarrow> False"

text \<open>Equality of bodies up to the order of the names, which is not written.\<close>

fun same_body :: "'x EntryBody \<Rightarrow> 'x EntryBody \<Rightarrow> bool" where
  "same_body (NodeTableBody c p pk) b \<longleftrightarrow> (\<exists>q. b = NodeTableBody c q pk \<and> same_properties p q)"
| "same_body (RelGroupBody c p rel) b \<longleftrightarrow> (\<exists>q. b = RelGroupBody c q rel \<and> same_properties p q)"
| "same_body a b \<longleftrightarrow> b = a"

lemma body_roundtrip:
  assumes "codec serX deserX validX" "body_fits validX t b"
  shows "\<exists>b'. EntryBody_deserialize deserX t ((case b of
        NodeTableBody c p pk \<Rightarrow> serializeString c @ pc_serialize serX p @ serializeString pk
      | RelGroupBody c p rel \<Rightarrow> serializeString c @ pc_serialize serX p @ RelGroup_serialize rel
      | SequenceBody sd \<Rightarrow> SequenceData_serialize sd
      | OtherBody x \<Rightarrow> serX x
      | DummyBody \<Rightarrow> []) @ rest) = Some (b', rest) \<and> same_body b b'"
proof (cases b)
  case (NodeTableBody c p pk)
  then have f: "t = NODE_TABLE_ENTRY" "fits_u64 c" "pc_inv p" "properties_fit validX p" "fits_u64 pk"
    using assms(2) by simp_all
  from pc_roundtrip [OF assms(1) f(3,4)] obtain q
    where "pc_deserialize deserX (pc_serialize serX p @ serializeString pk @ rest) =
      Some (q, serializeString pk @ rest)" "same_properties p q" by blast
  with f NodeTableBody show ?thesis by (simp add: EntryBody_deserialize_def string_codec.roundtrip)
next
  case (RelGroupBody c p rel)
  then have f: "t = REL_GROUP_ENTRY" "fits_u64 c" "pc_inv p" "properties_fit validX p" "fits_u64 (relTableInfos rel)"
    using assms(2) by simp_all
  from pc_roundtrip [OF assms(1) f(3,4)] obtain q
    where "pc_deserialize deserX (pc_serialize serX p @ RelGroup_serialize rel @ rest) =
      Some (q, RelGroup_serialize rel @ rest)" "same_properties p q" by blast
  with f RelGroupBody show ?thesis
    by (simp add: EntryBody_deserialize_def string_codec.roundtrip rel_group_codec.roundtrip)
next
  case (SequenceBody sd)
  with assms(2) show ?thesis by (simp add: EntryBody_deserialize_def sequence_codec.roundtrip)
next
  case (OtherBody x)
  with assms(2) show ?thesis by (auto simp: EntryBody_deserialize_def codec.roundtrip [OF assms(1)])
qed (use assms(2) in simp)

lemma entry_read:
  assumes "codec serX deserX validX" "fits_u64 (entryName e)" "body_fits validX (entryType e) (entryBody e)"
  shows "\<exists>b. CatalogEntry_deserialize addr deserX (CatalogEntry_serialize serX e @ rest) =
      Some (e\<lparr>entryAddr := addr, timestamp := DUMMY_START_TIMESTAMP, deleted := False, entryBody := b\<rparr>, rest) \<and>
    same_body (entryBody e) b"
proof -
  from body_roundtrip [OF assms(1,3)] obtain b
    where "EntryBody_deserialize deserX (entryType e) ((case entryBody e of
        NodeTableBody c p pk \<Rightarrow> serializeString c @ pc_serialize serX p @ serializeString pk
      | RelGroupBody c p rel \<Rightarrow> serializeString c @ pc_serialize serX p @ RelGroup_serialize rel
      | SequenceBody sd \<Rightarrow> SequenceData_serialize sd
      | OtherBody x \<Rightarrow> serX x
      | DummyBody \<Rightarrow> []) @ rest) = Some (b, rest)" "same_body (entryBody e) b" by blast
  with assms(2) show ?thesis
    by (intro exI [of _ b], cases e) (simp add: CatalogEntry_deserialize_def CatalogEntry_serialize_def
        entry_type_roundtrip string_codec.roundtrip u64_codec.roundtrip bool_codec.roundtrip)
qed

section \<open>Properties\<close>

text \<open>
  C34: a catalog entry of any kind that is written to the checkpoint or the log is read back with its
  type, name, identifier and content, as a committed entry of the start timestamp.
\<close>

theorem entry_roundtrip:
  assumes "codec serX deserX validX" "fits_u64 (entryName e)" "body_fits validX (entryType e) (entryBody e)"
  shows "\<exists>e'. CatalogEntry_deserialize addr deserX (CatalogEntry_serialize serX e @ rest) = Some (e', rest) \<and>
    entryType e' = entryType e \<and> entryName e' = entryName e \<and> entryOID e' = entryOID e \<and>
    hasParent e' = hasParent e \<and> same_body (entryBody e) (entryBody e') \<and>
    timestamp e' = DUMMY_START_TIMESTAMP \<and> \<not> deleted e'"
  using entry_read [OF assms, of addr rest] by fastforce

abbreviation sequence_entry_example :: "string CatalogEntry" where
  "sequence_entry_example \<equiv> \<lparr>entryAddr = 0, entryType = SEQUENCE_CATALOG_ENTRY, entryName = ''s'', entryOID = 3,
     timestamp = 5, deleted = False, hasParent = False, entryBody = SequenceBody (SequenceData_new 1 1 1 9 False)\<rparr>"

theorem entry_roundtrip_witness:
  "\<exists>e'. CatalogEntry_deserialize 7 deserializeString
      (CatalogEntry_serialize serializeString sequence_entry_example @ []) = Some (e', []) \<and>
    entryType e' = entryType sequence_entry_example \<and> entryName e' = entryName sequence_entry_example \<and>
    entryOID e' = entryOID sequence_entry_example \<and> hasParent e' = hasParent sequence_entry_example \<and>
    same_body (entryBody sequence_entry_example) (entryBody e') \<and>
    timestamp e' = DUMMY_START_TIMESTAMP \<and> \<not> deleted e'"
  by (rule entry_roundtrip [OF string_codec.codec_axioms])
    (simp_all add: fits_u64_def sequence_fits_def SequenceData_new_def isInBounds_def)

end
