(* ===== verification/WAL_Record.thy ===== *)
theory WAL_Record
  imports Catalog_Entry
begin

text \<open>
  The records of the write-ahead log (\<^verbatim>\<open>storage/wal/wal_record.cpp\<close>) and their serialization. Two
  contents are written by code that is not modelled and are parameters with a writer and a reader:
  \<open>'x\<close>, the contents of catalog entries (as in the theory of the entries), and \<open>'v\<close>, the value
  vectors of an insertion, deletion or update. A byte that is no record type is not read.
\<close>

section \<open>Records\<close>

datatype WALRecordType =
  INVALID_RECORD | BEGIN_TRANSACTION_RECORD | COMMIT_RECORD | COPY_TABLE_RECORD |
  CREATE_CATALOG_ENTRY_RECORD | DROP_CATALOG_ENTRY_RECORD | ALTER_TABLE_ENTRY_RECORD |
  UPDATE_SEQUENCE_RECORD | TABLE_INSERTION_RECORD | NODE_DELETION_RECORD | NODE_UPDATE_RECORD |
  REL_DELETION_RECORD | REL_DETACH_DELETE_RECORD | REL_UPDATE_RECORD | LOAD_EXTENSION_RECORD |
  CHECKPOINT_RECORD

fun WALRecordType_code :: "WALRecordType \<Rightarrow> 8 word" where
  "WALRecordType_code INVALID_RECORD = 0"
| "WALRecordType_code BEGIN_TRANSACTION_RECORD = 1"
| "WALRecordType_code COMMIT_RECORD = 2"
| "WALRecordType_code COPY_TABLE_RECORD = 13"
| "WALRecordType_code CREATE_CATALOG_ENTRY_RECORD = 14"
| "WALRecordType_code DROP_CATALOG_ENTRY_RECORD = 16"
| "WALRecordType_code ALTER_TABLE_ENTRY_RECORD = 17"
| "WALRecordType_code UPDATE_SEQUENCE_RECORD = 18"
| "WALRecordType_code TABLE_INSERTION_RECORD = 30"
| "WALRecordType_code NODE_DELETION_RECORD = 31"
| "WALRecordType_code NODE_UPDATE_RECORD = 32"
| "WALRecordType_code REL_DELETION_RECORD = 33"
| "WALRecordType_code REL_DETACH_DELETE_RECORD = 34"
| "WALRecordType_code REL_UPDATE_RECORD = 35"
| "WALRecordType_code LOAD_EXTENSION_RECORD = 100"
| "WALRecordType_code CHECKPOINT_RECORD = 254"

definition all_record_types :: "WALRecordType list" where
  "all_record_types = [INVALID_RECORD, BEGIN_TRANSACTION_RECORD, COMMIT_RECORD, COPY_TABLE_RECORD,
     CREATE_CATALOG_ENTRY_RECORD, DROP_CATALOG_ENTRY_RECORD, ALTER_TABLE_ENTRY_RECORD,
     UPDATE_SEQUENCE_RECORD, TABLE_INSERTION_RECORD, NODE_DELETION_RECORD, NODE_UPDATE_RECORD,
     REL_DELETION_RECORD, REL_DETACH_DELETE_RECORD, REL_UPDATE_RECORD, LOAD_EXTENSION_RECORD,
     CHECKPOINT_RECORD]"

datatype TableType = UNKNOWN_TABLE | NODE_TABLE | REL_TABLE | FOREIGN_TABLE

fun TableType_code :: "TableType \<Rightarrow> 8 word" where
  "TableType_code UNKNOWN_TABLE = 0" | "TableType_code NODE_TABLE = 1"
| "TableType_code REL_TABLE = 2" | "TableType_code FOREIGN_TABLE = 5"

definition all_table_types :: "TableType list" where
  "all_table_types = [UNKNOWN_TABLE, NODE_TABLE, REL_TABLE, FOREIGN_TABLE]"

datatype RelDataDirection = FWD | BWD | INVALID_DIRECTION

fun RelDataDirection_code :: "RelDataDirection \<Rightarrow> 8 word" where
  "RelDataDirection_code FWD = 0" | "RelDataDirection_code BWD = 1"
| "RelDataDirection_code INVALID_DIRECTION = 255"

definition all_directions :: "RelDataDirection list" where
  "all_directions = [FWD, BWD, INVALID_DIRECTION]"

datatype AlterType =
  RENAME | ADD_PROPERTY | DROP_PROPERTY | RENAME_PROPERTY | ADD_FROM_TO_CONNECTION |
  DROP_FROM_TO_CONNECTION | COMMENT | INVALID_ALTER

fun AlterType_code :: "AlterType \<Rightarrow> 8 word" where
  "AlterType_code RENAME = 0"
| "AlterType_code ADD_PROPERTY = 10"
| "AlterType_code DROP_PROPERTY = 11"
| "AlterType_code RENAME_PROPERTY = 12"
| "AlterType_code ADD_FROM_TO_CONNECTION = 13"
| "AlterType_code DROP_FROM_TO_CONNECTION = 14"
| "AlterType_code COMMENT = 201"
| "AlterType_code INVALID_ALTER = 255"

definition all_alter_types :: "AlterType list" where
  "all_alter_types = [RENAME, ADD_PROPERTY, DROP_PROPERTY, RENAME_PROPERTY, ADD_FROM_TO_CONNECTION,
     DROP_FROM_TO_CONNECTION, COMMENT, INVALID_ALTER]"

datatype ('x, 'v) WALRecord =
  BeginTransactionRecord
| CommitRecord
| CheckpointRecord
| CreateCatalogEntryRecord "'x CatalogEntry" bool
| CopyTableRecord oid_t
| DropCatalogEntryRecord oid_t CatalogEntryType
| AlterTableEntryRecord "'x BoundAlterInfo"
| UpdateSequenceRecord oid_t "64 word"
| TableInsertionRecord oid_t TableType "64 word" "'v list"
| NodeDeletionRecord oid_t "64 word" 'v
| NodeUpdateRecord oid_t "32 word" "64 word" 'v
| RelDeletionRecord oid_t 'v 'v 'v
| RelDetachDeleteRecord oid_t RelDataDirection 'v
| RelUpdateRecord oid_t "32 word" 'v 'v 'v 'v
| LoadExtensionRecord string

fun record_type :: "('x, 'v) WALRecord \<Rightarrow> WALRecordType" where
  "record_type BeginTransactionRecord = BEGIN_TRANSACTION_RECORD"
| "record_type CommitRecord = COMMIT_RECORD"
| "record_type CheckpointRecord = CHECKPOINT_RECORD"
| "record_type (CreateCatalogEntryRecord _ _) = CREATE_CATALOG_ENTRY_RECORD"
| "record_type (CopyTableRecord _) = COPY_TABLE_RECORD"
| "record_type (DropCatalogEntryRecord _ _) = DROP_CATALOG_ENTRY_RECORD"
| "record_type (AlterTableEntryRecord _) = ALTER_TABLE_ENTRY_RECORD"
| "record_type (UpdateSequenceRecord _ _) = UPDATE_SEQUENCE_RECORD"
| "record_type (TableInsertionRecord _ _ _ _) = TABLE_INSERTION_RECORD"
| "record_type (NodeDeletionRecord _ _ _) = NODE_DELETION_RECORD"
| "record_type (NodeUpdateRecord _ _ _ _) = NODE_UPDATE_RECORD"
| "record_type (RelDeletionRecord _ _ _ _) = REL_DELETION_RECORD"
| "record_type (RelDetachDeleteRecord _ _ _) = REL_DETACH_DELETE_RECORD"
| "record_type (RelUpdateRecord _ _ _ _ _ _) = REL_UPDATE_RECORD"
| "record_type (LoadExtensionRecord _) = LOAD_EXTENSION_RECORD"

section \<open>Alterations\<close>

fun alterType :: "'x BoundExtraAlterInfo \<Rightarrow> AlterType" where
  "alterType (RenameTableInfo _) = RENAME"
| "alterType (AddPropertyInfo _) = ADD_PROPERTY"
| "alterType (DropPropertyInfo _) = DROP_PROPERTY"
| "alterType (RenamePropertyInfo _ _) = RENAME_PROPERTY"
| "alterType (CommentInfo _) = COMMENT"
| "alterType (AddFromToConnection _ _) = ADD_FROM_TO_CONNECTION"
| "alterType (DropFromToConnection _ _) = DROP_FROM_TO_CONNECTION"

definition serializeAlterExtraInfo :: "('x \<Rightarrow> byte list) \<Rightarrow> 'x BoundAlterInfo \<Rightarrow> byte list" where
  "serializeAlterExtraInfo serX info =
     serializeValue (AlterType_code (alterType (extraInfo info))) @ serializeString (alterTableName info) @
     (case extraInfo info of
        AddPropertyInfo d \<Rightarrow> serializePropertyDefinition serX d
      | DropPropertyInfo name \<Rightarrow> serializeString name
      | RenamePropertyInfo newName oldName \<Rightarrow> serializeString newName @ serializeString oldName
      | CommentInfo c \<Rightarrow> serializeString c
      | RenameTableInfo newName \<Rightarrow> serializeString newName
      | AddFromToConnection src dst \<Rightarrow> serializeValue src @ serializeValue dst
      | DropFromToConnection src dst \<Rightarrow> serializeValue src @ serializeValue dst)"

definition deserializeExtra :: "'x reader \<Rightarrow> AlterType \<Rightarrow> 'x BoundExtraAlterInfo reader" where
  "deserializeExtra deserX type bs =
     (case type of
        ADD_PROPERTY \<Rightarrow>
          Option.bind (deserializePropertyDefinition deserX bs) (\<lambda>(d, bs). Some (AddPropertyInfo d, bs))
      | DROP_PROPERTY \<Rightarrow> Option.bind (deserializeString bs) (\<lambda>(n, bs). Some (DropPropertyInfo n, bs))
      | RENAME_PROPERTY \<Rightarrow>
          Option.bind (deserializeString bs) (\<lambda>(new, bs).
          Option.bind (deserializeString bs) (\<lambda>(old, bs). Some (RenamePropertyInfo new old, bs)))
      | COMMENT \<Rightarrow> Option.bind (deserializeString bs) (\<lambda>(c, bs). Some (CommentInfo c, bs))
      | RENAME \<Rightarrow> Option.bind (deserializeString bs) (\<lambda>(n, bs). Some (RenameTableInfo n, bs))
      | ADD_FROM_TO_CONNECTION \<Rightarrow>
          Option.bind (deserializeValue bs) (\<lambda>(src, bs).
          Option.bind (deserializeValue bs) (\<lambda>(dst, bs). Some (AddFromToConnection src dst, bs)))
      | DROP_FROM_TO_CONNECTION \<Rightarrow>
          Option.bind (deserializeValue bs) (\<lambda>(src, bs).
          Option.bind (deserializeValue bs) (\<lambda>(dst, bs). Some (DropFromToConnection src dst, bs)))
      | INVALID_ALTER \<Rightarrow> None)"

definition deserializeAlterRecord :: "'x reader \<Rightarrow> 'x BoundAlterInfo reader" where
  "deserializeAlterRecord deserX bs =
     Option.bind (deserializeEnum AlterType_code all_alter_types bs) (\<lambda>(type, bs).
     Option.bind (deserializeString bs) (\<lambda>(tableName, bs).
     Option.bind (deserializeExtra deserX type bs) (\<lambda>(extra, bs).
       Some (\<lparr>alterTableName = tableName, extraInfo = extra\<rparr>, bs))))"

section \<open>Records in the log\<close>

definition WALRecord_serialize :: "('x \<Rightarrow> byte list) \<Rightarrow> ('v \<Rightarrow> byte list) \<Rightarrow> ('x, 'v) WALRecord \<Rightarrow> byte list" where
  "WALRecord_serialize serX serV r =
     serializeValue (WALRecordType_code (record_type r)) @
     (case r of
        BeginTransactionRecord \<Rightarrow> []
      | CommitRecord \<Rightarrow> []
      | CheckpointRecord \<Rightarrow> []
      | CreateCatalogEntryRecord e isInternal \<Rightarrow> CatalogEntry_serialize serX e @ serializeBool isInternal
      | CopyTableRecord tableID \<Rightarrow> serializeValue tableID
      | DropCatalogEntryRecord entryID type \<Rightarrow>
          serializeValue entryID @ serializeValue (CatalogEntryType_code type)
      | AlterTableEntryRecord info \<Rightarrow> serializeAlterExtraInfo serX info
      | UpdateSequenceRecord sequenceID kCount \<Rightarrow> serializeValue sequenceID @ serializeValue kCount
      | TableInsertionRecord tableID type numRows vectors \<Rightarrow>
          serializeValue tableID @ serializeValue (TableType_code type) @ serializeValue numRows @
          serializeValue (of_nat (length vectors) :: 32 word) @ serializeArray serV vectors
      | NodeDeletionRecord tableID nodeOffset pk \<Rightarrow>
          serializeValue tableID @ serializeValue nodeOffset @ serV pk
      | NodeUpdateRecord tableID columnID nodeOffset property \<Rightarrow>
          serializeValue tableID @ serializeValue columnID @ serializeValue nodeOffset @ serV property
      | RelDeletionRecord tableID src dst rel \<Rightarrow>
          serializeValue tableID @ serV src @ serV dst @ serV rel
      | RelDetachDeleteRecord tableID direction src \<Rightarrow>
          serializeValue tableID @ serializeValue (RelDataDirection_code direction) @ serV src
      | RelUpdateRecord tableID columnID src dst rel property \<Rightarrow>
          serializeValue tableID @ serializeValue columnID @ serV src @ serV dst @ serV rel @ serV property
      | LoadExtensionRecord path \<Rightarrow> serializeString path)"

text \<open>The deserializers of the record types, one for each shape of the content.\<close>

definition TableInsertionRecord_deserialize :: "'v reader \<Rightarrow> ('x, 'v) WALRecord reader" where
  "TableInsertionRecord_deserialize deserV bs =
     Option.bind (deserializeValue bs) (\<lambda>(tableID, bs).
     Option.bind (deserializeEnum TableType_code all_table_types bs) (\<lambda>(type, bs).
     Option.bind (deserializeValue bs) (\<lambda>(numRows, bs).
     Option.bind (deserializeValue bs) (\<lambda>(numVectors :: 32 word, bs).
     Option.bind (deserializeArray deserV (unat numVectors) bs) (\<lambda>(vectors, bs).
       Some (TableInsertionRecord tableID type numRows vectors, bs))))))"

definition NodeRecord_deserialize :: "'v reader \<Rightarrow> WALRecordType \<Rightarrow> ('x, 'v) WALRecord reader" where
  "NodeRecord_deserialize deserV type bs =
     Option.bind (deserializeValue bs) (\<lambda>(tableID, bs).
       if type = NODE_DELETION_RECORD
       then Option.bind (deserializeValue bs) (\<lambda>(nodeOffset, bs).
            Option.bind (deserV bs) (\<lambda>(pk, bs). Some (NodeDeletionRecord tableID nodeOffset pk, bs)))
       else Option.bind (deserializeValue bs) (\<lambda>(columnID, bs).
            Option.bind (deserializeValue bs) (\<lambda>(nodeOffset, bs).
            Option.bind (deserV bs) (\<lambda>(p, bs). Some (NodeUpdateRecord tableID columnID nodeOffset p, bs)))))"

definition RelDeletionRecord_deserialize :: "'v reader \<Rightarrow> ('x, 'v) WALRecord reader" where
  "RelDeletionRecord_deserialize deserV bs =
     Option.bind (deserializeValue bs) (\<lambda>(tableID, bs).
     Option.bind (deserV bs) (\<lambda>(src, bs).
     Option.bind (deserV bs) (\<lambda>(dst, bs).
     Option.bind (deserV bs) (\<lambda>(rel, bs). Some (RelDeletionRecord tableID src dst rel, bs)))))"

definition RelDetachDeleteRecord_deserialize :: "'v reader \<Rightarrow> ('x, 'v) WALRecord reader" where
  "RelDetachDeleteRecord_deserialize deserV bs =
     Option.bind (deserializeValue bs) (\<lambda>(tableID, bs).
     Option.bind (deserializeEnum RelDataDirection_code all_directions bs) (\<lambda>(direction, bs).
     Option.bind (deserV bs) (\<lambda>(src, bs). Some (RelDetachDeleteRecord tableID direction src, bs))))"

definition RelUpdateRecord_deserialize :: "'v reader \<Rightarrow> ('x, 'v) WALRecord reader" where
  "RelUpdateRecord_deserialize deserV bs =
     Option.bind (deserializeValue bs) (\<lambda>(tableID, bs).
     Option.bind (deserializeValue bs) (\<lambda>(columnID, bs).
     Option.bind (deserV bs) (\<lambda>(src, bs).
     Option.bind (deserV bs) (\<lambda>(dst, bs).
     Option.bind (deserV bs) (\<lambda>(rel, bs).
     Option.bind (deserV bs) (\<lambda>(p, bs). Some (RelUpdateRecord tableID columnID src dst rel p, bs)))))))"

definition WALRecord_body :: "nat \<Rightarrow> 'x reader \<Rightarrow> 'v reader \<Rightarrow> WALRecordType \<Rightarrow> ('x, 'v) WALRecord reader" where
  "WALRecord_body addr deserX deserV type bs =
     (case type of
        BEGIN_TRANSACTION_RECORD \<Rightarrow> Some (BeginTransactionRecord, bs)
      | COMMIT_RECORD \<Rightarrow> Some (CommitRecord, bs)
      | CHECKPOINT_RECORD \<Rightarrow> Some (CheckpointRecord, bs)
      | CREATE_CATALOG_ENTRY_RECORD \<Rightarrow>
          Option.bind (CatalogEntry_deserialize addr deserX bs) (\<lambda>(e, bs).
          Option.bind (deserializeBool bs) (\<lambda>(isInternal, bs). Some (CreateCatalogEntryRecord e isInternal, bs)))
      | COPY_TABLE_RECORD \<Rightarrow> Option.bind (deserializeValue bs) (\<lambda>(tableID, bs). Some (CopyTableRecord tableID, bs))
      | DROP_CATALOG_ENTRY_RECORD \<Rightarrow>
          Option.bind (deserializeValue bs) (\<lambda>(entryID, bs).
          Option.bind (deserializeEnum CatalogEntryType_code all_entry_types bs) (\<lambda>(t, bs).
            Some (DropCatalogEntryRecord entryID t, bs)))
      | ALTER_TABLE_ENTRY_RECORD \<Rightarrow>
          Option.bind (deserializeAlterRecord deserX bs) (\<lambda>(info, bs). Some (AlterTableEntryRecord info, bs))
      | UPDATE_SEQUENCE_RECORD \<Rightarrow>
          Option.bind (deserializeValue bs) (\<lambda>(sequenceID, bs).
          Option.bind (deserializeValue bs) (\<lambda>(kCount, bs). Some (UpdateSequenceRecord sequenceID kCount, bs)))
      | TABLE_INSERTION_RECORD \<Rightarrow> TableInsertionRecord_deserialize deserV bs
      | NODE_DELETION_RECORD \<Rightarrow> NodeRecord_deserialize deserV NODE_DELETION_RECORD bs
      | NODE_UPDATE_RECORD \<Rightarrow> NodeRecord_deserialize deserV NODE_UPDATE_RECORD bs
      | REL_DELETION_RECORD \<Rightarrow> RelDeletionRecord_deserialize deserV bs
      | REL_DETACH_DELETE_RECORD \<Rightarrow> RelDetachDeleteRecord_deserialize deserV bs
      | REL_UPDATE_RECORD \<Rightarrow> RelUpdateRecord_deserialize deserV bs
      | LOAD_EXTENSION_RECORD \<Rightarrow> Option.bind (deserializeString bs) (\<lambda>(path, bs). Some (LoadExtensionRecord path, bs))
      | INVALID_RECORD \<Rightarrow> None)"

definition WALRecord_deserialize :: "nat \<Rightarrow> 'x reader \<Rightarrow> 'v reader \<Rightarrow> ('x, 'v) WALRecord reader" where
  "WALRecord_deserialize addr deserX deserV bs =
     Option.bind (deserializeEnum WALRecordType_code all_record_types bs)
       (\<lambda>(type, bs). WALRecord_body addr deserX deserV type bs)"

section \<open>Round trip\<close>

lemma record_type_roundtrip:
  "deserializeEnum WALRecordType_code all_record_types (serializeValue (WALRecordType_code t) @ rest) = Some (t, rest)"
proof (rule enum_roundtrip)
  show "t \<in> set all_record_types" by (cases t) (simp_all add: all_record_types_def)
qed code_simp

lemma alter_type_roundtrip:
  "deserializeEnum AlterType_code all_alter_types (serializeValue (AlterType_code t) @ rest) = Some (t, rest)"
proof (rule enum_roundtrip)
  show "t \<in> set all_alter_types" by (cases t) (simp_all add: all_alter_types_def)
qed code_simp

lemma table_type_roundtrip:
  "deserializeEnum TableType_code all_table_types (serializeValue (TableType_code t) @ rest) = Some (t, rest)"
proof (rule enum_roundtrip)
  show "t \<in> set all_table_types" by (cases t) (simp_all add: all_table_types_def)
qed code_simp

lemma direction_roundtrip:
  "deserializeEnum RelDataDirection_code all_directions (serializeValue (RelDataDirection_code t) @ rest) = Some (t, rest)"
proof (rule enum_roundtrip)
  show "t \<in> set all_directions" by (cases t) (simp_all add: all_directions_def)
qed code_simp

lemmas wal_roundtrips = record_type_roundtrip alter_type_roundtrip table_type_roundtrip direction_roundtrip
  entry_type_roundtrip string_codec.roundtrip u64_codec.roundtrip u32_codec.roundtrip bool_codec.roundtrip

declare WALRecordType_code.simps [simp del] AlterType_code.simps [simp del]

fun extra_fits :: "('x \<Rightarrow> bool) \<Rightarrow> 'x BoundExtraAlterInfo \<Rightarrow> bool" where
  "extra_fits validX (AddPropertyInfo d) \<longleftrightarrow> fits_u64 (propName d) \<and> validX (propDef d)"
| "extra_fits validX (DropPropertyInfo n) \<longleftrightarrow> fits_u64 n"
| "extra_fits validX (RenamePropertyInfo new old) \<longleftrightarrow> fits_u64 new \<and> fits_u64 old"
| "extra_fits validX (CommentInfo c) \<longleftrightarrow> fits_u64 c"
| "extra_fits validX (RenameTableInfo n) \<longleftrightarrow> fits_u64 n"
| "extra_fits validX _ \<longleftrightarrow> True"

definition alter_fits :: "('x \<Rightarrow> bool) \<Rightarrow> 'x BoundAlterInfo \<Rightarrow> bool" where
  "alter_fits validX info \<longleftrightarrow> fits_u64 (alterTableName info) \<and> extra_fits validX (extraInfo info)"

lemma alter_codec:
  assumes "codec serX deserX validX"
  shows "codec (serializeAlterExtraInfo serX) (deserializeAlterRecord deserX) (alter_fits validX)"
proof
  fix info :: "'a BoundAlterInfo" and rest
  assume "alter_fits validX info"
  then show "deserializeAlterRecord deserX (serializeAlterExtraInfo serX info @ rest) = Some (info, rest)"
    by (cases "extraInfo info") (simp_all add: alter_fits_def serializeAlterExtraInfo_def
        deserializeAlterRecord_def deserializeExtra_def wal_roundtrips
        codec.roundtrip [OF definition_codec [OF assms]])
qed

text \<open>Records within the sizes of the format, and what of a record is not written: the identity of an
  entry, its timestamp, and the order of the names in its properties.\<close>

fun record_fits :: "('x \<Rightarrow> bool) \<Rightarrow> ('v \<Rightarrow> bool) \<Rightarrow> ('x, 'v) WALRecord \<Rightarrow> bool" where
  "record_fits validX validV (CreateCatalogEntryRecord e _) \<longleftrightarrow>
     fits_u64 (entryName e) \<and> body_fits validX (entryType e) (entryBody e)"
| "record_fits validX validV (AlterTableEntryRecord info) \<longleftrightarrow> alter_fits validX info"
| "record_fits validX validV (TableInsertionRecord _ _ _ vectors) \<longleftrightarrow>
     length vectors < 2 ^ 32 \<and> list_all validV vectors"
| "record_fits validX validV (NodeDeletionRecord _ _ v) \<longleftrightarrow> validV v"
| "record_fits validX validV (NodeUpdateRecord _ _ _ v) \<longleftrightarrow> validV v"
| "record_fits validX validV (RelDeletionRecord _ v1 v2 v3) \<longleftrightarrow> validV v1 \<and> validV v2 \<and> validV v3"
| "record_fits validX validV (RelDetachDeleteRecord _ _ v) \<longleftrightarrow> validV v"
| "record_fits validX validV (RelUpdateRecord _ _ v1 v2 v3 v4) \<longleftrightarrow> validV v1 \<and> validV v2 \<and> validV v3 \<and> validV v4"
| "record_fits validX validV (LoadExtensionRecord path) \<longleftrightarrow> fits_u64 path"
| "record_fits validX validV _ \<longleftrightarrow> True"

fun same_record :: "('x, 'v) WALRecord \<Rightarrow> ('x, 'v) WALRecord \<Rightarrow> bool" where
  "same_record (CreateCatalogEntryRecord e i) r \<longleftrightarrow> (\<exists>addr b. r = CreateCatalogEntryRecord
     (e\<lparr>entryAddr := addr, timestamp := DUMMY_START_TIMESTAMP, deleted := False, entryBody := b\<rparr>) i \<and>
     same_body (entryBody e) b)"
| "same_record r r' \<longleftrightarrow> r' = r"

lemma record_read:
  assumes "codec serX deserX validX" "codec serV deserV validV" "record_fits validX validV r"
  shows "\<exists>r'. WALRecord_deserialize addr deserX deserV (WALRecord_serialize serX serV r @ rest) = Some (r', rest) \<and>
    same_record r r'"
proof (cases r)
  case (CreateCatalogEntryRecord e i)
  with assms(3) entry_read [OF assms(1), of e addr "serializeBool i @ rest"] show ?thesis
    by (auto simp: WALRecord_deserialize_def WALRecord_serialize_def WALRecord_body_def wal_roundtrips) blast
next
  case (AlterTableEntryRecord info)
  with assms(3) show ?thesis
    by (simp add: WALRecord_deserialize_def WALRecord_serialize_def WALRecord_body_def wal_roundtrips
        codec.roundtrip [OF alter_codec [OF assms(1)]])
next
  case (TableInsertionRecord t ty n vs)
  then have len: "unat (of_nat (length vs) :: 32 word) = length vs" using assms(3) by (simp add: unat_of_nat)
  with TableInsertionRecord assms(3) show ?thesis
    by (simp add: WALRecord_deserialize_def WALRecord_serialize_def WALRecord_body_def wal_roundtrips
        TableInsertionRecord_deserialize_def codec.array_roundtrip [OF assms(2)])
qed (use assms(3) in \<open>simp_all add: WALRecord_deserialize_def WALRecord_serialize_def WALRecord_body_def
    wal_roundtrips NodeRecord_deserialize_def RelDeletionRecord_deserialize_def
    RelDetachDeleteRecord_deserialize_def RelUpdateRecord_deserialize_def codec.roundtrip [OF assms(2)]\<close>)

section \<open>Properties\<close>

text \<open>
  C35: every record of the log is read back as it was written, whatever follows it: the replay of a log
  sees the operations that were logged.
\<close>

theorem wal_record_roundtrip:
  assumes "codec serX deserX validX" "codec serV deserV validV" "record_fits validX validV r"
  shows "\<exists>r'. WALRecord_deserialize addr deserX deserV (WALRecord_serialize serX serV r @ rest) = Some (r', rest) \<and>
    same_record r r'"
  by (rule record_read [OF assms])

theorem wal_record_roundtrip_witness:
  "\<exists>r'. WALRecord_deserialize 0 deserializeString deserializeString
      (WALRecord_serialize serializeString serializeString (NodeUpdateRecord 3 1 77 ''v'') @ [1]) = Some (r', [1]) \<and>
    same_record (NodeUpdateRecord 3 1 77 ''v'') r'"
  by (rule wal_record_roundtrip [OF string_codec.codec_axioms string_codec.codec_axioms]) (simp add: fits_u64_def)

end
