(* ===== verification/Transaction.thy ===== *)
theory Transaction
  imports WAL_Record Snapshot
begin

text \<open>
  A transaction (\<^verbatim>\<open>transaction/transaction.cpp\<close>): its type, identifier and timestamps, its undo buffer, and
  the log it will append when it commits, here the list of its records (their bytes are the subject of
  the theory of the write-ahead log). The operations that change the database push what they did
  through the functions below. Allocation in the undo buffer terminates for a positive page size
  (theory of the undo buffer); \<open>the\<close> takes its result.
\<close>

record ('x, 'v) ActiveTransaction = Transaction +
  txnInMemory :: bool
  undoBuffer :: "UndoMemoryBuffer list"
  localWAL :: "('x, 'v) WALRecord list"
  forceCheckpoint :: bool
  hasCatalogChanges :: bool

definition Transaction_new :: "bool \<Rightarrow> TransactionType \<Rightarrow> transaction_t \<Rightarrow> transaction_t \<Rightarrow> ('x, 'v) ActiveTransaction" where
  "Transaction_new inMem type transactionID startTS =
     \<lparr>txnType = type, txnID = transactionID, txnStartTS = startTS, txnCommitTS = INVALID_TRANSACTION,
      txnInMemory = inMem, undoBuffer = [], localWAL = [], forceCheckpoint = False, hasCatalogChanges = False\<rparr>"

definition shouldLogToWAL :: "('x, 'v) ActiveTransaction \<Rightarrow> bool" where
  "shouldLogToWAL t \<longleftrightarrow> txnType t = WRITE \<and> \<not> txnInMemory t"

definition shouldForceCheckpoint :: "('x, 'v) ActiveTransaction \<Rightarrow> bool" where
  "shouldForceCheckpoint t \<longleftrightarrow> \<not> txnInMemory t \<and> forceCheckpoint t"

definition setForceCheckpoint :: "('x, 'v) ActiveTransaction \<Rightarrow> ('x, 'v) ActiveTransaction" where
  "setForceCheckpoint t = t\<lparr>forceCheckpoint := True\<rparr>"

definition log_record :: "('x, 'v) WALRecord \<Rightarrow> ('x, 'v) ActiveTransaction \<Rightarrow> ('x, 'v) ActiveTransaction" where
  "log_record r t = t\<lparr>localWAL := localWAL t @ [r]\<rparr>"

text \<open>
  What is logged for an entry \<open>newEntry\<close> on top of \<open>e\<close>: a creation, a drop, nothing, or an exception for
  what cannot be logged.
\<close>

definition created_or_dropped :: "'x CatalogEntry \<Rightarrow> 'x CatalogEntry \<Rightarrow> bool \<Rightarrow> exn + ('x, 'v) WALRecord option" where
  "created_or_dropped e newEntry internal =
     (let created = Inr (Some (CreateCatalogEntryRecord newEntry internal));
          notSupported = Inl (RuntimeException ''Not supported catalog entry type yet.'')
      in case entryType newEntry of
           INDEX_ENTRY \<Rightarrow> if entryType e = DUMMY_ENTRY then created
             else Inl (RuntimeException ''This should not happen. Alter table is not supported.'')
         | NODE_TABLE_ENTRY \<Rightarrow> if entryType e = DUMMY_ENTRY then created
             else Inl (RuntimeException ''This should not happen. Alter table is not supported.'')
         | REL_GROUP_ENTRY \<Rightarrow> if entryType e = DUMMY_ENTRY then created
             else Inl (RuntimeException ''This should not happen. Alter table is not supported.'')
         | SEQUENCE_CATALOG_ENTRY \<Rightarrow> if hasParent newEntry then Inr None else created
         | SCALAR_MACRO_ENTRY \<Rightarrow> created
         | TYPE_ENTRY \<Rightarrow> created
         | DUMMY_ENTRY \<Rightarrow>
             if hasParent e then Inr None
             else (let dropped = Inr (Some (DropCatalogEntryRecord (entryOID e) (entryType e)))
                   in case entryType e of
                        INDEX_ENTRY \<Rightarrow> dropped
                      | SCALAR_MACRO_ENTRY \<Rightarrow> dropped
                      | NODE_TABLE_ENTRY \<Rightarrow> dropped
                      | REL_GROUP_ENTRY \<Rightarrow> dropped
                      | SEQUENCE_CATALOG_ENTRY \<Rightarrow> dropped
                      | SCALAR_FUNCTION_ENTRY \<Rightarrow> Inr None
                      | TABLE_FUNCTION_ENTRY \<Rightarrow> Inr None
                      | STANDALONE_TABLE_FUNCTION_ENTRY \<Rightarrow> Inr None
                      | _ \<Rightarrow> notSupported)
         | SCALAR_FUNCTION_ENTRY \<Rightarrow> Inr None
         | TABLE_FUNCTION_ENTRY \<Rightarrow> Inr None
         | STANDALONE_TABLE_FUNCTION_ENTRY \<Rightarrow> Inr None
         | _ \<Rightarrow> notSupported)"

text \<open>\<open>newEntry\<close> is the entry \<^verbatim>\<open>catalogEntry.getNext()\<close> leads to.\<close>

definition pushCreateDropCatalogEntry :: "nat \<Rightarrow> nat \<Rightarrow> 'x CatalogEntry \<Rightarrow> 'x CatalogEntry \<Rightarrow> bool \<Rightarrow> bool \<Rightarrow>
    ('x, 'v) ActiveTransaction \<Rightarrow> exn option \<times> ('x, 'v) ActiveTransaction" where
  "pushCreateDropCatalogEntry pageSize catalogSet e newEntry internal skipLoggingToWAL t =
     (let t = t\<lparr>undoBuffer := the (createCatalogEntry pageSize catalogSet (entryAddr e) (undoBuffer t)),
                hasCatalogChanges := True\<rparr>
      in if \<not> shouldLogToWAL t \<or> skipLoggingToWAL then (None, t)
         else case created_or_dropped e newEntry internal of
                Inl ex \<Rightarrow> (Some ex, t)
              | Inr None \<Rightarrow> (None, t)
              | Inr (Some r) \<Rightarrow> (None, log_record r t))"

definition pushAlterCatalogEntry :: "nat \<Rightarrow> nat \<Rightarrow> 'x CatalogEntry \<Rightarrow> 'x BoundAlterInfo \<Rightarrow> ('x, 'v) ActiveTransaction \<Rightarrow>
    ('x, 'v) ActiveTransaction" where
  "pushAlterCatalogEntry pageSize catalogSet e info t =
     (let t = t\<lparr>undoBuffer := the (createCatalogEntry pageSize catalogSet (entryAddr e) (undoBuffer t)),
                hasCatalogChanges := True\<rparr>
      in if shouldLogToWAL t then log_record (AlterTableEntryRecord info) t else t)"

definition pushSequenceChange :: "nat \<Rightarrow> 'x CatalogEntry \<Rightarrow> 64 word \<Rightarrow> SequenceRollbackData \<Rightarrow> ('x, 'v) ActiveTransaction \<Rightarrow>
    ('x, 'v) ActiveTransaction" where
  "pushSequenceChange pageSize sequenceEntry kCount rollbackData t =
     (let t = t\<lparr>undoBuffer := the (createSequenceChange pageSize (entryAddr sequenceEntry) rollbackData (undoBuffer t)),
                hasCatalogChanges := True\<rparr>
      in if shouldLogToWAL t then log_record (UpdateSequenceRecord (entryOID sequenceEntry) kCount) t else t)"

definition pushInsertInfo :: "nat \<Rightarrow> nat \<Rightarrow> nat \<Rightarrow> nat \<Rightarrow> nat \<Rightarrow> ('x, 'v) ActiveTransaction \<Rightarrow> ('x, 'v) ActiveTransaction" where
  "pushInsertInfo pageSize nodeGroupIdx startRow numRows handler t =
     t\<lparr>undoBuffer := the (createInsertInfo pageSize nodeGroupIdx startRow numRows handler (undoBuffer t))\<rparr>"

definition pushDeleteInfo :: "nat \<Rightarrow> nat \<Rightarrow> nat \<Rightarrow> nat \<Rightarrow> nat \<Rightarrow> ('x, 'v) ActiveTransaction \<Rightarrow> ('x, 'v) ActiveTransaction" where
  "pushDeleteInfo pageSize nodeGroupIdx startRow numRows handler t =
     t\<lparr>undoBuffer := the (createDeleteInfo pageSize nodeGroupIdx startRow numRows handler (undoBuffer t))\<rparr>"

definition pushVectorUpdateInfo :: "nat \<Rightarrow> ChunkRef \<Rightarrow> nat \<Rightarrow> nat \<Rightarrow> transaction_t \<Rightarrow> ('x, 'v) ActiveTransaction \<Rightarrow> ('x, 'v) ActiveTransaction" where
  "pushVectorUpdateInfo pageSize ui vectorIdx info ver t =
     t\<lparr>undoBuffer := the (createVectorUpdateInfo pageSize ui vectorIdx info ver (undoBuffer t))\<rparr>"

end
