(* ===== verification/Catalog_Set.thy ===== *)
theory Catalog_Set
  imports Transaction Case_Map
begin

text \<open>
  A set of catalog entries (\<^verbatim>\<open>catalog/catalog_set.cpp\<close>): a map from names to version chains. A chain is the
  list of its versions, the newest first: \<^verbatim>\<open>getPrev\<close> is the entry behind and \<^verbatim>\<open>getNext\<close> the entry before
  it. An allocation takes the next address. The latch of the set makes every operation atomic and is
  not modelled. The undo records of entries are committed and rolled back here
  (\<^verbatim>\<open>storage/undo_buffer.cpp\<close>).
\<close>

section \<open>Operations\<close>

type_synonym 'x chain = "'x CatalogEntry list"

record 'x CatalogSet =
  setAddr :: nat
  nextOID :: oid_t
  "entries" :: "'x chain case_insensitive_map"
  nextAddr :: nat

definition INTERNAL_CATALOG_SET_START_OID :: oid_t where
  "INTERNAL_CATALOG_SET_START_OID = push_bit 63 1"

definition CatalogSet_new :: "nat \<Rightarrow> bool \<Rightarrow> 'x CatalogSet" where
  "CatalogSet_new addr internal =
     \<lparr>setAddr = addr, nextOID = (if internal then INTERNAL_CATALOG_SET_START_OID else 0), entries = [], nextAddr = 0\<rparr>"

definition isInternal :: "'x CatalogSet \<Rightarrow> bool" where
  "isInternal s \<longleftrightarrow> INTERNAL_CATALOG_SET_START_OID \<le> nextOID s"

definition getNextOID :: "'x CatalogSet \<Rightarrow> oid_t \<times> 'x CatalogSet" where
  "getNextOID s = (nextOID s, s\<lparr>nextOID := nextOID s + 1\<rparr>)"

definition checkWWConflict :: "('x, 'v) ActiveTransaction \<Rightarrow> 'x CatalogEntry \<Rightarrow> bool" where
  "checkWWConflict t e \<longleftrightarrow>
     (START_TRANSACTION_ID \<le> timestamp e \<and> timestamp e \<noteq> txnID t) \<or>
     (timestamp e < START_TRANSACTION_ID \<and> txnStartTS t < timestamp e)"

definition traverseVersionChains :: "('x, 'v) ActiveTransaction \<Rightarrow> 'x chain \<Rightarrow> 'x CatalogEntry option" where
  "traverseVersionChains t chain = List.find (\<lambda>e. timestamp e = txnID t \<or> timestamp e \<le> txnStartTS t) chain"

definition getCommittedEntryNoLock :: "'x chain \<Rightarrow> 'x CatalogEntry option" where
  "getCommittedEntryNoLock chain = List.find (\<lambda>e. timestamp e < START_TRANSACTION_ID) chain"

text \<open>The chain of a name always has a visible version, so the null pointer \<open>the\<close> hides is not met.\<close>

definition containsEntryNoLock :: "('x, 'v) ActiveTransaction \<Rightarrow> string \<Rightarrow> 'x CatalogSet \<Rightarrow> bool" where
  "containsEntryNoLock t name s =
     (case ci_at (entries s) name of
        None \<Rightarrow> False
      | Some chain \<Rightarrow> \<not> deleted (the (traverseVersionChains t chain)))"

definition validateExistNoLock :: "('x, 'v) ActiveTransaction \<Rightarrow> string \<Rightarrow> 'x CatalogSet \<Rightarrow> exn option" where
  "validateExistNoLock t name s =
     (if containsEntryNoLock t name s then None else Some (CatalogException ''does not exist in catalog.''))"

definition validateNotExistNoLock :: "('x, 'v) ActiveTransaction \<Rightarrow> string \<Rightarrow> 'x CatalogSet \<Rightarrow> exn option" where
  "validateNotExistNoLock t name s =
     (if containsEntryNoLock t name s then Some (CatalogException ''already exists in catalog.'') else None)"

definition getEntryNoLock :: "('x, 'v) ActiveTransaction \<Rightarrow> string \<Rightarrow> 'x CatalogSet \<Rightarrow> exn + 'x CatalogEntry" where
  "getEntryNoLock t name s =
     (case validateExistNoLock t name s of
        Some e \<Rightarrow> Inl e
      | None \<Rightarrow> Inr (the (traverseVersionChains t (the (ci_at (entries s) name)))))"

definition eraseNoLock :: "string \<Rightarrow> 'x CatalogSet \<Rightarrow> 'x CatalogSet" where
  "eraseNoLock name s = s\<lparr>entries := ci_erase name (entries s)\<rparr>"

text \<open>\<^verbatim>\<open>emplaceNoLock\<close> of an entry with its older versions; the chain of the name, if there is one, becomes them.\<close>

definition emplaceNoLock :: "'x chain \<Rightarrow> 'x CatalogSet \<Rightarrow> 'x CatalogSet" where
  "emplaceNoLock chain s =
     (let name = entryName (hd chain) in
      case ci_at (entries s) name of
        Some older \<Rightarrow> s\<lparr>entries := ci_emplace name (hd chain # older) (ci_erase name (entries s))\<rparr>
      | None \<Rightarrow> s\<lparr>entries := ci_emplace name chain (entries s)\<rparr>)"

definition existing_conflict :: "('x, 'v) ActiveTransaction \<Rightarrow> 'x chain option \<Rightarrow> exn option" where
  "existing_conflict t c =
     (case c of
        None \<Rightarrow> None
      | Some chain \<Rightarrow>
          if checkWWConflict t (hd chain) then Some (CatalogException ''Write-write conflict on creating catalog entry.'')
          else if \<not> deleted (hd chain) then Some (CatalogException ''Catalog entry already exists.'')
          else None)"

text \<open>The entry below the new one is returned, and the new one.\<close>

definition createEntryNoLock :: "('x, 'v) ActiveTransaction \<Rightarrow> 'x CatalogEntry \<Rightarrow> 'x CatalogSet \<Rightarrow>
    exn + (('x CatalogEntry \<times> 'x CatalogEntry) \<times> 'x CatalogSet)" where
  "createEntryNoLock t e s =
     (case validateNotExistNoLock t (entryName e) s of
        Some ex \<Rightarrow> Inl ex
      | None \<Rightarrow>
          let e = e\<lparr>timestamp := txnID t\<rparr> in
          case existing_conflict t (ci_at (entries s) (entryName e)) of
            Some ex \<Rightarrow> Inl ex
          | None \<Rightarrow>
              let dummyEntry = DummyCatalogEntry (nextAddr s) (entryName e) (entryOID e);
                  s = s\<lparr>nextAddr := nextAddr s + 1,
                        entries := ci_emplace (entryName e) [dummyEntry] (entries s)\<rparr>;
                  prev = hd (the (ci_at (entries s) (entryName e)))
              in Inr ((prev, e), emplaceNoLock [e] s))"

definition createEntry :: "nat \<Rightarrow> 'x CatalogEntry \<Rightarrow> ('x, 'v) ActiveTransaction \<times> 'x CatalogSet \<Rightarrow>
    (exn + oid_t) \<times> ('x, 'v) ActiveTransaction \<times> 'x CatalogSet" where
  "createEntry pageSize e = (\<lambda>(t, s).
     let oid = nextOID s;
         e = e\<lparr>entryOID := oid, entryAddr := nextAddr s\<rparr>;
         s = s\<lparr>nextOID := nextOID s + 1, nextAddr := nextAddr s + 1\<rparr>
     in case createEntryNoLock t e s of
          Inl ex \<Rightarrow> (Inl ex, t, s)
        | Inr ((prev, new), s) \<Rightarrow>
            if shouldAppendToUndoBuffer t
            then (case pushCreateDropCatalogEntry pageSize (setAddr s) prev new (isInternal s) False t of
                    (None, t) \<Rightarrow> (Inr oid, t, s)
                  | (Some ex, t) \<Rightarrow> (Inl ex, t, s))
            else (Inr oid, t, s))"

definition dropEntryNoLock :: "('x, 'v) ActiveTransaction \<Rightarrow> string \<Rightarrow> oid_t \<Rightarrow> 'x CatalogSet \<Rightarrow>
    exn + (('x CatalogEntry \<times> 'x CatalogEntry) \<times> 'x CatalogSet)" where
  "dropEntryNoLock t name oid s =
     (case validateExistNoLock t name s of
        Some ex \<Rightarrow> Inl ex
      | None \<Rightarrow>
          let tombstone = (DummyCatalogEntry (nextAddr s) name oid)\<lparr>timestamp := txnID t\<rparr>;
              prev = hd (the (ci_at (entries s) name))
          in Inr ((prev, tombstone), emplaceNoLock [tombstone] (s\<lparr>nextAddr := nextAddr s + 1\<rparr>)))"

definition dropEntry :: "nat \<Rightarrow> string \<Rightarrow> oid_t \<Rightarrow> ('x, 'v) ActiveTransaction \<times> 'x CatalogSet \<Rightarrow>
    (exn + unit) \<times> ('x, 'v) ActiveTransaction \<times> 'x CatalogSet" where
  "dropEntry pageSize name oid = (\<lambda>(t, s).
     case dropEntryNoLock t name oid s of
       Inl ex \<Rightarrow> (Inl ex, t, s)
     | Inr ((prev, tombstone), s) \<Rightarrow>
         if shouldAppendToUndoBuffer t
         then (case pushCreateDropCatalogEntry pageSize (setAddr s) prev tombstone (isInternal s) False t of
                 (None, t) \<Rightarrow> (Inr (), t, s)
               | (Some ex, t) \<Rightarrow> (Inl ex, t, s))
         else (Inr (), t, s))"

text \<open>
  \<^verbatim>\<open>CatalogSet::alterTableEntry\<close>: a rename drops the entry and creates it under the new name, any other
  alteration puts a new version on top of the chain.
\<close>

definition alterTableEntry :: "nat \<Rightarrow> 'x BoundAlterInfo \<Rightarrow> ('x, 'v) ActiveTransaction \<times> 'x CatalogSet \<Rightarrow>
    (exn + unit) \<times> ('x, 'v) ActiveTransaction \<times> 'x CatalogSet" where
  "alterTableEntry pageSize info = (\<lambda>(t, s).
     case getEntryNoLock t (alterTableName info) s of
       Inl ex \<Rightarrow> (Inl ex, t, s)
     | Inr e \<Rightarrow>
         (case TableCatalogEntry_alter (nextAddr s) (txnID t) (extraInfo info) (nextOID s) e of
            None \<Rightarrow> (Inl (InternalException ''alter''), t, s)
          | Some (newEntry, oid) \<Rightarrow>
              let s = s\<lparr>nextOID := oid, nextAddr := nextAddr s + 1\<rparr>
              in case extraInfo info of
                   RenameTableInfo _ \<Rightarrow>
                     (case dropEntryNoLock t (alterTableName info) (entryOID e) s of
                        Inl ex \<Rightarrow> (Inl ex, t, s)
                      | Inr (_, s) \<Rightarrow>
                          (case createEntryNoLock t newEntry s of
                             Inl ex \<Rightarrow> (Inl ex, t, s)
                           | Inr ((prev, new), s) \<Rightarrow>
                               if shouldAppendToUndoBuffer t
                               then (case pushCreateDropCatalogEntry pageSize (setAddr s) prev new (isInternal s) True
                                            (pushAlterCatalogEntry pageSize (setAddr s) e info t) of
                                       (None, t) \<Rightarrow> (Inr (), t, s)
                                     | (Some ex, t) \<Rightarrow> (Inl ex, t, s))
                               else (Inr (), t, s)))
                 | _ \<Rightarrow>
                     let s = emplaceNoLock [newEntry] s
                     in if shouldAppendToUndoBuffer t
                        then (Inr (), pushAlterCatalogEntry pageSize (setAddr s) e info t, s)
                        else (Inr (), t, s)))"

definition getEntries :: "('x, 'v) ActiveTransaction \<Rightarrow> 'x CatalogSet \<Rightarrow> (string \<times> 'x CatalogEntry) list" where
  "getEntries t s = filter (\<lambda>(_, e). \<not> deleted e)
     (map (\<lambda>(name, chain). (name, the (traverseVersionChains t chain))) (entries s))"

definition getEntryOfOID :: "('x, 'v) ActiveTransaction \<Rightarrow> oid_t \<Rightarrow> 'x CatalogSet \<Rightarrow> 'x CatalogEntry option" where
  "getEntryOfOID t oid s = List.find (\<lambda>e. \<not> deleted e)
     (map (\<lambda>(_, chain). the (traverseVersionChains t chain)) (filter (\<lambda>(_, chain). entryOID (hd chain) = oid) (entries s)))"

section \<open>Serialization\<close>

definition is_function_entry :: "CatalogEntryType \<Rightarrow> bool" where
  "is_function_entry type \<longleftrightarrow> type \<in> {SCALAR_FUNCTION_ENTRY, REWRITE_FUNCTION_ENTRY, AGGREGATE_FUNCTION_ENTRY,
     COPY_FUNCTION_ENTRY, TABLE_FUNCTION_ENTRY, STANDALONE_TABLE_FUNCTION_ENTRY}"

definition entriesToSerialize :: "'x CatalogSet \<Rightarrow> 'x CatalogEntry list" where
  "entriesToSerialize s = concat (map (\<lambda>(_, chain).
     if is_function_entry (entryType (hd chain)) then []
     else case getCommittedEntryNoLock chain of
            Some e \<Rightarrow> if deleted e then [] else [e]
          | None \<Rightarrow> []) (entries s))"

definition CatalogSet_serialize :: "('x \<Rightarrow> byte list) \<Rightarrow> 'x CatalogSet \<Rightarrow> byte list" where
  "CatalogSet_serialize serX s =
     serializeValue (nextOID s) @ serializeVector (CatalogEntry_serialize serX) (entriesToSerialize s)"

fun deserialize_entries :: "'x reader \<Rightarrow> nat \<Rightarrow> 'x CatalogSet \<Rightarrow> 'x CatalogSet reader" where
  "deserialize_entries deserX 0 s bs = Some (s, bs)"
| "deserialize_entries deserX (Suc n) s bs =
     Option.bind (CatalogEntry_deserialize (nextAddr s) deserX bs) (\<lambda>(e, bs).
       deserialize_entries deserX n (emplaceNoLock [e] (s\<lparr>nextAddr := nextAddr s + 1\<rparr>)) bs)"

definition CatalogSet_deserialize :: "nat \<Rightarrow> 'x reader \<Rightarrow> 'x CatalogSet reader" where
  "CatalogSet_deserialize addr deserX bs =
     Option.bind (deserializeValue bs) (\<lambda>(oid, bs).
     Option.bind (deserializeValue bs) (\<lambda>(numEntries :: 64 word, bs).
       deserialize_entries deserX (unat numEntries) ((CatalogSet_new addr False)\<lparr>nextOID := oid\<rparr>) bs))"

section \<open>Undo records of entries\<close>

text \<open>Stamping and removing the version above the one at the address \<open>a\<close>.\<close>

fun stamp_next :: "transaction_t \<Rightarrow> nat \<Rightarrow> 'x chain \<Rightarrow> 'x chain" where
  "stamp_next commitTS a (x # y # chain) =
     (if entryAddr y = a then x\<lparr>timestamp := commitTS\<rparr> # y # chain else x # stamp_next commitTS a (y # chain))"
| "stamp_next commitTS a chain = chain"

fun remove_next :: "nat \<Rightarrow> 'x chain \<Rightarrow> 'x chain" where
  "remove_next a (x # y # chain) = (if entryAddr y = a then y # chain else x # remove_next a (y # chain))"
| "remove_next a chain = chain"

definition commitCatalogEntryRecord :: "transaction_t \<Rightarrow> nat \<Rightarrow> 'x CatalogSet \<Rightarrow> 'x CatalogSet" where
  "commitCatalogEntryRecord commitTS a s = s\<lparr>entries := map (\<lambda>(name, chain). (name, stamp_next commitTS a chain)) (entries s)\<rparr>"

text \<open>
  \<^verbatim>\<open>UndoBuffer::rollbackCatalogEntryRecord\<close>: a version with a newer one is taken out of the chain; the newest
  version is replaced in the map by the older ones.
\<close>

definition rollbackCatalogEntryRecord :: "nat \<Rightarrow> 'x CatalogSet \<Rightarrow> 'x CatalogSet" where
  "rollbackCatalogEntryRecord a s =
     (case List.find (\<lambda>(_, chain). \<exists>e\<in>set chain. entryAddr e = a) (entries s) of
        None \<Rightarrow> s
      | Some (_, chain) \<Rightarrow>
          (case chain of
             x # y # older \<Rightarrow>
               if entryAddr y = a then emplaceNoLock (y # older) (eraseNoLock (entryName y) s)
               else s\<lparr>entries := map (\<lambda>(name, c). (name, remove_next a c)) (entries s)\<rparr>
           | _ \<Rightarrow> s))"

end
