(* ===== verification/Catalog_Versions.thy ===== *)
theory Catalog_Versions
  imports Catalog_Set
begin

text \<open>
  The version chains of a catalog set under the operations of a transaction: the invariant of the
  chains, what an operation pushes on them, and what committing and rolling back the undo buffer of the
  transaction makes of it. The transaction is the only writer, the mode the database runs in unless
  concurrent writers are switched on: at its start the newest version of every name is committed and
  visible to it.
\<close>

section \<open>Chains\<close>

abbreviation version_chain :: "'x CatalogSet \<Rightarrow> string \<Rightarrow> 'x chain option" where
  "version_chain s n \<equiv> ci_at (entries s) n"

definition chain_ok :: "nat \<Rightarrow> string \<Rightarrow> 'x chain \<Rightarrow> bool" where
  "chain_ok bound n c \<longleftrightarrow> c \<noteq> [] \<and> (\<forall>e\<in>set c. caseInsensitiveEquals n (entryName e) \<and> entryAddr e < bound) \<and>
     timestamp (last c) = 0 \<and> distinct (map entryAddr c)"

definition set_inv :: "'x CatalogSet \<Rightarrow> bool" where
  "set_inv s \<longleftrightarrow> ci_distinct (entries s) \<and> (\<forall>n c. version_chain s n = Some c \<longrightarrow> chain_ok (nextAddr s) n c) \<and>
     (\<forall>n m c d e f. version_chain s n = Some c \<longrightarrow> version_chain s m = Some d \<longrightarrow> e \<in> set c \<longrightarrow> f \<in> set d \<longrightarrow>
        entryAddr e = entryAddr f \<longrightarrow> caseInsensitiveEquals n m)"

definition fresh_addr :: "nat \<Rightarrow> 'x CatalogSet \<Rightarrow> bool" where
  "fresh_addr a s \<longleftrightarrow> a < nextAddr s \<and> (\<forall>n c. version_chain s n = Some c \<longrightarrow> a \<notin> entryAddr ` set c)"

lemma set_inv_chain: "set_inv s \<Longrightarrow> version_chain s n = Some c \<Longrightarrow> chain_ok (nextAddr s) n c"
  by (simp add: set_inv_def)

lemma set_inv_disjoint:
  "set_inv s \<Longrightarrow> version_chain s n = Some c \<Longrightarrow> version_chain s m = Some d \<Longrightarrow> e \<in> set c \<Longrightarrow> f \<in> set d \<Longrightarrow>
     entryAddr e = entryAddr f \<Longrightarrow> caseInsensitiveEquals n m"
  unfolding set_inv_def by blast

lemma set_inv_new: "set_inv (CatalogSet_new addr internal)"
  by (simp add: set_inv_def CatalogSet_new_def)

lemma set_inv_bump:
  assumes "set_inv s"
  shows "set_inv (s\<lparr>nextAddr := nextAddr s + 1\<rparr>)" "set_inv (s\<lparr>nextOID := oid, nextAddr := nextAddr s + 1\<rparr>)"
  using assms by (auto simp: set_inv_def chain_ok_def intro: less_SucI)

lemma fresh_next:
  assumes "set_inv s"
  shows "fresh_addr (nextAddr s) (s\<lparr>nextAddr := nextAddr s + 1\<rparr>)"
    and "fresh_addr (nextAddr s) (s\<lparr>nextOID := oid, nextAddr := nextAddr s + 1\<rparr>)"
  using set_inv_chain [OF assms] by (fastforce simp: fresh_addr_def chain_ok_def)+

text \<open>Replacing the chain of one name by one with addresses of its own.\<close>

lemma set_inv_update:
  assumes inv: "set_inv s" and "ci_distinct (entries s')" and le: "nextAddr s \<le> nextAddr s'"
    and chains: "\<And>n. version_chain s' n = (if caseInsensitiveEquals name n then Some c else version_chain s n)"
    and ok: "chain_ok (nextAddr s') name c"
    and own: "\<And>e. e \<in> set c \<Longrightarrow> entryAddr e \<in> entryAddr ` set (case version_chain s name of None \<Rightarrow> [] | Some d \<Rightarrow> d) \<or>
      (\<forall>n d. version_chain s n = Some d \<longrightarrow> entryAddr e \<notin> entryAddr ` set d)"
  shows "set_inv s'"
proof -
  have name: "caseInsensitiveEquals name n"
    if "e \<in> set c" "version_chain s n = Some d" "f \<in> set d" "entryAddr e = entryAddr f" for e n d f
  proof -
    have "entryAddr e \<in> entryAddr ` set d" using that(3,4) by simp
    with own [OF that(1)] that(2) have "entryAddr e \<in> entryAddr ` set (case version_chain s name of None \<Rightarrow> [] | Some d \<Rightarrow> d)"
      by blast
    then obtain d' e' where "version_chain s name = Some d'" "e' \<in> set d'" "entryAddr e' = entryAddr e"
      by (cases "version_chain s name") auto
    with that(2-4) show ?thesis using set_inv_disjoint [OF inv] by metis
  qed
  have ok': "chain_ok (nextAddr s') n d" if "version_chain s' n = Some d" for n d
  proof (cases "caseInsensitiveEquals name n")
    case True
    with that ok show ?thesis by (auto simp: chains chain_ok_def caseInsensitiveEquals_iff)
  next
    case False
    with that set_inv_chain [OF inv] le show ?thesis by (fastforce simp: chains chain_ok_def)
  qed
  have disj: "caseInsensitiveEquals n m"
    if "version_chain s' n = Some d" "version_chain s' m = Some d'" "e \<in> set d" "f \<in> set d'" "entryAddr e = entryAddr f" for n m d d' e f
  proof -
    consider "caseInsensitiveEquals name n" "caseInsensitiveEquals name m"
      | "caseInsensitiveEquals name n" "\<not> caseInsensitiveEquals name m"
      | "\<not> caseInsensitiveEquals name n" "caseInsensitiveEquals name m"
      | "\<not> caseInsensitiveEquals name n" "\<not> caseInsensitiveEquals name m" by blast
    then show ?thesis
    proof cases
      case 1
      then show ?thesis by (simp add: caseInsensitiveEquals_iff)
    next
      case 2
      with that name [of e m d' f] show ?thesis by (simp add: chains)
    next
      case 3
      with that name [of f n d e] show ?thesis by (simp add: chains)
    next
      case 4
      with that set_inv_disjoint [OF inv] show ?thesis by (simp add: chains)
    qed
  qed
  from assms(2) ok' disj show ?thesis unfolding set_inv_def by blast
qed

section \<open>What an operation pushes\<close>

definition pushed :: "'x CatalogEntry \<Rightarrow> 'x chain \<Rightarrow> 'x CatalogSet \<Rightarrow> 'x CatalogSet \<Rightarrow> bool" where
  "pushed e base s s' \<longleftrightarrow> set_inv s' \<and> setAddr s' = setAddr s \<and> base \<noteq> [] \<and>
     (version_chain s (entryName e) = Some base \<or>
      version_chain s (entryName e) = None \<and> (\<exists>d. base = [d] \<and> deleted d \<and> timestamp d = 0)) \<and>
     (\<forall>n. version_chain s' n = (if caseInsensitiveEquals (entryName e) n then Some (e # base) else version_chain s n))"

lemma emplace_entries:
  "entries (emplaceNoLock [e] s) = (case version_chain s (entryName e) of
       Some older \<Rightarrow> ci_emplace (entryName e) (e # older) (ci_erase (entryName e) (entries s))
     | None \<Rightarrow> ci_emplace (entryName e) [e] (entries s))"
  by (simp add: emplaceNoLock_def Let_def split: option.split)

lemma emplace_frame [simp]: "nextAddr (emplaceNoLock c s) = nextAddr s" "setAddr (emplaceNoLock c s) = setAddr s"
  by (simp_all add: emplaceNoLock_def Let_def split: option.split)

lemma emplace_pushed:
  assumes inv: "set_inv s" and base: "version_chain s (entryName e) = Some base" and fresh: "fresh_addr (entryAddr e) s"
  shows "pushed e base s (emplaceNoLock [e] s)"
proof -
  let ?s = "emplaceNoLock [e] s"
  have chains: "version_chain ?s n = (if caseInsensitiveEquals (entryName e) n then Some (e # base) else version_chain s n)" for n
    by (simp add: emplace_entries base ci_at_emplace ci_contains_erase ci_at_erase)
  have ok: "chain_ok (nextAddr s) (entryName e) base" by (rule set_inv_chain [OF inv base])
  have "chain_ok (nextAddr ?s) (entryName e) (e # base)"
    using ok fresh base by (auto simp: chain_ok_def fresh_addr_def image_iff)
  moreover have "ci_distinct (entries ?s)" using inv by (simp add: emplace_entries base set_inv_def)
  ultimately have "set_inv ?s"
    using fresh by (intro set_inv_update [OF inv _ _ chains]) (auto simp: base fresh_addr_def)
  with ok base chains show ?thesis by (simp add: pushed_def chain_ok_def)
qed

lemma create_pushed:
  assumes inv: "set_inv s" and fresh: "fresh_addr (entryAddr e) s"
    and res: "createEntryNoLock t e s = Inr ((prev, new), s')"
  shows "new = e\<lparr>timestamp := txnID t\<rparr>" "\<exists>base. pushed new base s s' \<and> prev = hd base \<and> deleted prev"
proof -
  let ?e = "e\<lparr>timestamp := txnID t\<rparr>"
  define dummy where "dummy = (DummyCatalogEntry (nextAddr s) (entryName e) (entryOID e) :: 'a CatalogEntry)"
  define s1 where "s1 = s\<lparr>nextAddr := nextAddr s + 1, entries := ci_emplace (entryName e) [dummy] (entries s)\<rparr>"
  from res have r: "new = ?e" "prev = hd (the (version_chain s1 (entryName e)))" "s' = emplaceNoLock [?e] s1"
    "existing_conflict t (version_chain s (entryName e)) = None"
    by (auto simp: createEntryNoLock_def Let_def s1_def dummy_def split: option.splits)
  then show "new = ?e" by simp
  show "\<exists>base. pushed new base s s' \<and> prev = hd base \<and> deleted prev"
  proof (cases "version_chain s (entryName e)")
    case (Some base)
    then have s1: "s1 = s\<lparr>nextAddr := nextAddr s + 1\<rparr>" by (simp add: s1_def ci_emplace_def ci_contains_def)
    have "pushed ?e base s1 s'" unfolding r(3)
      by (rule emplace_pushed) (use set_inv_bump(1) [OF inv] fresh Some in \<open>auto simp: s1 fresh_addr_def\<close>)
    with r Some show ?thesis
      by (intro exI [of _ base]) (auto simp: pushed_def s1 existing_conflict_def split: if_splits)
  next
    case None
    have chains: "version_chain s1 n = (if caseInsensitiveEquals (entryName e) n then Some [dummy] else version_chain s n)" for n
      using None by (simp add: s1_def ci_at_emplace ci_contains_def)
    have new: "\<forall>n d. version_chain s n = Some d \<longrightarrow> nextAddr s \<notin> entryAddr ` set d"
      using set_inv_chain [OF inv] by (fastforce simp: chain_ok_def)
    have "chain_ok (nextAddr s1) (entryName e) [dummy]" by (simp add: chain_ok_def dummy_def s1_def DummyCatalogEntry_def)
    then have inv1: "set_inv s1"
      using inv new by (intro set_inv_update [OF inv _ _ chains]) (auto simp: s1_def set_inv_def dummy_def DummyCatalogEntry_def)
    have "nextAddr s1 = nextAddr s + 1" by (simp add: s1_def)
    then have "fresh_addr (entryAddr ?e) s1"
      using fresh by (auto simp: fresh_addr_def chains dummy_def DummyCatalogEntry_def split: if_splits)
    from emplace_pushed [OF inv1 _ this] have "pushed ?e [dummy] s1 s'" by (simp add: r(3) chains)
    moreover have "deleted dummy" "timestamp dummy = 0" "setAddr s1 = setAddr s" "prev = dummy"
      by (simp_all add: dummy_def DummyCatalogEntry_def s1_def) (simp add: r(2) chains dummy_def DummyCatalogEntry_def)
    ultimately show ?thesis using r(1) None
      by (intro exI [of _ "[dummy]"]) (simp add: pushed_def chains)
  qed
qed

lemma drop_pushed:
  assumes inv: "set_inv s" and res: "dropEntryNoLock t name oid s = Inr ((prev, tombstone), s')"
  shows "tombstone = (DummyCatalogEntry (nextAddr s) name oid)\<lparr>timestamp := txnID t\<rparr>"
    "\<exists>base. version_chain s name = Some base \<and> pushed tombstone base s s' \<and> prev = hd base"
proof -
  from res show eq: "tombstone = (DummyCatalogEntry (nextAddr s) name oid)\<lparr>timestamp := txnID t\<rparr>"
    by (auto simp: dropEntryNoLock_def Let_def split: option.splits)
  from res obtain base where base: "version_chain s name = Some base" "prev = hd base"
    "s' = emplaceNoLock [tombstone] (s\<lparr>nextAddr := nextAddr s + 1\<rparr>)"
    by (auto simp: dropEntryNoLock_def Let_def validateExistNoLock_def containsEntryNoLock_def eq split: option.splits if_splits)
  have "pushed tombstone base (s\<lparr>nextAddr := nextAddr s + 1\<rparr>) s'"
    unfolding base(3) using set_inv_bump(1) [OF inv] fresh_next(1) [OF inv] base(1)
    by (intro emplace_pushed) (simp_all add: eq DummyCatalogEntry_def)
  with base show "\<exists>base. version_chain s name = Some base \<and> pushed tombstone base s s' \<and> prev = hd base"
    by (auto simp: pushed_def)
qed

lemma ci_at_map_values: "ci_at (map (\<lambda>(k, v). (k, f v)) m) n = map_option f (ci_at m n)"
  by (induction m) auto

lemma find_chain:
  assumes inv: "set_inv s" and c: "version_chain s name = Some c" "\<exists>e\<in>set c. entryAddr e = a"
  shows "\<exists>k. List.find (\<lambda>(_, chain). \<exists>e\<in>set chain. entryAddr e = a) (entries s) = Some (k, c)"
proof -
  from ci_at_SomeD [OF c(1)] obtain k where k: "(k, c) \<in> set (entries s)" by blast
  then have "List.find (\<lambda>(_, chain). \<exists>e\<in>set chain. entryAddr e = a) (entries s) \<noteq> None"
    using c(2) by (auto simp: find_None_iff)
  then obtain k' c' where f: "List.find (\<lambda>(_, chain). \<exists>e\<in>set chain. entryAddr e = a) (entries s) = Some (k', c')" by auto
  then have f': "(k', c') \<in> set (entries s)" "\<exists>e\<in>set c'. entryAddr e = a"
    by (auto simp: find_Some_iff) (metis nth_mem)
  have "version_chain s k' = Some c'" using inv f'(1) by (intro ci_at_mem) (simp_all add: set_inv_def)
  moreover from this have "caseInsensitiveEquals name k'"
    using set_inv_disjoint [OF inv c(1)] c(2) f'(2) by metis
  ultimately have "c' = c" using ci_at_cong [of name k' "entries s"] c(1) by simp
  with f show ?thesis by blast
qed

lemma rollback_pops:
  assumes inv: "set_inv s" and c: "version_chain s name = Some (e # y # older)"
  shows "set_inv (rollbackCatalogEntryRecord (entryAddr y) s)" "setAddr (rollbackCatalogEntryRecord (entryAddr y) s) = setAddr s"
    and "version_chain (rollbackCatalogEntryRecord (entryAddr y) s) n =
      (if caseInsensitiveEquals name n then Some (y # older) else version_chain s n)"
proof -
  let ?s = "rollbackCatalogEntryRecord (entryAddr y) s"
  obtain k where "List.find (\<lambda>(_, chain). \<exists>e\<in>set chain. entryAddr e = entryAddr y) (entries s) = Some (k, e # y # older)"
    using find_chain [OF inv c, of "entryAddr y"] by auto
  then have eq: "?s = emplaceNoLock (y # older) (eraseNoLock (entryName y) s)"
    by (simp add: rollbackCatalogEntryRecord_def)
  have ok: "chain_ok (nextAddr s) name (e # y # older)" by (rule set_inv_chain [OF inv c])
  then have name: "caseInsensitiveEquals name (entryName y)" by (simp add: chain_ok_def)
  have ent: "entries ?s = ci_emplace (entryName y) (y # older) (ci_erase (entryName y) (entries s))"
    by (simp add: eq emplaceNoLock_def eraseNoLock_def ci_at_erase Let_def)
  show chains: "version_chain ?s n = (if caseInsensitiveEquals name n then Some (y # older) else version_chain s n)" for n
    using name by (simp add: ent ci_at_emplace ci_contains_erase ci_at_erase caseInsensitiveEquals_iff)
  have "chain_ok (nextAddr ?s) name (y # older)" using ok by (simp add: eq eraseNoLock_def chain_ok_def)
  moreover have "ci_distinct (entries ?s)" using inv by (simp add: ent set_inv_def)
  moreover have "nextAddr s \<le> nextAddr ?s" by (simp add: eq eraseNoLock_def)
  ultimately show "set_inv ?s" by (intro set_inv_update [OF inv _ _ chains]) (use c in auto)
  show "setAddr ?s = setAddr s" by (simp add: eq eraseNoLock_def)
qed

section \<open>The writes of a transaction\<close>

text \<open>The addresses of the undo records, in the order they are written.\<close>

inductive catalog_writes :: "transaction_t \<Rightarrow> 'x CatalogSet \<Rightarrow> nat list \<Rightarrow> 'x CatalogSet \<Rightarrow> bool" for i where
  none: "catalog_writes i s [] s"
| push: "catalog_writes i s recs s1 \<Longrightarrow> timestamp e = i \<Longrightarrow> pushed e base s1 s2 \<Longrightarrow>
     catalog_writes i s (recs @ [entryAddr (hd base)]) s2"

lemma catalog_writes_inv: "catalog_writes i s recs s' \<Longrightarrow> set_inv s \<Longrightarrow> set_inv s' \<and> setAddr s' = setAddr s"
  by (induction rule: catalog_writes.induct) (auto simp: pushed_def)

lemma catalog_writes_trans:
  "catalog_writes i s1 recs' s2 \<Longrightarrow> catalog_writes i s recs s1 \<Longrightarrow> catalog_writes i s (recs @ recs') s2"
proof (induction rule: catalog_writes.induct)
  case (push s recs1 s1 e base s2)
  then show ?case using catalog_writes.push [of i _ _ s1 e base s2] by (simp add: append_assoc [symmetric] del: append_assoc)
qed simp

text \<open>A set with chains more, of nothing but a dummy.\<close>

definition same_chains :: "'x CatalogSet \<Rightarrow> 'x CatalogSet \<Rightarrow> bool" where
  "same_chains s s' \<longleftrightarrow> (\<forall>n. version_chain s' n = version_chain s n \<or>
     version_chain s n = None \<and> (\<exists>d. version_chain s' n = Some [d] \<and> deleted d \<and> timestamp d = 0))"

lemma rollback_undoes_push:
  assumes p: "pushed e base s s2" and same: "same_chains s2 s2'" and inv: "set_inv s2'"
  shows "set_inv (rollbackCatalogEntryRecord (entryAddr (hd base)) s2')"
    "same_chains s (rollbackCatalogEntryRecord (entryAddr (hd base)) s2')"
proof -
  obtain y older where base: "base = y # older" using p by (cases base) (auto simp: pushed_def)
  have "version_chain s2 (entryName e) = Some (e # y # older)" using p by (simp add: pushed_def base)
  then have c: "version_chain s2' (entryName e) = Some (e # y # older)"
    using same unfolding same_chains_def by (metis option.distinct(1))
  note pops = rollback_pops [OF inv c]
  show "set_inv (rollbackCatalogEntryRecord (entryAddr (hd base)) s2')" using pops(1) by (simp add: base)
  show "same_chains s (rollbackCatalogEntryRecord (entryAddr (hd base)) s2')"
    unfolding same_chains_def
  proof
    fix n
    show "version_chain (rollbackCatalogEntryRecord (entryAddr (hd base)) s2') n = version_chain s n \<or>
      version_chain s n = None \<and> (\<exists>d. version_chain (rollbackCatalogEntryRecord (entryAddr (hd base)) s2') n = Some [d] \<and>
        deleted d \<and> timestamp d = 0)"
    proof (cases "caseInsensitiveEquals (entryName e) n")
      case True
      then have "version_chain s n = version_chain s (entryName e)" using ci_at_cong [OF True] by metis
      with True p show ?thesis by (auto simp: base pops(3) pushed_def)
    next
      case False
      then have "version_chain s2 n = version_chain s n" using p by (simp add: pushed_def)
      moreover have "version_chain s2' n = version_chain s2 n \<or>
          version_chain s2 n = None \<and> (\<exists>d. version_chain s2' n = Some [d] \<and> deleted d \<and> timestamp d = 0)"
        using same unfolding same_chains_def by blast
      ultimately show ?thesis using False by (simp add: base pops(3))
    qed
  qed
qed

lemma rollback_writes:
  assumes "catalog_writes i s recs s1" "same_chains s1 s1'" "set_inv s1'"
  shows "same_chains s (fold rollbackCatalogEntryRecord (rev recs) s1')"
  using assms
proof (induction arbitrary: s1' rule: catalog_writes.induct)
  case (push s recs s1 e base s2)
  from rollback_undoes_push [OF push.hyps(3) push.prems] push.IH show ?case by simp
qed simp

section \<open>Committing the writes\<close>

text \<open>A version is the transaction's own exactly when the address of the version below it was recorded.\<close>

definition recorded :: "transaction_t \<Rightarrow> nat list \<Rightarrow> 'x CatalogSet \<Rightarrow> bool" where
  "recorded i recs s \<longleftrightarrow> (\<forall>n c j. version_chain s n = Some c \<longrightarrow> j < length c \<longrightarrow>
     (timestamp (c ! j) = i \<longleftrightarrow> Suc j < length c \<and> entryAddr (c ! Suc j) \<in> set recs))"

lemma recordedD:
  "recorded i recs s \<Longrightarrow> version_chain s n = Some c \<Longrightarrow> j < length c \<Longrightarrow>
     timestamp (c ! j) = i \<longleftrightarrow> Suc j < length c \<and> entryAddr (c ! Suc j) \<in> set recs"
  by (simp add: recorded_def)

lemma recorded_push:
  assumes rec: "recorded i recs s" and e: "timestamp e = i" "i \<noteq> 0" and p: "pushed e base s s'"
  shows "recorded i (recs @ [entryAddr (hd base)]) s'"
  unfolding recorded_def
proof (intro allI impI)
  fix n c j assume c: "version_chain s' n = Some c" "j < length c"
  have inv: "set_inv s'" and "base \<noteq> []" using p by (simp_all add: pushed_def)
  then obtain y older where base: "base = y # older" by (cases base) auto
  have top: "version_chain s' (entryName e) = Some (e # base)" using p by (simp add: pushed_def)
  show "timestamp (c ! j) = i \<longleftrightarrow> Suc j < length c \<and> entryAddr (c ! Suc j) \<in> set (recs @ [entryAddr (hd base)])"
  proof (cases "caseInsensitiveEquals (entryName e) n")
    case True
    then have c': "c = e # base" using c(1) p by (simp add: pushed_def)
    show ?thesis
    proof (cases j)
      case (Suc k)
      have "distinct (map entryAddr (e # base))" using set_inv_chain [OF inv top] by (simp add: chain_ok_def)
      then have not_hd: "entryAddr (base ! Suc k) \<noteq> entryAddr (hd base)" if "Suc k < length base"
        using that by (auto simp: base) (metis image_eqI nth_mem Suc_less_SucD length_Cons)
      have "timestamp (base ! k) = i \<longleftrightarrow> Suc k < length base \<and> entryAddr (base ! Suc k) \<in> set recs"
      proof (cases "version_chain s (entryName e)")
        case None
        then obtain d where "base = [d]" "timestamp d = 0" using p by (auto simp: pushed_def)
        with e(2) c(2) show ?thesis by (simp add: c' Suc)
      next
        case (Some b)
        then have "version_chain s (entryName e) = Some base" using p by (auto simp: pushed_def)
        from recordedD [OF rec this, of k] c(2) show ?thesis by (simp add: c' Suc)
      qed
      with not_hd show ?thesis by (auto simp: c' Suc)
    qed (simp add: c' e(1) base)
  next
    case False
    then have s: "version_chain s n = Some c" using c(1) p by (simp add: pushed_def)
    have "entryAddr (c ! Suc j) \<noteq> entryAddr (hd base)" if "Suc j < length c"
      using set_inv_disjoint [OF inv top c(1), of "hd base" "c ! Suc j"] False that by (auto simp: base)
    with recordedD [OF rec s c(2)] show ?thesis by auto
  qed
qed

lemma recorded_writes:
  assumes "catalog_writes i s recs s'" "recorded i [] s" "i \<noteq> 0"
  shows "recorded i recs s'"
  using assms by (induction rule: catalog_writes.induct) (auto intro: recorded_push)

lemma length_stamp_next [simp]: "length (stamp_next ts a c) = length c"
  by (induction ts a c rule: stamp_next.induct) auto

lemma addr_stamp_next [simp]: "map entryAddr (stamp_next ts a c) = map entryAddr c"
  by (induction ts a c rule: stamp_next.induct) auto

lemma stamp_next_absent: "a \<notin> entryAddr ` set c \<Longrightarrow> stamp_next ts a c = c"
  by (induction ts a c rule: stamp_next.induct) auto

lemma nth_stamp_next:
  assumes "distinct (map entryAddr c)" "j < length c"
  shows "stamp_next ts a c ! j =
    (if Suc j < length c \<and> entryAddr (c ! Suc j) = a then (c ! j)\<lparr>timestamp := ts\<rparr> else c ! j)"
  using assms
proof (induction ts a c arbitrary: j rule: stamp_next.induct)
  case (1 ts a x y c)
  show ?case
  proof (cases "entryAddr y = a")
    case True
    have "entryAddr ((y # c) ! j) \<noteq> a" if "0 < j" "j < length (y # c)"
      using that 1(2) True by (cases j) (auto simp: image_iff, metis nth_mem)
    with True show ?thesis by (cases j) auto
  next
    case False
    with 1 show ?thesis by (cases j) auto
  qed
qed auto

definition stamp :: "transaction_t \<Rightarrow> transaction_t \<Rightarrow> 'x CatalogEntry \<Rightarrow> 'x CatalogEntry" where
  "stamp i ts e = (if timestamp e = i then e\<lparr>timestamp := ts\<rparr> else e)"

lemma fold_stamp_next:
  assumes "distinct (map entryAddr c)"
  shows "map entryAddr (fold (stamp_next ts) recs c) = map entryAddr c \<and> (\<forall>j<length c. fold (stamp_next ts) recs c ! j =
    (if Suc j < length c \<and> entryAddr (c ! Suc j) \<in> set recs then (c ! j)\<lparr>timestamp := ts\<rparr> else c ! j))"
  using assms
proof (induction recs arbitrary: c)
  case (Cons a recs)
  let ?c = "stamp_next ts a c"
  have d: "distinct (map entryAddr ?c)" using Cons.prems by simp
  have addr: "entryAddr (?c ! k) = entryAddr (c ! k)" if "k < length c" for k
    using that nth_map [of k ?c entryAddr] nth_map [of k c entryAddr] by simp
  from Cons.IH [OF d] show ?case
    by (auto simp: addr nth_stamp_next [OF Cons.prems])
qed simp

lemma commit_writes:
  assumes inv: "set_inv s" and rec: "recorded i recs s"
  shows "version_chain (fold (commitCatalogEntryRecord ts) recs s) n = map_option (map (stamp i ts)) (version_chain s n)"
proof -
  have fold: "version_chain (fold (commitCatalogEntryRecord ts) recs s) n = map_option (fold (stamp_next ts) recs) (version_chain s n)" for recs
  proof (induction recs arbitrary: s)
    case (Cons a recs)
    then show ?case
      by (simp add: commitCatalogEntryRecord_def ci_at_map_values option.map_comp comp_def)
  qed (simp add: option.map_id)
  have "fold (stamp_next ts) recs c = map (stamp i ts) c" if c: "version_chain s n = Some c" for c
  proof (rule nth_equalityI)
    have d: "distinct (map entryAddr c)" using set_inv_chain [OF inv c] by (simp add: chain_ok_def)
    from fold_stamp_next [OF d, of ts recs] show len: "length (fold (stamp_next ts) recs c) = length (map (stamp i ts) c)"
      by (metis length_map)
    fix j assume "j < length (fold (stamp_next ts) recs c)"
    with len have "j < length c" by simp
    with fold_stamp_next [OF d, of ts recs] recordedD [OF rec c]
    show "fold (stamp_next ts) recs c ! j = map (stamp i ts) c ! j" by (simp add: stamp_def)
  qed
  then show ?thesis by (cases "version_chain s n") (simp_all add: fold)
qed

section \<open>Views\<close>

text \<open>
  What a transaction with a start timestamp and an identifier sees under a name: the newest visible
  version, nothing where it is deleted. The timestamp is not part of it.
\<close>

definition catalog_view :: "transaction_t \<Rightarrow> transaction_t \<Rightarrow> 'x CatalogSet \<Rightarrow> string \<Rightarrow> 'x CatalogEntry option" where
  "catalog_view ts i s n = Option.bind (version_chain s n) (\<lambda>c.
     Option.bind (List.find (\<lambda>e. visible ts i (timestamp e)) c) (\<lambda>e.
       if deleted e then None else Some (e\<lparr>timestamp := 0\<rparr>)))"

lemma view_same_chains:
  assumes "same_chains s s'"
  shows "catalog_view ts i s' n = catalog_view ts i s n"
proof -
  have "version_chain s' n = version_chain s n \<or> version_chain s n = None \<and> (\<exists>d. version_chain s' n = Some [d] \<and> deleted d \<and> timestamp d = 0)"
    using assms unfolding same_chains_def by blast
  then show ?thesis by (auto simp: catalog_view_def)
qed

lemma view_push_hidden:
  assumes "pushed e base s s'" "\<not> visible ts i (timestamp e)"
  shows "catalog_view ts i s' n = catalog_view ts i s n"
proof (cases "caseInsensitiveEquals (entryName e) n")
  case True
  then have "version_chain s n = version_chain s (entryName e)" using ci_at_cong [OF True] by metis
  with True assms show ?thesis by (auto simp: pushed_def catalog_view_def)
next
  case False
  with assms(1) show ?thesis by (simp add: pushed_def catalog_view_def)
qed

lemma view_writes_hidden:
  assumes "catalog_writes j s recs s'" "\<not> visible ts i j"
  shows "catalog_view ts i s' n = catalog_view ts i s n"
  using assms by (induction rule: catalog_writes.induct) (simp_all add: view_push_hidden)

lemma view_commit_older:
  assumes "set_inv s" "recorded j recs s" "\<not> visible ts i j" "\<not> visible ts i c"
  shows "catalog_view ts i (fold (commitCatalogEntryRecord c) recs s) n = catalog_view ts i s n"
proof -
  have find: "List.find (\<lambda>e. visible ts i (timestamp e)) (map (stamp j c) es) = List.find (\<lambda>e. visible ts i (timestamp e)) es" for es
    using assms(3,4) by (induction es) (auto simp: stamp_def)
  show ?thesis by (cases "version_chain s n") (simp_all add: catalog_view_def commit_writes [OF assms(1,2)] find)
qed

text \<open>The newest version of every name is visible to the writer, its own or one that was committed before it began.\<close>

definition heads_visible :: "transaction_t \<Rightarrow> transaction_t \<Rightarrow> 'x CatalogSet \<Rightarrow> bool" where
  "heads_visible ts i s \<longleftrightarrow> (\<forall>n c. version_chain s n = Some c \<longrightarrow> visible ts i (timestamp (hd c)))"

lemma heads_visible_push: "heads_visible ts i s \<Longrightarrow> pushed e base s s' \<Longrightarrow> timestamp e = i \<Longrightarrow> heads_visible ts i s'"
  by (auto simp: heads_visible_def pushed_def)

lemma heads_visible_writes: "catalog_writes i s recs s' \<Longrightarrow> heads_visible ts i s \<Longrightarrow> heads_visible ts i s'"
  by (induction rule: catalog_writes.induct) (auto intro: heads_visible_push)

lemma view_commit_later:
  assumes inv: "set_inv s" and "recorded j recs s" "heads_visible ts j s" and c: "ts \<le> c" "c \<le> ts'"
  shows "catalog_view ts' i' (fold (commitCatalogEntryRecord c) recs s) n = catalog_view ts j s n"
proof (cases "version_chain s n")
  case (Some ch)
  then obtain e rest where ch: "ch = e # rest" using set_inv_chain [OF inv Some] by (cases ch) (auto simp: chain_ok_def)
  have "visible ts j (timestamp e)" using assms(3) Some ch by (fastforce simp: heads_visible_def)
  moreover from this have "visible ts' i' (timestamp (stamp j c e))" using c by (auto simp: visible_def stamp_def)
  ultimately show ?thesis
    by (simp add: catalog_view_def commit_writes [OF assms(1,2)] Some ch) (simp add: stamp_def)
qed (simp add: catalog_view_def commit_writes [OF assms(1,2)])

section \<open>The operations of a session\<close>

lemma push_frame:
  "pushCreateDropCatalogEntry ps a e new internal skip t = (r, t') \<Longrightarrow>
     txnID t' = txnID t \<and> txnStartTS t' = txnStartTS t \<and> txnType t' = txnType t"
  by (auto simp: pushCreateDropCatalogEntry_def Let_def log_record_def split: if_splits sum.splits option.splits)

lemma push_alter_frame [simp]:
  "txnID (pushAlterCatalogEntry ps a e info t) = txnID t"
  "txnStartTS (pushAlterCatalogEntry ps a e info t) = txnStartTS t"
  "txnType (pushAlterCatalogEntry ps a e info t) = txnType t"
  by (simp_all add: pushAlterCatalogEntry_def Let_def log_record_def)

abbreviation entry_record :: "nat \<Rightarrow> nat \<Rightarrow> undo_entry" where
  "entry_record sa a \<equiv> (CATALOG_ENTRY, CatalogEntryRecord sa a)"

lemma push_undo:
  assumes "undo_inv (undoBuffer t) es" "0 < ps"
  shows "pushCreateDropCatalogEntry ps a e new internal skip t = (r, t') \<Longrightarrow> undo_inv (undoBuffer t') (es @ [entry_record a (entryAddr e)])"
    and "undo_inv (undoBuffer (pushAlterCatalogEntry ps a e info t)) (es @ [entry_record a (entryAddr e)])"
proof -
  obtain ub where "create_record ps CATALOG_ENTRY (CatalogEntryRecord a (entryAddr e)) (undoBuffer t) = Some ub"
    "undo_inv ub (es @ [entry_record a (entryAddr e)])"
    using create_record_appends [OF assms] by blast
  then show "pushCreateDropCatalogEntry ps a e new internal skip t = (r, t') \<Longrightarrow> undo_inv (undoBuffer t') (es @ [entry_record a (entryAddr e)])"
    and "undo_inv (undoBuffer (pushAlterCatalogEntry ps a e info t)) (es @ [entry_record a (entryAddr e)])"
    by (auto simp: pushCreateDropCatalogEntry_def pushAlterCatalogEntry_def Let_def createCatalogEntry_def log_record_def
        split: if_splits sum.splits option.splits)
qed

text \<open>What a successful operation has done: pushed versions on the chains, and one record for each to the undo buffer.\<close>

definition wrote :: "nat \<Rightarrow> ('x, 'v) ActiveTransaction \<times> 'x CatalogSet \<Rightarrow> ('x, 'v) ActiveTransaction \<times> 'x CatalogSet \<Rightarrow> bool" where
  "wrote ps = (\<lambda>(t, s) (t', s'). txnID t' = txnID t \<and> txnStartTS t' = txnStartTS t \<and> txnType t' = txnType t \<and>
     (\<forall>es. undo_inv (undoBuffer t) es \<longrightarrow>
        (\<exists>recs. catalog_writes (txnID t) s recs s' \<and> undo_inv (undoBuffer t') (es @ map (entry_record (setAddr s)) recs))))"

lemma pushed_bump: "pushed e base (s\<lparr>nextOID := oid, nextAddr := a\<rparr>) s' \<longleftrightarrow> pushed e base s s'"
  by (simp add: pushed_def)

lemma writes_one: "pushed e base s s' \<Longrightarrow> timestamp e = i \<Longrightarrow> catalog_writes i s [entryAddr (hd base)] s'"
  using catalog_writes.push [OF catalog_writes.none, of e i base s s'] by simp

lemma createEntry_wrote:
  assumes inv: "set_inv s" and append: "shouldAppendToUndoBuffer t" and "0 < ps"
    and res: "createEntry ps e (t, s) = (Inr oid, t', s')"
  shows "wrote ps (t, s) (t', s')" "\<exists>base. pushed (e\<lparr>entryOID := oid, entryAddr := nextAddr s, timestamp := txnID t\<rparr>) base s s'"
proof -
  let ?e = "e\<lparr>entryOID := nextOID s, entryAddr := nextAddr s\<rparr>"
  let ?s = "s\<lparr>nextOID := nextOID s + 1, nextAddr := nextAddr s + 1\<rparr>"
  from res append obtain prev new where c: "createEntryNoLock t ?e ?s = Inr ((prev, new), s')"
    and p: "pushCreateDropCatalogEntry ps (setAddr s') prev new (isInternal s') False t = (None, t')" and oid: "oid = nextOID s"
    by (auto simp: createEntry_def Let_def split: sum.splits prod.splits option.splits)
  have "fresh_addr (entryAddr ?e) ?s" using fresh_next(2) [OF inv] by simp
  note cp = create_pushed [OF set_inv_bump(2) [OF inv] this c]
  then obtain base where b: "pushed new base s s'" "prev = hd base" by (auto simp: pushed_bump)
  have new: "new = e\<lparr>entryOID := oid, entryAddr := nextAddr s, timestamp := txnID t\<rparr>" using cp(1) oid by simp
  with b(1) show "\<exists>base. pushed (e\<lparr>entryOID := oid, entryAddr := nextAddr s, timestamp := txnID t\<rparr>) base s s'" by blast
  have a: "setAddr s' = setAddr s" using b(1) by (simp add: pushed_def)
  show "wrote ps (t, s) (t', s')"
    using push_frame [OF p] push_undo(1) [OF _ assms(3) p] writes_one [OF b(1), of "txnID t"] new
    by (fastforce simp: wrote_def a b(2))
qed

lemma dropEntry_wrote:
  assumes inv: "set_inv s" and append: "shouldAppendToUndoBuffer t" and "0 < ps"
    and res: "dropEntry ps name oid (t, s) = (Inr (), t', s')"
  shows "wrote ps (t, s) (t', s')"
    "\<exists>base. pushed ((DummyCatalogEntry (nextAddr s) name oid)\<lparr>timestamp := txnID t\<rparr>) base s s'"
proof -
  from res append obtain prev new where c: "dropEntryNoLock t name oid s = Inr ((prev, new), s')"
    and p: "pushCreateDropCatalogEntry ps (setAddr s') prev new (isInternal s') False t = (None, t')"
    by (auto simp: dropEntry_def split: sum.splits prod.splits option.splits)
  note dp = drop_pushed [OF inv c]
  then obtain base where b: "pushed new base s s'" "prev = hd base" by auto
  with dp(1) show "\<exists>base. pushed ((DummyCatalogEntry (nextAddr s) name oid)\<lparr>timestamp := txnID t\<rparr>) base s s'" by blast
  have a: "setAddr s' = setAddr s" using b(1) by (simp add: pushed_def)
  show "wrote ps (t, s) (t', s')"
    using push_frame [OF p] push_undo(1) [OF _ assms(3) p] writes_one [OF b(1), of "txnID t"] dp(1)
    by (fastforce simp: wrote_def a b(2))
qed

lemma getEntry_head:
  assumes "version_chain s n = Some (e # c)" "visible (txnStartTS t) (txnID t) (timestamp e)"
  shows "getEntryNoLock t n s = (if deleted e then Inl (CatalogException ''does not exist in catalog.'') else Inr e)"
  using assms by (simp add: getEntryNoLock_def validateExistNoLock_def containsEntryNoLock_def traverseVersionChains_def visible_def)

lemma getEntry_visible:
  assumes "set_inv s" "heads_visible (txnStartTS t) (txnID t) s" "getEntryNoLock t n s = Inr e"
  shows "\<exists>c. version_chain s n = Some (e # c)" "\<not> deleted e"
proof -
  obtain ch where ch: "version_chain s n = Some ch"
    using assms(3) by (auto simp: getEntryNoLock_def validateExistNoLock_def containsEntryNoLock_def split: option.splits)
  then obtain f c where f: "ch = f # c" using set_inv_chain [OF assms(1) ch] by (cases ch) (auto simp: chain_ok_def)
  have "visible (txnStartTS t) (txnID t) (timestamp f)" using assms(2) ch f by (fastforce simp: heads_visible_def)
  from getEntry_head [OF ch [unfolded f] this] assms(3) ch f show "\<exists>c. version_chain s n = Some (e # c)" "\<not> deleted e"
    by (auto split: if_splits)
qed

lemma alter_entry:
  assumes "TableCatalogEntry_alter a i info oid e = Some (new, oid')"
  shows "entryAddr new = a" "timestamp new = i" "deleted new = deleted e"
    "entryName new = (case info of RenameTableInfo n \<Rightarrow> n | _ \<Rightarrow> entryName e)"
  using assms by (auto simp: TableCatalogEntry_alter_def Let_def split: BoundExtraAlterInfo.splits)

text \<open>An alteration in place pushes one version, a rename a tombstone and a version under the new name.\<close>

lemma alter_in_place:
  assumes inv: "set_inv s" and e: "version_chain s name = Some (e # c)"
    and new: "entryName new = entryName e" "entryAddr new = nextAddr s"
  shows "pushed new (e # c) s (emplaceNoLock [new] (s\<lparr>nextOID := oid, nextAddr := nextAddr s + 1\<rparr>))"
proof -
  have "caseInsensitiveEquals name (entryName e)" using set_inv_chain [OF inv e] by (simp add: chain_ok_def)
  then have "version_chain s (entryName new) = Some (e # c)" using ci_at_cong e new(1) by metis
  then have "pushed new (e # c) (s\<lparr>nextOID := oid, nextAddr := nextAddr s + 1\<rparr>)
      (emplaceNoLock [new] (s\<lparr>nextOID := oid, nextAddr := nextAddr s + 1\<rparr>))"
    using set_inv_bump(2) [OF inv, of oid] fresh_next(2) [OF inv, of oid] by (intro emplace_pushed) (simp_all add: new(2))
  then show ?thesis by (simp only: pushed_bump)
qed

lemma rename_pushes:
  assumes inv: "set_inv s" and e: "version_chain s name = Some (e # c)" and addr: "entryAddr new = nextAddr s"
    and drop: "dropEntryNoLock t name oid (s\<lparr>nextOID := oid', nextAddr := nextAddr s + 1\<rparr>) = Inr (r, s2)"
    and create: "createEntryNoLock t new s2 = Inr ((prev, new'), s3)"
  shows "\<exists>base tombstone. pushed tombstone (e # c) s s2 \<and> timestamp tombstone = txnID t \<and> entryName tombstone = name \<and>
    deleted tombstone \<and> pushed new' base s2 s3 \<and> new' = new\<lparr>timestamp := txnID t\<rparr> \<and> prev = hd base"
proof -
  let ?s = "s\<lparr>nextOID := oid', nextAddr := nextAddr s + 1\<rparr>"
  obtain pr tomb where r: "r = (pr, tomb)" by fastforce
  note dp = drop_pushed [OF set_inv_bump(2) [OF inv] drop [unfolded r]]
  then have d: "pushed tomb (e # c) s s2" using e by (simp add: pushed_bump)
  have next2: "nextAddr s2 = nextAddr s + 2"
    using drop by (auto simp: dropEntryNoLock_def Let_def split: option.splits)
  have "nextAddr s \<notin> entryAddr ` set ch" if "version_chain s2 n = Some ch" for n ch
  proof (cases "caseInsensitiveEquals (entryName tomb) n")
    case True
    with that d have "ch = tomb # e # c" by (simp add: pushed_def)
    moreover have "entryAddr tomb \<noteq> nextAddr s" using dp(1) by (simp add: DummyCatalogEntry_def)
    ultimately show ?thesis using set_inv_chain [OF inv e] by (auto simp: chain_ok_def)
  next
    case False
    with that d have "version_chain s n = Some ch" by (simp add: pushed_def)
    from set_inv_chain [OF inv this] show ?thesis by (auto simp: chain_ok_def)
  qed
  then have "fresh_addr (entryAddr new) s2" by (auto simp: fresh_addr_def next2 addr)
  from create_pushed [OF _ this create] d obtain base where "pushed new' base s2 s3" "new' = new\<lparr>timestamp := txnID t\<rparr>" "prev = hd base"
    by (auto simp: pushed_def)
  moreover have "timestamp tomb = txnID t" "entryName tomb = name" "deleted tomb" by (simp_all add: dp(1) DummyCatalogEntry_def)
  ultimately show ?thesis using d by blast
qed

lemma alter_cases:
  assumes inv: "set_inv s" and heads: "heads_visible (txnStartTS t) (txnID t) s" and append: "shouldAppendToUndoBuffer t"
    and res: "alterTableEntry ps info (t, s) = (Inr (), t', s')"
  obtains (in_place) e c new oid where "version_chain s (alterTableName info) = Some (e # c)" "\<not> deleted e"
      "TableCatalogEntry_alter (nextAddr s) (txnID t) (extraInfo info) (nextOID s) e = Some (new, oid)"
      "pushed new (e # c) s s'" "t' = pushAlterCatalogEntry ps (setAddr s) e info t" "entryName new = entryName e"
  | (rename) e c new oid newName s2 tombstone base where "version_chain s (alterTableName info) = Some (e # c)" "\<not> deleted e"
      "TableCatalogEntry_alter (nextAddr s) (txnID t) (extraInfo info) (nextOID s) e = Some (new, oid)"
      "extraInfo info = RenameTableInfo newName" "entryName new = newName"
      "pushed tombstone (e # c) s s2" "timestamp tombstone = txnID t" "entryName tombstone = alterTableName info" "deleted tombstone"
      "pushed new base s2 s'"
      "pushCreateDropCatalogEntry ps (setAddr s) (hd base) new (isInternal s') True
         (pushAlterCatalogEntry ps (setAddr s) e info t) = (None, t')"
proof -
  from res obtain e where e: "getEntryNoLock t (alterTableName info) s = Inr e"
    by (auto simp: alterTableEntry_def split: sum.splits)
  from getEntry_visible [OF inv heads e] obtain c where c: "version_chain s (alterTableName info) = Some (e # c)" "\<not> deleted e" by blast
  from res e obtain new oid where n: "TableCatalogEntry_alter (nextAddr s) (txnID t) (extraInfo info) (nextOID s) e = Some (new, oid)"
    by (auto simp: alterTableEntry_def split: option.splits)
  note ae = alter_entry [OF n]
  let ?s = "s\<lparr>nextOID := oid, nextAddr := nextAddr s + 1\<rparr>"
  show thesis
  proof (cases "\<exists>newName. extraInfo info = RenameTableInfo newName")
    case True
    then obtain newName where nn: "extraInfo info = RenameTableInfo newName" by blast
    with res e n append obtain r s2 prev new' where d: "dropEntryNoLock t (alterTableName info) (entryOID e) ?s = Inr (r, s2)"
      and cr: "createEntryNoLock t new s2 = Inr ((prev, new'), s')"
      and p: "pushCreateDropCatalogEntry ps (setAddr s') prev new' (isInternal s') True
          (pushAlterCatalogEntry ps (setAddr s') e info t) = (None, t')"
      by (auto simp: alterTableEntry_def Let_def split: sum.splits prod.splits option.splits)
    from rename_pushes [OF inv c(1) ae(1) d cr] obtain base tomb
      where b: "pushed tomb (e # c) s s2" "timestamp tomb = txnID t" "entryName tomb = alterTableName info" "deleted tomb"
        "pushed new' base s2 s'" "new' = new\<lparr>timestamp := txnID t\<rparr>" "prev = hd base" by blast
    have "new' = new" using b(6) ae(2) by simp
    moreover have "setAddr s' = setAddr s" using b(1,5) by (simp add: pushed_def)
    ultimately show thesis using rename [OF c n nn _ b(1-4)] b(5,7) p ae(4) nn by simp
  next
    case False
    with res e n append have "s' = emplaceNoLock [new] ?s" "t' = pushAlterCatalogEntry ps (setAddr s) e info t"
      by (auto simp: alterTableEntry_def Let_def split: BoundExtraAlterInfo.splits)
    moreover have "entryName new = entryName e" using ae(4) False by (auto split: BoundExtraAlterInfo.splits)
    ultimately show thesis using in_place [OF c n] alter_in_place [OF inv c(1)] ae(1) by simp
  qed
qed

lemma alter_wrote:
  assumes "set_inv s" "heads_visible (txnStartTS t) (txnID t) s" "shouldAppendToUndoBuffer t" "0 < ps"
    and res: "alterTableEntry ps info (t, s) = (Inr (), t', s')"
  shows "wrote ps (t, s) (t', s')"
  using assms(1-3) res
proof (cases rule: alter_cases)
  case (in_place e c new oid)
  show ?thesis
    using writes_one [OF in_place(4) alter_entry(2) [OF in_place(3)]] push_undo(2) [OF _ assms(4)]
    by (fastforce simp: wrote_def in_place(5))
next
  case (rename e c new oid newName s2 tomb base)
  have w: "catalog_writes (txnID t) s ([entryAddr e] @ [entryAddr (hd base)]) s'"
    using catalog_writes.push [OF writes_one [OF rename(6,7)] alter_entry(2) [OF rename(3)] rename(10)] by simp
  have "undo_inv (undoBuffer t') ((es @ [entry_record (setAddr s) (entryAddr e)]) @ [entry_record (setAddr s) (entryAddr (hd base))])"
    if "undo_inv (undoBuffer t) es" for es
    by (rule push_undo(1) [OF push_undo(2) [OF that assms(4)] assms(4) rename(11)])
  with w push_frame [OF rename(11)] show ?thesis by (fastforce simp: wrote_def)
qed

section \<open>Sessions\<close>

text \<open>The successful catalog operations of a transaction, one after the other.\<close>

inductive catalog_session :: "nat \<Rightarrow> ('x, 'v) ActiveTransaction \<times> 'x CatalogSet \<Rightarrow> ('x, 'v) ActiveTransaction \<times> 'x CatalogSet \<Rightarrow> bool"
  for ps x where
  begins: "catalog_session ps x x"
| creates: "catalog_session ps x y \<Longrightarrow> createEntry ps e y = (Inr oid, z) \<Longrightarrow> catalog_session ps x z"
| drops: "catalog_session ps x y \<Longrightarrow> dropEntry ps name oid y = (Inr (), z) \<Longrightarrow> catalog_session ps x z"
| alters: "catalog_session ps x y \<Longrightarrow> alterTableEntry ps info y = (Inr (), z) \<Longrightarrow> catalog_session ps x z"

text \<open>The part of \<^verbatim>\<open>UndoBuffer::commit\<close> and \<^verbatim>\<open>rollback\<close> that concerns a catalog set.\<close>

definition catalog_commitRecord :: "transaction_t \<Rightarrow> undo_entry \<Rightarrow> 'x CatalogSet \<Rightarrow> exn option \<times> 'x CatalogSet" where
  "catalog_commitRecord commitTS u s =
     (case snd u of
        CatalogEntryRecord sa e \<Rightarrow> (None, if sa = setAddr s then commitCatalogEntryRecord commitTS e s else s)
      | _ \<Rightarrow> (None, s))"

definition catalog_rollbackRecord :: "undo_entry \<Rightarrow> 'x CatalogSet \<Rightarrow> exn option \<times> 'x CatalogSet" where
  "catalog_rollbackRecord u s =
     (case snd u of
        CatalogEntryRecord sa e \<Rightarrow> (None, if sa = setAddr s then rollbackCatalogEntryRecord e s else s)
      | _ \<Rightarrow> (None, s))"

definition commit_catalog :: "transaction_t \<Rightarrow> UndoMemoryBuffer list \<Rightarrow> 'x CatalogSet \<Rightarrow> (exn option \<times> 'x CatalogSet) option" where
  "commit_catalog commitTS ub s = iterate (catalog_commitRecord commitTS) ub s"

definition rollback_catalog :: "UndoMemoryBuffer list \<Rightarrow> 'x CatalogSet \<Rightarrow> (exn option \<times> 'x CatalogSet) option" where
  "rollback_catalog ub s = reverseIterate catalog_rollbackRecord ub s"

lemma setAddr_records [simp]:
  "setAddr (commitCatalogEntryRecord ts a s) = setAddr s" "setAddr (rollbackCatalogEntryRecord a s) = setAddr s"
  by (auto simp: commitCatalogEntryRecord_def rollbackCatalogEntryRecord_def eraseNoLock_def split: option.split list.split)

lemma for_records:
  "for_entries (catalog_commitRecord ts) (map (entry_record (setAddr s)) recs) s = (None, fold (commitCatalogEntryRecord ts) recs s)"
  "for_entries catalog_rollbackRecord (map (entry_record (setAddr s)) recs) s = (None, fold rollbackCatalogEntryRecord recs s)"
proof -
  show "for_entries (catalog_commitRecord ts) (map (entry_record (setAddr s)) recs) s = (None, fold (commitCatalogEntryRecord ts) recs s)"
  proof (induction recs arbitrary: s)
    case (Cons a recs)
    from Cons [of "commitCatalogEntryRecord ts a s"] show ?case by (simp add: catalog_commitRecord_def)
  qed simp
  show "for_entries catalog_rollbackRecord (map (entry_record (setAddr s)) recs) s = (None, fold rollbackCatalogEntryRecord recs s)"
  proof (induction recs arbitrary: s)
    case (Cons a recs)
    from Cons [of "rollbackCatalogEntryRecord a s"] show ?case by (simp add: catalog_rollbackRecord_def)
  qed simp
qed

text \<open>A transaction about to write, and the only one that does.\<close>

definition sole_writer :: "('x, 'v) ActiveTransaction \<Rightarrow> 'x CatalogSet \<Rightarrow> bool" where
  "sole_writer t s \<longleftrightarrow> shouldAppendToUndoBuffer t \<and> undoBuffer t = [] \<and> snapshot_ok (txnStartTS t) (txnID t) \<and>
     set_inv s \<and> (\<forall>n c e. version_chain s n = Some c \<longrightarrow> e \<in> set c \<longrightarrow> timestamp e \<le> txnStartTS t)"

lemma sole_writerD:
  assumes "sole_writer t s"
  shows "shouldAppendToUndoBuffer t" "set_inv s" "heads_visible (txnStartTS t) (txnID t) s" "recorded (txnID t) [] s"
    "undo_inv (undoBuffer t) []" "txnID t \<noteq> 0"
proof -
  have inv: "set_inv s" and ts: "\<And>n c e. version_chain s n = Some c \<Longrightarrow> e \<in> set c \<Longrightarrow> timestamp e \<le> txnStartTS t"
    and snap: "snapshot_ok (txnStartTS t) (txnID t)" using assms unfolding sole_writer_def by blast+
  then show "set_inv s" by blast
  show "shouldAppendToUndoBuffer t" "undo_inv (undoBuffer t) []" using assms undo_inv_Nil by (auto simp: sole_writer_def)
  show "txnID t \<noteq> 0" using snap by (auto simp: snapshot_ok_def)
  have "hd c \<in> set c" if "version_chain s n = Some c" for n c using set_inv_chain [OF inv that] by (simp add: chain_ok_def)
  with ts show "heads_visible (txnStartTS t) (txnID t) s" by (auto simp: heads_visible_def visible_def)
  have "timestamp e \<noteq> txnID t" if "version_chain s n = Some c" "e \<in> set c" for n c e
    using ts [OF that] snap by (auto simp: snapshot_ok_def)
  then show "recorded (txnID t) [] s" by (auto simp: recorded_def)
qed

lemma wroteD:
  assumes "wrote ps (t, s) (t', s')"
  shows "txnID t' = txnID t" "txnStartTS t' = txnStartTS t" "txnType t' = txnType t"
    "undo_inv (undoBuffer t) es \<Longrightarrow> \<exists>recs. catalog_writes (txnID t) s recs s' \<and>
       undo_inv (undoBuffer t') (es @ map (entry_record (setAddr s)) recs)"
  using assms unfolding wrote_def by blast+

lemma wrote_refl: "wrote ps x x"
proof -
  obtain t s where x: "x = (t, s)" by fastforce
  have "\<exists>recs. catalog_writes (txnID t) s recs s \<and> undo_inv (undoBuffer t) (es @ map (entry_record (setAddr s)) recs)"
    if "undo_inv (undoBuffer t) es" for es
    using catalog_writes.none that by (intro exI [of _ "[]"]) simp
  then show ?thesis by (simp add: wrote_def x)
qed

lemma wrote_trans:
  assumes w1: "wrote ps (t, s) (t1, s1)" and w2: "wrote ps (t1, s1) (t2, s2)" and a: "setAddr s1 = setAddr s"
  shows "wrote ps (t, s) (t2, s2)"
  unfolding wrote_def prod.case
proof (intro conjI allI impI)
  fix es assume "undo_inv (undoBuffer t) es"
  from wroteD(4) [OF w1 this] obtain r1 where r1: "catalog_writes (txnID t) s r1 s1"
    "undo_inv (undoBuffer t1) (es @ map (entry_record (setAddr s)) r1)" by blast
  from wroteD(4) [OF w2 r1(2)] obtain r2 where r2: "catalog_writes (txnID t) s1 r2 s2"
    "undo_inv (undoBuffer t2) ((es @ map (entry_record (setAddr s)) r1) @ map (entry_record (setAddr s)) r2)"
    unfolding wroteD(1) [OF w1] a by blast
  from catalog_writes_trans [OF r2(1) r1(1)] r2(2)
  show "\<exists>recs. catalog_writes (txnID t) s recs s2 \<and> undo_inv (undoBuffer t2) (es @ map (entry_record (setAddr s)) recs)"
    by (intro exI [of _ "r1 @ r2"]) simp
qed (use wroteD(1-3) [OF w1] wroteD(1-3) [OF w2] in simp_all)

definition session_ok :: "nat \<Rightarrow> ('x, 'v) ActiveTransaction \<times> 'x CatalogSet \<Rightarrow> ('x, 'v) ActiveTransaction \<times> 'x CatalogSet \<Rightarrow> bool" where
  "session_ok ps x y \<longleftrightarrow> wrote ps x y \<and> set_inv (snd y) \<and> heads_visible (txnStartTS (fst y)) (txnID (fst y)) (snd y) \<and>
     shouldAppendToUndoBuffer (fst y) \<and> (\<exists>es. undo_inv (undoBuffer (fst y)) es) \<and> setAddr (snd y) = setAddr (snd x)"

lemma session_step:
  assumes "session_ok ps x y" "wrote ps y z"
  shows "session_ok ps x z"
proof -
  obtain t s t1 s1 t2 s2 where eq: "x = (t, s)" "y = (t1, s1)" "z = (t2, s2)" by (metis surj_pair)
  note y = assms(1) [unfolded session_ok_def eq, simplified]
  note w = wroteD [OF assms(2) [unfolded eq]]
  from y obtain es where "undo_inv (undoBuffer t1) es" by blast
  from w(4) [OF this] obtain recs where r: "catalog_writes (txnID t1) s1 recs s2"
    "undo_inv (undoBuffer t2) (es @ map (entry_record (setAddr s1)) recs)" by blast
  have "wrote ps (t, s) (t2, s2)" using wrote_trans [of ps t s t1 s1 t2 s2] y assms(2) by (simp add: eq)
  with catalog_writes_inv [OF r(1)] heads_visible_writes [OF r(1)] r(2) y w(1-3) show ?thesis
    unfolding session_ok_def eq by (auto simp: shouldAppendToUndoBuffer_def)
qed

lemma session_wrote:
  assumes session: "catalog_session ps (t, s) y" and w: "sole_writer t s" "0 < ps"
  shows "session_ok ps (t, s) y"
  using session
proof (induction rule: catalog_session.induct)
  case begins
  with sole_writerD [OF w(1)] wrote_refl show ?case by (auto simp: session_ok_def)
next
  case (creates y e oid z)
  obtain t1 s1 t2 s2 where eq: "y = (t1, s1)" "z = (t2, s2)" by (metis surj_pair)
  have "wrote ps y z"
    using createEntry_wrote(1) [OF _ _ w(2), of s1 t1 e oid t2 s2] creates by (simp add: eq session_ok_def)
  with creates.IH show ?case by (rule session_step)
next
  case (drops y name oid z)
  obtain t1 s1 t2 s2 where eq: "y = (t1, s1)" "z = (t2, s2)" by (metis surj_pair)
  have "wrote ps y z"
    using dropEntry_wrote(1) [OF _ _ w(2), of s1 t1 name oid t2 s2] drops by (simp add: eq session_ok_def)
  with drops.IH show ?case by (rule session_step)
next
  case (alters y info z)
  obtain t1 s1 t2 s2 where eq: "y = (t1, s1)" "z = (t2, s2)" by (metis surj_pair)
  have "wrote ps y z"
    using alter_wrote [OF _ _ _ w(2), of s1 t1 info t2 s2] alters by (simp add: eq session_ok_def)
  with alters.IH show ?case by (rule session_step)
qed

lemma session_records:
  assumes "catalog_session ps (t, s) (t', s')" "sole_writer t s" "0 < ps"
  obtains recs where "catalog_writes (txnID t) s recs s'" "undo_inv (undoBuffer t') (map (entry_record (setAddr s')) recs)"
    "set_inv s'" "heads_visible (txnStartTS t) (txnID t) s'" "recorded (txnID t) recs s'"
proof -
  note w = sole_writerD [OF assms(2)]
  note ok = session_wrote [OF assms, unfolded session_ok_def, simplified]
  from ok have "wrote ps (t, s) (t', s')" by blast
  note wr = wroteD [OF this]
  from wr(4) [OF w(5)] obtain recs where r: "catalog_writes (txnID t) s recs s'"
    "undo_inv (undoBuffer t') ([] @ map (entry_record (setAddr s)) recs)" by blast
  show thesis
    by (rule that [OF r(1) _ _ _ recorded_writes [OF r(1) w(4,6)]]) (use ok r(2) wr(1,2) in simp_all)
qed

lemma other_version_unchanged:
  assumes "\<And>n. version_chain s' n = (if caseInsensitiveEquals name n then Some c else version_chain s n)"
    "txnID t' = txnID t" "txnStartTS t' = txnStartTS t" "\<not> caseInsensitiveEquals name n"
  shows "getEntryNoLock t' n s' = getEntryNoLock t n s"
  using assms by (simp add: getEntryNoLock_def validateExistNoLock_def containsEntryNoLock_def traverseVersionChains_def
      split: option.split)

lemma pushed_reads:
  assumes "pushed e base s s'" "timestamp e = txnID t" "txnID t' = txnID t" "txnStartTS t' = txnStartTS t"
  shows "caseInsensitiveEquals (entryName e) n \<Longrightarrow> getEntryNoLock t' n s' =
      (if deleted e then Inl (CatalogException ''does not exist in catalog.'') else Inr e)"
    and "\<not> caseInsensitiveEquals (entryName e) n \<Longrightarrow> getEntryNoLock t' n s' = getEntryNoLock t n s"
proof -
  have c: "version_chain s' n = (if caseInsensitiveEquals (entryName e) n then Some (e # base) else version_chain s n)" for n
    using assms(1) by (simp add: pushed_def)
  show "getEntryNoLock t' n s' = (if deleted e then Inl (CatalogException ''does not exist in catalog.'') else Inr e)"
    if "caseInsensitiveEquals (entryName e) n"
    by (rule getEntry_head) (use that assms c in simp_all)
  show "getEntryNoLock t' n s' = getEntryNoLock t n s" if "\<not> caseInsensitiveEquals (entryName e) n"
    by (rule other_version_unchanged [OF c assms(3,4) that])
qed

section \<open>A catalog with one table\<close>

definition sample_table :: "string \<Rightarrow> unit CatalogEntry" where
  "sample_table name = \<lparr>entryAddr = 0, entryType = NODE_TABLE_ENTRY, entryName = name, entryOID = 0, timestamp = 0,
     deleted = False, hasParent = False, entryBody = NodeTableBody [] (PropertyDefinitionCollection_new 0) ''id''\<rparr>"

definition sample_set :: "unit CatalogSet" where
  "sample_set = \<lparr>setAddr = 0, nextOID = 1, entries = [(''a'', [sample_table ''a''])], nextAddr = 1\<rparr>"

definition sample_writer :: "(unit, unit) ActiveTransaction" where
  "sample_writer = Transaction_new False WRITE (START_TRANSACTION_ID + 1) 5"

definition sample_created :: "(unit, unit) ActiveTransaction \<times> unit CatalogSet" where
  "sample_created = snd (createEntry 4096 (sample_table ''b'') (sample_writer, sample_set))"

lemma sample_sole_writer: "sole_writer sample_writer sample_set"
proof -
  have c: "version_chain sample_set n = (if caseInsensitiveEquals ''a'' n then Some [sample_table ''a''] else None)" for n
    by (simp add: sample_set_def)
  have "snapshot_ok 5 (START_TRANSACTION_ID + 1)" by code_simp
  moreover have "set_inv sample_set"
    unfolding set_inv_def c
    by (intro conjI allI impI)
      (auto simp: chain_ok_def sample_table_def sample_set_def ci_distinct_def caseInsensitiveEquals_iff split: if_splits)
  ultimately show ?thesis
    by (auto simp: sole_writer_def sample_writer_def Transaction_new_def shouldAppendToUndoBuffer_def c sample_table_def split: if_splits)
qed

lemma sample_session: "catalog_session 4096 (sample_writer, sample_set) (fst sample_created, snd sample_created)"
proof -
  have "fst (createEntry 4096 (sample_table ''b'') (sample_writer, sample_set)) = Inr 1" by code_simp
  then have "createEntry 4096 (sample_table ''b'') (sample_writer, sample_set) = (Inr 1, sample_created)"
    by (simp add: prod_eq_iff sample_created_def)
  from catalog_session.creates [OF catalog_session.begins this] show ?thesis by simp
qed

section \<open>Properties\<close>



text \<open>
  C5: the catalog changes of a transaction are atomic and isolated. Whatever it creates, drops and
  alters, no other transaction sees any of it before the commit. Committing its undo buffer
  returns, and then exactly the transactions that start at the commit or later see the catalog as the
  transaction itself left it, all others as it was before.
\<close>

theorem catalog_commit_publishes:
  assumes "sole_writer t s" "0 < ps" "catalog_session ps (t, s) (t', s')"
    and "txnStartTS t < commitTS" "commitTS < START_TRANSACTION_ID"
    and "snapshot_ok ts i" "i \<noteq> txnID t" "ts < commitTS" "commitTS \<le> later"
  shows "catalog_view ts i s' n = catalog_view ts i s n \<and>
    (\<exists>s''. commit_catalog commitTS (undoBuffer t') s' = Some (None, s'') \<and>
       catalog_view ts i s'' n = catalog_view ts i s n \<and>
       catalog_view later j s'' n = catalog_view (txnStartTS t) (txnID t) s' n)"
proof -
  from session_records [OF assms(3,1,2)] obtain recs where r: "catalog_writes (txnID t) s recs s'"
    "undo_inv (undoBuffer t') (map (entry_record (setAddr s')) recs)" "set_inv s'"
    "heads_visible (txnStartTS t) (txnID t) s'" "recorded (txnID t) recs s'" .
  have "START_TRANSACTION_ID \<le> txnID t" using assms(1) by (simp add: sole_writer_def snapshot_ok_def)
  then have hidden: "\<not> visible ts i (txnID t)" using assms(6,7) by (simp add: visible_other_uncommitted)
  have "\<not> visible ts i commitTS" using assms(5,6,8) by (simp add: visible_committed)
  note older = view_commit_older [OF r(3,5) hidden this]
  have "txnStartTS t \<le> commitTS" using assms(4) by simp
  note later = view_commit_later [OF r(3,5,4) this assms(9)]
  have "commit_catalog commitTS (undoBuffer t') s' = Some (None, fold (commitCatalogEntryRecord commitTS) recs s')"
    by (simp add: commit_catalog_def iterate_entries [OF r(2)] for_records)
  with view_writes_hidden [OF r(1) hidden] older later show ?thesis by simp
qed

theorem catalog_commit_publishes_witness:
  "\<exists>s. commit_catalog 7 (undoBuffer (fst sample_created)) (snd sample_created) = Some (None, s) \<and>
     catalog_view 6 (START_TRANSACTION_ID + 2) s ''b'' = catalog_view 6 (START_TRANSACTION_ID + 2) sample_set ''b'' \<and>
     catalog_view 8 (START_TRANSACTION_ID + 3) s ''b'' = catalog_view 5 (START_TRANSACTION_ID + 1) (snd sample_created) ''b''"
proof -
  have "txnStartTS sample_writer = 5" "txnID sample_writer = START_TRANSACTION_ID + 1" "(7::transaction_t) < START_TRANSACTION_ID"
    "snapshot_ok 6 (START_TRANSACTION_ID + 2)" "START_TRANSACTION_ID + 2 \<noteq> START_TRANSACTION_ID + 1" by code_simp+
  with catalog_commit_publishes [OF sample_sole_writer _ sample_session, of 7 6 "START_TRANSACTION_ID + 2" 8]
  show ?thesis by auto
qed

text \<open>
  C6: rolling the transaction back returns and restores what every transaction, itself included,
  saw in the catalog before it.
\<close>

theorem catalog_rollback_restores:
  assumes "sole_writer t s" "0 < ps" "catalog_session ps (t, s) (t', s')"
  shows "\<exists>s''. rollback_catalog (undoBuffer t') s' = Some (None, s'') \<and> catalog_view ts i s'' n = catalog_view ts i s n"
proof -
  from session_records [OF assms(3,1,2)] obtain recs where r: "catalog_writes (txnID t) s recs s'"
    "undo_inv (undoBuffer t') (map (entry_record (setAddr s')) recs)" "set_inv s'" .
  have "rollback_catalog (undoBuffer t') s' = Some (None, fold rollbackCatalogEntryRecord (rev recs) s')"
    using for_records(2) [of s' "rev recs"] by (simp add: rollback_catalog_def reverseIterate_entries [OF r(2)] rev_map)
  moreover have "same_chains s (fold rollbackCatalogEntryRecord (rev recs) s')"
    by (rule rollback_writes [OF r(1) _ r(3)]) (simp add: same_chains_def)
  ultimately show ?thesis by (simp add: view_same_chains)
qed

theorem catalog_rollback_restores_witness:
  "\<exists>s. rollback_catalog (undoBuffer (fst sample_created)) (snd sample_created) = Some (None, s) \<and>
     catalog_view 5 (START_TRANSACTION_ID + 1) s ''b'' = catalog_view 5 (START_TRANSACTION_ID + 1) sample_set ''b''"
  by (rule catalog_rollback_restores [OF sample_sole_writer _ sample_session]) simp

end
