(* ===== verification/Undo_Application.thy ===== *)
theory Undo_Application
  imports Node_Group Catalog_Versions
begin

text \<open>
  Committing and rolling back a whole undo buffer (\<^verbatim>\<open>storage/undo_buffer.cpp\<close>): every record is
  dispatched to the object it was written for, a catalog set, a sequence, the version information of
  rows through the handler of their table (\<^verbatim>\<open>node_table.cpp\<close>, \<^verbatim>\<open>rel_table_data.cpp\<close>), or the update
  information of a column. The objects are kept by their addresses. The primary key index of a node
  table is opaque: \<open>undo_pk\<close> stands for \<^verbatim>\<open>NodeTable::rollbackPKIndexInsert\<close>, which scans the rows of the
  table and changes nothing but the index.
\<close>

section \<open>The objects of the database\<close>

text \<open>
  The row data of a table: its node groups, each with its persistent chunked group where the table
  stores relationships (\<^verbatim>\<open>CSRNodeGroup\<close>), the number of rows of the collection, the index.
\<close>

record 'c TableGroup =
  rowGroup :: "'c NodeGroup"
  persistentChunkGroup :: "'c ChunkedNodeGroup option"

definition CSRNodeGroup_isEmpty :: "'c TableGroup \<Rightarrow> bool" where
  "CSRNodeGroup_isEmpty g \<longleftrightarrow> persistentChunkGroup g = None \<and> ngNumRows (rowGroup g) = 0"

record ('c, 'i) TableData =
  nodeGroups :: "'c TableGroup list"
  numTotalRows :: nat
  pkIndex :: 'i

datatype VersionRecordHandler =
  NodeTableVersionRecordHandler (handlerTable: nat)
| PersistentVersionRecordHandler (handlerTable: nat)
| InMemoryVersionRecordHandler (handlerTable: nat)

record ('c, 'i, 'x) Database =
  tables :: "nat \<Rightarrow> ('c, 'i) TableData"
  handlers :: "nat \<Rightarrow> VersionRecordHandler"
  catalogSets :: "nat \<Rightarrow> 'x CatalogSet"
  sequences :: "nat \<Rightarrow> SequenceData"
  catalogVersion :: "64 word"

definition update_table :: "nat \<Rightarrow> (('c, 'i) TableData \<Rightarrow> ('c, 'i) TableData) \<Rightarrow> ('c, 'i, 'x) Database \<Rightarrow>
    ('c, 'i, 'x) Database" where
  "update_table t f db = db\<lparr>tables := (tables db)(t := f (tables db t))\<rparr>"

definition update_group :: "nat \<Rightarrow> ('c NodeGroup \<Rightarrow> 'c NodeGroup) \<Rightarrow> ('c, 'i) TableData \<Rightarrow> ('c, 'i) TableData" where
  "update_group i f d = d\<lparr>nodeGroups := (nodeGroups d)[i := rowGroup_update f (nodeGroups d ! i)]\<rparr>"

section \<open>The handlers of version records\<close>

text \<open>
  \<^verbatim>\<open>NodeGroupCollection::rollbackInsert\<close> with its subtraction of unsigned numbers. The groups it removes are
  those whose \<^verbatim>\<open>getNumRows\<close> is zero, which does not count persistent rows.
\<close>

definition NodeGroupCollection_rollbackInsert :: "nat \<Rightarrow> bool \<Rightarrow> ('c, 'i) TableData \<Rightarrow> ('c, 'i) TableData" where
  "NodeGroupCollection_rollbackInsert numRows updateNumRows d =
     (let d = d\<lparr>nodeGroups := removeTrailingGroups
            (getNumEmptyTrailingGroups (ngNumRows \<circ> rowGroup) (nodeGroups d)) (nodeGroups d)\<rparr>
      in if updateNumRows then d\<lparr>numTotalRows := sub_u64 (numTotalRows d) numRows\<rparr> else d)"

text \<open>
  \<^verbatim>\<open>applyFuncToChunkedGroups\<close> of the three handlers. A table of nodes and the in-memory rows of
  relationships apply the operation to the chunked groups of a node group, the persistent rows to
  the one persistent chunked group.
\<close>

fun handler_apply :: "nat \<Rightarrow> 'c version_op \<Rightarrow> nat \<Rightarrow> nat \<Rightarrow> nat \<Rightarrow> transaction_t \<Rightarrow> VersionRecordHandler \<Rightarrow>
    ('c, 'i) TableData \<Rightarrow> ('c, 'i) TableData" where
  "handler_apply cgCap func ngIdx startRow numRows commitTS (PersistentVersionRecordHandler _) d =
     (if ngIdx < length (nodeGroups d) then
        d\<lparr>nodeGroups := (nodeGroups d)[ngIdx :=
            persistentChunkGroup_update (map_option (func startRow numRows commitTS)) (nodeGroups d ! ngIdx)]\<rparr>
      else d)"
| "handler_apply cgCap func ngIdx startRow numRows commitTS _ d =
     update_group ngIdx (NodeGroup_applyFuncToChunkedGroups cgCap func startRow numRows commitTS) d"

text \<open>The rollback of an insertion in a node group, and the rows it took from the collection.\<close>

definition rollback_group_insert :: "nat \<Rightarrow> nat \<Rightarrow> nat \<Rightarrow> nat \<Rightarrow> nat \<Rightarrow> transaction_t \<Rightarrow> bool \<Rightarrow>
    ('c, 'i) TableData \<Rightarrow> ('c, 'i) TableData" where
  "rollback_group_insert cap cgCap ngIdx startRow numRows ts updateNumRows d =
     (let (numRowsToRollback, ng) =
            InMemoryVersionRecordHandler_rollbackInsert cap cgCap startRow numRows ts
              (rowGroup (nodeGroups d ! ngIdx))
      in NodeGroupCollection_rollbackInsert numRowsToRollback updateNumRows (update_group ngIdx (\<lambda>_. ng) d))"

fun handler_rollbackInsert :: "(nat \<Rightarrow> nat \<Rightarrow> nat \<Rightarrow> ('c, 'i) TableData \<Rightarrow> 'i) \<Rightarrow> nat \<Rightarrow> nat \<Rightarrow> nat \<Rightarrow> nat \<Rightarrow> nat \<Rightarrow>
    transaction_t \<Rightarrow> VersionRecordHandler \<Rightarrow> ('c, 'i) TableData \<Rightarrow> ('c, 'i) TableData" where
  "handler_rollbackInsert undo_pk cap cgCap ngIdx startRow numRows ts (NodeTableVersionRecordHandler _) d =
     (let d = d\<lparr>pkIndex := undo_pk startRow numRows ngIdx d\<rparr>
      in if ngIdx < length (nodeGroups d)
         then rollback_group_insert cap cgCap ngIdx startRow numRows ts True d else d)"
| "handler_rollbackInsert undo_pk cap cgCap ngIdx startRow numRows ts (PersistentVersionRecordHandler t) d =
     NodeGroupCollection_rollbackInsert numRows False (handler_apply cgCap (ChunkedNodeGroup_rollbackInsert cap)
       ngIdx startRow numRows ts (PersistentVersionRecordHandler t) d)"
| "handler_rollbackInsert undo_pk cap cgCap ngIdx startRow numRows ts (InMemoryVersionRecordHandler _) d =
     rollback_group_insert cap cgCap ngIdx startRow numRows ts True d"

section \<open>The records of the undo buffer\<close>

text \<open>The update information a record names: a column of a chunked group.\<close>

definition read_updateInfo :: "ChunkRef \<Rightarrow> ('c, 'i, 'x) Database \<Rightarrow> 'c option UpdateInfo" where
  "read_updateInfo r db = updateInfo (chunks (chunkedGroups (rowGroup (nodeGroups (tables db (refTable r)) ! refNodeGroup r)) !
     refChunkedGroup r) ! refColumn r)"

definition write_updateInfo :: "ChunkRef \<Rightarrow> 'c option UpdateInfo \<Rightarrow> ('c, 'i, 'x) Database \<Rightarrow> ('c, 'i, 'x) Database" where
  "write_updateInfo r ui = update_table (refTable r) (update_group (refNodeGroup r) (\<lambda>ng.
     ng\<lparr>chunkedGroups := (chunkedGroups ng)[refChunkedGroup r :=
       (let g = chunkedGroups ng ! refChunkedGroup r
        in g\<lparr>chunks := (chunks g)[refColumn r := (chunks g ! refColumn r)\<lparr>updateInfo := ui\<rparr>]\<rparr>)]\<rparr>))"

definition commitVersionInfo :: "nat \<Rightarrow> nat \<Rightarrow> transaction_t \<Rightarrow> UndoRecordType \<Rightarrow> nat \<Rightarrow> nat \<Rightarrow> nat \<Rightarrow> nat \<Rightarrow>
    ('c, 'i, 'x) Database \<Rightarrow> ('c, 'i, 'x) Database" where
  "commitVersionInfo cap cgCap commitTS type startRow numRows ngIdx handler db =
     (let h = handlers db handler;
          func = (if type = INSERT_INFO then ChunkedNodeGroup_commitInsert cap else ChunkedNodeGroup_commitDelete cap)
      in update_table (handlerTable h) (handler_apply cgCap func ngIdx startRow numRows commitTS h) db)"

definition commitVectorUpdateInfo :: "transaction_t \<Rightarrow> ChunkRef \<Rightarrow> nat \<Rightarrow> nat \<Rightarrow> ('c, 'i, 'x) Database \<Rightarrow>
    exn option \<times> ('c, 'i, 'x) Database" where
  "commitVectorUpdateInfo commitTS r vectorIdx info db =
     (case UpdateInfo_commit vectorIdx info commitTS (read_updateInfo r db) of
        Inl e \<Rightarrow> (Some e, db)
      | Inr ui \<Rightarrow> (None, write_updateInfo r ui db))"

fun commitRecord :: "nat \<Rightarrow> nat \<Rightarrow> transaction_t \<Rightarrow> undo_entry \<Rightarrow> ('c, 'i, 'x) Database \<Rightarrow>
    exn option \<times> ('c, 'i, 'x) Database" where
  "commitRecord cap cgCap commitTS (type, CatalogEntryRecord catalogSet e) db =
     (None, db\<lparr>catalogSets := (catalogSets db)(catalogSet := commitCatalogEntryRecord commitTS e (catalogSets db catalogSet))\<rparr>)"
| "commitRecord cap cgCap commitTS (type, SequenceEntryRecord sequence old) db = (None, db)"
| "commitRecord cap cgCap commitTS (type, VersionRecord startRow numRows ngIdx handler) db =
     (None, commitVersionInfo cap cgCap commitTS type startRow numRows ngIdx handler db)"
| "commitRecord cap cgCap commitTS (type, VectorUpdateRecord r vectorIdx info ver) db =
     commitVectorUpdateInfo commitTS r vectorIdx info db"

definition rollbackSequenceEntry :: "nat \<Rightarrow> SequenceRollbackData \<Rightarrow> ('c, 'i, 'x) Database \<Rightarrow> ('c, 'i, 'x) Database" where
  "rollbackSequenceEntry sequence old db =
     db\<lparr>sequences := (sequences db)(sequence :=
       rollbackVal old (sequences db sequence))\<rparr>"

definition rollbackVersionInfo :: "(nat \<Rightarrow> nat \<Rightarrow> nat \<Rightarrow> ('c, 'i) TableData \<Rightarrow> 'i) \<Rightarrow> nat \<Rightarrow> nat \<Rightarrow> transaction_t \<Rightarrow>
    UndoRecordType \<Rightarrow> nat \<Rightarrow> nat \<Rightarrow> nat \<Rightarrow> nat \<Rightarrow> ('c, 'i, 'x) Database \<Rightarrow> ('c, 'i, 'x) Database" where
  "rollbackVersionInfo undo_pk cap cgCap commitTS type startRow numRows ngIdx handler db =
     (let h = handlers db handler
      in update_table (handlerTable h)
           (if type = INSERT_INFO then handler_rollbackInsert undo_pk cap cgCap ngIdx startRow numRows commitTS h
            else handler_apply cgCap (ChunkedNodeGroup_rollbackDelete cap) ngIdx startRow numRows commitTS h) db)"

fun rollbackRecord :: "(nat \<Rightarrow> nat \<Rightarrow> nat \<Rightarrow> ('c, 'i) TableData \<Rightarrow> 'i) \<Rightarrow> nat \<Rightarrow> nat \<Rightarrow> transaction_t \<Rightarrow> undo_entry \<Rightarrow>
    ('c, 'i, 'x) Database \<Rightarrow> exn option \<times> ('c, 'i, 'x) Database" where
  "rollbackRecord undo_pk cap cgCap commitTS (type, CatalogEntryRecord catalogSet e) db =
     (None, db\<lparr>catalogSets := (catalogSets db)(catalogSet := rollbackCatalogEntryRecord e (catalogSets db catalogSet))\<rparr>)"
| "rollbackRecord undo_pk cap cgCap commitTS (type, SequenceEntryRecord sequence old) db =
     (None, rollbackSequenceEntry sequence old db)"
| "rollbackRecord undo_pk cap cgCap commitTS (type, VersionRecord startRow numRows ngIdx handler) db =
     (None, rollbackVersionInfo undo_pk cap cgCap commitTS type startRow numRows ngIdx handler db)"
| "rollbackRecord undo_pk cap cgCap commitTS (type, VectorUpdateRecord r vectorIdx info ver) db =
     (None, write_updateInfo r (UpdateInfo_rollback vectorIdx ver (read_updateInfo r db)) db)"

definition UndoBuffer_commit :: "nat \<Rightarrow> nat \<Rightarrow> transaction_t \<Rightarrow> UndoMemoryBuffer list \<Rightarrow> ('c, 'i, 'x) Database \<Rightarrow>
    (exn option \<times> ('c, 'i, 'x) Database) option" where
  "UndoBuffer_commit cap cgCap commitTS ub db = iterate (commitRecord cap cgCap commitTS) ub db"

definition UndoBuffer_rollback :: "(nat \<Rightarrow> nat \<Rightarrow> nat \<Rightarrow> ('c, 'i) TableData \<Rightarrow> 'i) \<Rightarrow> nat \<Rightarrow> nat \<Rightarrow> transaction_t \<Rightarrow>
    UndoMemoryBuffer list \<Rightarrow> ('c, 'i, 'x) Database \<Rightarrow> (exn option \<times> ('c, 'i, 'x) Database) option" where
  "UndoBuffer_rollback undo_pk cap cgCap commitTS ub db = reverseIterate (rollbackRecord undo_pk cap cgCap commitTS) ub db"

end
