(* ===== verification/Undo_Commit.thy ===== *)
theory Undo_Commit
  imports Undo_Application
begin

text \<open>
  What the commit of an undo buffer does to the versions of the database: every row, update and catalog
  entry that carries the identifier of the transaction carries its commit timestamp afterwards, and
  nothing else changes. A cell names a place that carries a version.
\<close>

section \<open>Cells and their versions\<close>

datatype version_cell =
  Inserted nat bool nat nat
| Deleted nat bool nat nat
| Updated ChunkRef nat nat

definition is_persistent :: "VersionRecordHandler \<Rightarrow> bool" where
  "is_persistent h = (case h of PersistentVersionRecordHandler _ \<Rightarrow> True | _ \<Rightarrow> False)"

definition group_version :: "('c ChunkedNodeGroup \<Rightarrow> nat \<Rightarrow> transaction_t) \<Rightarrow> bool \<Rightarrow> 'c TableGroup \<Rightarrow> nat \<Rightarrow> transaction_t" where
  "group_version ver p g row =
     (if p then case persistentChunkGroup g of None \<Rightarrow> INVALID_TRANSACTION | Some cg \<Rightarrow> ver cg row
      else ng_version ver (rowGroup g) row)"

definition place_version :: "('c ChunkedNodeGroup \<Rightarrow> nat \<Rightarrow> transaction_t) \<Rightarrow> ('c, 'i, 'x) Database \<Rightarrow> nat \<Rightarrow> bool \<Rightarrow> nat \<Rightarrow>
    nat \<Rightarrow> transaction_t" where
  "place_version ver db t p i row =
     (if i < length (nodeGroups (tables db t)) then group_version ver p (nodeGroups (tables db t) ! i) row
      else INVALID_TRANSACTION)"

definition table_chunks :: "('c, 'i, 'x) Database \<Rightarrow> nat \<Rightarrow> 'c option ColumnChunk list list list" where
  "table_chunks db t = map (\<lambda>g. map chunks (chunkedGroups (rowGroup g))) (nodeGroups (tables db t))"

definition chunk_exists :: "ChunkRef \<Rightarrow> ('c, 'i, 'x) Database \<Rightarrow> bool" where
  "chunk_exists r db \<longleftrightarrow> refNodeGroup r < length (table_chunks db (refTable r)) \<and>
     refChunkedGroup r < length (table_chunks db (refTable r) ! refNodeGroup r) \<and>
     refColumn r < length (table_chunks db (refTable r) ! refNodeGroup r ! refChunkedGroup r)"

fun cell_version :: "nat \<Rightarrow> ('c, 'i, 'x) Database \<Rightarrow> version_cell \<Rightarrow> transaction_t" where
  "cell_version cap db (Inserted t p i row) = place_version (group_ins cap) db t p i row"
| "cell_version cap db (Deleted t p i row) = place_version (group_del cap) db t p i row"
| "cell_version cap db (Updated r v a) =
     (if chunk_exists r db then node_version (read_updateInfo r db) (v, a) else INVALID_TRANSACTION)"

text \<open>The cells of a record, and what a record has to look like.\<close>

fun record_cells :: "(nat \<Rightarrow> VersionRecordHandler) \<Rightarrow> undo_entry \<Rightarrow> version_cell set" where
  "record_cells hs (type, VersionRecord s n i h) =
     (if type = INSERT_INFO then Inserted (handlerTable (hs h)) (is_persistent (hs h)) i ` rows_of (s, n)
      else Deleted (handlerTable (hs h)) (is_persistent (hs h)) i ` rows_of (s, n))"
| "record_cells hs (type, VectorUpdateRecord r v a ver) = {Updated r v a}"
| "record_cells hs (type, _) = {}"

fun record_typed :: "undo_entry \<Rightarrow> bool" where
  "record_typed (type, VersionRecord s n i h) \<longleftrightarrow> (type = INSERT_INFO \<or> type = DELETE_INFO) \<and> 0 < n"
| "record_typed (type, VectorUpdateRecord r v a ver) \<longleftrightarrow> type = UPDATE_INFO"
| "record_typed (type, CatalogEntryRecord s e) \<longleftrightarrow> type = CATALOG_ENTRY"
| "record_typed (type, SequenceEntryRecord s d) \<longleftrightarrow> type = SEQUENCE_ENTRY"

section \<open>A well-formed database\<close>

definition tg_inv :: "nat \<Rightarrow> nat \<Rightarrow> 'c TableGroup \<Rightarrow> bool" where
  "tg_inv cap cgCap g \<longleftrightarrow> ng_inv cap cgCap (rowGroup g) \<and>
     (case persistentChunkGroup g of None \<Rightarrow> True | Some cg \<Rightarrow> group_inv cap cg)"

definition db_inv :: "nat \<Rightarrow> nat \<Rightarrow> ('c, 'i, 'x) Database \<Rightarrow> bool" where
  "db_inv cap cgCap db \<longleftrightarrow> (\<forall>t. list_all (tg_inv cap cgCap) (nodeGroups (tables db t))) \<and>
     (\<forall>r v. chunk_exists r db \<longrightarrow> distinct (map infoAddr (chain_of v (read_updateInfo r db))))"

lemma read_chunks:
  "chunk_exists r db \<Longrightarrow> read_updateInfo r db =
     updateInfo (table_chunks db (refTable r) ! refNodeGroup r ! refChunkedGroup r ! refColumn r)"
  by (auto simp: chunk_exists_def table_chunks_def read_updateInfo_def)

lemma same_chunks:
  assumes "table_chunks db' = table_chunks db"
  shows "chunk_exists r db' = chunk_exists r db"
    "chunk_exists r db \<Longrightarrow> read_updateInfo r db' = read_updateInfo r db"
    "cell_version cap db' (Updated r v a) = cell_version cap db (Updated r v a)"
  using assms read_chunks [of r db] read_chunks [of r db'] by (auto simp: chunk_exists_def)

section \<open>Applying an operation through a handler\<close>

definition handler_group :: "nat \<Rightarrow> 'c version_op \<Rightarrow> bool \<Rightarrow> nat \<Rightarrow> nat \<Rightarrow> transaction_t \<Rightarrow> 'c TableGroup \<Rightarrow> 'c TableGroup" where
  "handler_group cgCap func p s n c g =
     (if p then persistentChunkGroup_update (map_option (func s n c)) g
      else rowGroup_update (NodeGroup_applyFuncToChunkedGroups cgCap func s n c) g)"

lemma handler_apply_group:
  "i < length (nodeGroups d) \<Longrightarrow> handler_apply cgCap func i s n c h d =
     d\<lparr>nodeGroups := (nodeGroups d)[i := handler_group cgCap func (is_persistent h) s n c (nodeGroups d ! i)]\<rparr>"
  by (cases h) (simp_all add: handler_group_def is_persistent_def update_group_def)

lemma chunks_apply_groups:
  assumes "\<And>s n c g. chunks (func s n c g) = chunks g"
  shows "map chunks (apply_groups func ts i n groups) = map chunks groups"
  by (induction groups arbitrary: i n) (simp_all add: Let_def assms)

lemma chunks_handler_group:
  assumes "\<And>s n c g. chunks (func s n c g) = chunks g"
  shows "map chunks (chunkedGroups (rowGroup (handler_group cgCap func p s n c g))) = map chunks (chunkedGroups (rowGroup g))"
  using chunks_apply_groups [OF assms]
  by (auto simp: handler_group_def NodeGroup_applyFuncToChunkedGroups_def split: option.split)
    (metis append_take_drop_id map_append)

context group_operation
begin

lemma handler_group_versions:
  assumes inv: "tg_inv cap cgCap g" and T: "live T" and c: "c < START_TRANSACTION_ID" and n: "0 < n"
    and own: "\<forall>row\<in>rows_of (s, n). group_version ver p g row \<in> T"
    and g': "g' = handler_group cgCap func p s n c g"
  shows "tg_inv cap cgCap g'" "group_version ver2 q g' = group_version ver2 q g"
    "row \<in> rows_of (s, n) \<Longrightarrow> group_version ver p g' row = res c"
    "group_version ver q g' row = group_version ver q g row \<or>
     group_version ver q g row \<in> T \<and> group_version ver q g' row = res c"
proof -
  have "tg_inv cap cgCap g' \<and> group_version ver2 q g' = group_version ver2 q g \<and>
    (row \<in> rows_of (s, n) \<longrightarrow> group_version ver p g' row = res c) \<and>
    (group_version ver q g' row = group_version ver q g row \<or>
     group_version ver q g row \<in> T \<and> group_version ver q g' row = res c)"
  proof (cases p)
    case True
    have "group_version ver p g s \<in> T" using own n by simp
    then obtain cg where cg: "persistentChunkGroup g = Some cg"
      using T True by (cases "persistentChunkGroup g") (auto simp: group_version_def live_def)
    with inv own True have pre: "group_inv cap cg" "\<forall>row\<in>rows_of (s, n). ver cg row \<in> T"
      by (simp_all add: tg_inv_def group_version_def)
    note op = op_cells [OF pre(1) T c n pre(2), of row] op_frame [OF pre(1) T c n pre(2), of row]
      op_other [OF pre(1) T c n pre(2)] op_inv [OF pre(1) T c n pre(2)]
    show ?thesis using op inv True by (auto simp: g' handler_group_def cg tg_inv_def group_version_def)
  next
    case False
    with inv own have pre: "ng_inv cap cgCap (rowGroup g)" "\<forall>row\<in>rows_of (s, n). ng_version ver (rowGroup g) row \<in> T"
      by (simp_all add: tg_inv_def group_version_def)
    note op = apply_node_group [OF pre(1) T c n pre(2) refl]
    have "ng_inv cap cgCap (NodeGroup_applyFuncToChunkedGroups cgCap func s n c (rowGroup g))"
      using pre(1) op(5) ng_shape_cong(1) [OF op(1-3)] by (simp add: ng_inv_def)
    with op(4) op(6,7) [of row] inv False show ?thesis
      by (auto simp: g' handler_group_def tg_inv_def group_version_def fun_eq_iff)
  qed
  then show "tg_inv cap cgCap g'" "group_version ver2 q g' = group_version ver2 q g"
    "row \<in> rows_of (s, n) \<Longrightarrow> group_version ver p g' row = res c"
    "group_version ver q g' row = group_version ver q g row \<or>
     group_version ver q g row \<in> T \<and> group_version ver q g' row = res c" by blast+
qed

lemma handler_apply_versions:
  assumes inv: "db_inv cap cgCap db" and T: "live T" and c: "c < START_TRANSACTION_ID" and n: "0 < n"
    and chunks: "\<And>s n c g. chunks (func s n c g) = chunks g"
    and own: "\<forall>row\<in>rows_of (s, n). place_version ver db (handlerTable h) (is_persistent h) i row \<in> T"
    and db': "db' = update_table (handlerTable h) (handler_apply cgCap func i s n c h) db"
  shows "db_inv cap cgCap db'" "place_version ver2 db' = place_version ver2 db" "table_chunks db' = table_chunks db"
    "row \<in> rows_of (s, n) \<Longrightarrow> place_version ver db' (handlerTable h) (is_persistent h) i row = res c"
    "place_version ver db' t q j row = place_version ver db t q j row \<or>
     place_version ver db t q j row \<in> T \<and> place_version ver db' t q j row = res c"
proof -
  let ?t = "handlerTable h" and ?p = "is_persistent h"
  let ?d = "tables db ?t"
  have "place_version ver db ?t ?p i s \<in> T" using own n by simp
  then have i: "i < length (nodeGroups ?d)" using T by (auto simp: place_version_def live_def split: if_splits)
  define g' where "g' = handler_group cgCap func ?p s n c (nodeGroups ?d ! i)"
  have groups: "nodeGroups (tables db' t) = (if t = ?t then (nodeGroups ?d)[i := g'] else nodeGroups (tables db t))" for t
    by (simp add: db' update_table_def handler_apply_group [OF i] g'_def)
  have g: "tg_inv cap cgCap (nodeGroups ?d ! i)" "\<forall>row\<in>rows_of (s, n). group_version ver ?p (nodeGroups ?d ! i) row \<in> T"
    using inv i own by (simp_all add: db_inv_def list_all_length place_version_def)
  note op = handler_group_versions [OF g(1) T c n g(2) g'_def]
  have "map chunks (chunkedGroups (rowGroup g')) = map chunks (chunkedGroups (rowGroup (nodeGroups ?d ! i)))"
    unfolding g'_def by (rule chunks_handler_group [OF chunks])
  then show tc: "table_chunks db' = table_chunks db"
    using i by (auto simp: table_chunks_def groups map_update intro!: ext list_update_same_conv [THEN iffD2])
  show "db_inv cap cgCap db'"
    using inv op(1) i same_chunks [OF tc] by (auto simp: db_inv_def groups list_all_length nth_list_update)
  show "place_version ver2 db' = place_version ver2 db"
    using op(2) i by (auto simp: fun_eq_iff place_version_def groups nth_list_update)
  show "row \<in> rows_of (s, n) \<Longrightarrow> place_version ver db' ?t ?p i row = res c"
    using op(3) i by (simp add: place_version_def groups)
  show "place_version ver db' t q j row = place_version ver db t q j row \<or>
     place_version ver db t q j row \<in> T \<and> place_version ver db' t q j row = res c"
    using op(4) [of q row] i by (auto simp: place_version_def groups nth_list_update)
qed

end

section \<open>Committing an update\<close>

lemma node_version_commit:
  assumes dist: "distinct (map infoAddr (chain_of v ui))" and node: "node_version ui (v, a) \<noteq> INVALID_TRANSACTION"
  obtains ui' where "UpdateInfo_commit v a c ui = Inr ui'"
    "\<And>k. node_version ui' k = (if k = (v, a) then c else node_version ui k)"
    "\<And>j. map infoAddr (chain_of j ui') = map infoAddr (chain_of j ui)"
proof -
  obtain info where info: "find (\<lambda>info. infoAddr info = a) (chain_of v ui) = Some info"
    using node by (cases "find (\<lambda>info. infoAddr info = a) (chain_of v ui)") (auto simp: node_version_def)
  then have "v < length (updates ui)" by (auto simp: chain_of_def split: if_splits)
  then obtain ui' where ui': "UpdateInfo_commit v a c ui = Inr ui'" by (simp add: UpdateInfo_commit_def getUpdateNode_def)
  note chain = commit_chain(1) [OF ui']
  have "node_version ui' k = (if k = (v, a) then c else node_version ui k)" for k
    using find_addr [OF info] info
    by (cases k) (auto simp: node_version_def chain find_map_stamp dest: find_addr split: option.split)
  moreover have "map infoAddr (chain_of j ui') = map infoAddr (chain_of j ui)" for j by (simp add: chain)
  ultimately show thesis using that ui' by blast
qed

lemma write_groups:
  assumes "refNodeGroup r < length (nodeGroups (tables db (refTable r)))"
  shows "nodeGroups (tables (write_updateInfo r ui db) t) =
    (if t = refTable r then (nodeGroups (tables db t))[refNodeGroup r := rowGroup_update (\<lambda>ng.
       ng\<lparr>chunkedGroups := (chunkedGroups ng)[refChunkedGroup r :=
         (chunkedGroups ng ! refChunkedGroup r)\<lparr>chunks := (chunks (chunkedGroups ng ! refChunkedGroup r))[refColumn r :=
           (chunks (chunkedGroups ng ! refChunkedGroup r) ! refColumn r)\<lparr>updateInfo := ui\<rparr>]\<rparr>]\<rparr>) (nodeGroups (tables db t) ! refNodeGroup r)]
     else nodeGroups (tables db t))"
  by (simp add: write_updateInfo_def update_table_def update_group_def Let_def)

lemma write_chunks:
  assumes "chunk_exists r db"
  shows "table_chunks (write_updateInfo r ui db) t =
    (if t = refTable r then (table_chunks db t)[refNodeGroup r := (table_chunks db t ! refNodeGroup r)[refChunkedGroup r :=
       (table_chunks db t ! refNodeGroup r ! refChunkedGroup r)[refColumn r :=
         (table_chunks db t ! refNodeGroup r ! refChunkedGroup r ! refColumn r)\<lparr>updateInfo := ui\<rparr>]]]
     else table_chunks db t)"
  using assms by (auto simp: chunk_exists_def table_chunks_def write_groups map_update)

lemma write_read:
  assumes "chunk_exists r db"
  shows "chunk_exists r' (write_updateInfo r ui db) = chunk_exists r' db"
    "chunk_exists r' db \<Longrightarrow> read_updateInfo r' (write_updateInfo r ui db) = (if r' = r then ui else read_updateInfo r' db)"
proof -
  show ex: "chunk_exists r' (write_updateInfo r ui db) = chunk_exists r' db" for r'
    using assms unfolding chunk_exists_def write_chunks [OF assms] by (auto simp: nth_list_update split: if_splits)
  have eq: "r' = r \<longleftrightarrow> refTable r' = refTable r \<and> refNodeGroup r' = refNodeGroup r \<and>
      refChunkedGroup r' = refChunkedGroup r \<and> refColumn r' = refColumn r" by (cases r'; cases r) auto
  show "read_updateInfo r' (write_updateInfo r ui db) = (if r' = r then ui else read_updateInfo r' db)" if "chunk_exists r' db"
    using that assms read_chunks [of r' "write_updateInfo r ui db"] read_chunks [OF that]
    unfolding ex write_chunks [OF assms] by (auto simp: eq chunk_exists_def nth_list_update split: if_splits)
qed

lemma rows_versions_update:
  assumes "k < length gs" "ver g' = ver (gs ! k)" "groupRows g' = groupRows (gs ! k)"
  shows "rows_versions ver (gs[k := g']) = rows_versions ver gs"
proof -
  have "map (\<lambda>g. map (ver g) [0..<groupRows g]) (gs[k := g']) = map (\<lambda>g. map (ver g) [0..<groupRows g]) gs"
    using assms by (auto simp: map_update intro!: list_update_same_conv [THEN iffD2])
  then show ?thesis by (simp add: rows_versions_def)
qed

text \<open>Replacing the columns of a chunked group.\<close>

lemma replace_chunks:
  fixes ng :: "'c NodeGroup"
  assumes k: "k < length (chunkedGroups ng)"
    and ng': "ng' = ng\<lparr>chunkedGroups := (chunkedGroups ng)[k := (chunkedGroups ng ! k)\<lparr>chunks := cs\<rparr>]\<rparr>"
  shows "ng_version (group_ins cap) ng' = ng_version (group_ins cap) ng" "ng_version (group_del cap) ng' = ng_version (group_del cap) ng"
    "ng_inv cap cgCap ng' = ng_inv cap cgCap ng"
proof -
  let ?gs = "chunkedGroups ng" and ?g' = "(chunkedGroups ng ! k)\<lparr>chunks := cs\<rparr>"
  have same: "map groupRows (?gs[k := ?g']) = map groupRows ?gs" "map startRowIdx (?gs[k := ?g']) = map startRowIdx ?gs"
    "map (group_inv cap) (?gs[k := ?g']) = map (group_inv cap) ?gs"
    using k by (auto simp: map_update group_inv_def intro!: list_update_same_conv [THEN iffD2])
  have cong: "ng_shape cgCap ng' = ng_shape cgCap ng" "group_start (chunkedGroups ng') = group_start ?gs"
    using ng_shape_cong [of ng' ng] same by (simp_all add: ng')
  have rows: "rows_versions (group_ins cap) (?gs[k := ?g']) = rows_versions (group_ins cap) ?gs"
    "rows_versions (group_del cap) (?gs[k := ?g']) = rows_versions (group_del cap) ?gs"
    by (rule rows_versions_update [OF k]; simp add: fun_eq_iff group_ins_eq group_del_eq)+
  show "ng_version (group_ins cap) ng' = ng_version (group_ins cap) ng" "ng_version (group_del cap) ng' = ng_version (group_del cap) ng"
    using rows cong(2) by (simp_all add: fun_eq_iff ng_version_def ng')
  have "list_all (group_inv cap) (?gs[k := ?g']) = list_all (group_inv cap) ?gs"
    using same(3) unfolding list_all_length by (metis length_map nth_map)
  then show "ng_inv cap cgCap ng' = ng_inv cap cgCap ng" using cong(1) by (simp add: ng_inv_def ng')
qed

lemma write_versions:
  assumes "chunk_exists r db"
  shows "place_version (group_ins cap) (write_updateInfo r ui db) = place_version (group_ins cap) db"
    "place_version (group_del cap) (write_updateInfo r ui db) = place_version (group_del cap) db"
    "list_all (tg_inv cap cgCap) (nodeGroups (tables db t)) \<Longrightarrow>
     list_all (tg_inv cap cgCap) (nodeGroups (tables (write_updateInfo r ui db) t))"
proof -
  have r: "refNodeGroup r < length (nodeGroups (tables db (refTable r)))"
    "refChunkedGroup r < length (chunkedGroups (rowGroup (nodeGroups (tables db (refTable r)) ! refNodeGroup r)))"
    using assms by (auto simp: chunk_exists_def table_chunks_def)
  note ng = replace_chunks [OF r(2) refl]
  show "place_version (group_ins cap) (write_updateInfo r ui db) = place_version (group_ins cap) db"
    "place_version (group_del cap) (write_updateInfo r ui db) = place_version (group_del cap) db"
    using r(1) by (auto simp: fun_eq_iff place_version_def write_groups nth_list_update group_version_def ng)
  show "list_all (tg_inv cap cgCap) (nodeGroups (tables (write_updateInfo r ui db) t))"
    if "list_all (tg_inv cap cgCap) (nodeGroups (tables db t))"
    using that r(1) by (auto simp: list_all_length write_groups nth_list_update tg_inv_def ng)
qed

section \<open>Committing the records\<close>

fun catalog_records :: "nat \<Rightarrow> undo_entry list \<Rightarrow> nat list" where
  "catalog_records a [] = []"
| "catalog_records a (u # es) =
     (case snd u of CatalogEntryRecord s e \<Rightarrow> if s = a then e # catalog_records a es else catalog_records a es
                  | _ \<Rightarrow> catalog_records a es)"

text \<open>What one record or a sequence of records does: the cells in \<open>ks\<close> are stamped, nothing else is touched.\<close>

definition relabelled :: "nat \<Rightarrow> nat \<Rightarrow> transaction_t \<Rightarrow> transaction_t \<Rightarrow> undo_entry list \<Rightarrow> version_cell set \<Rightarrow>
    ('c, 'i, 'x) Database \<Rightarrow> ('c, 'i, 'x) Database \<Rightarrow> bool" where
  "relabelled cap cgCap t c es ks db db' \<longleftrightarrow> db_inv cap cgCap db' \<and> handlers db' = handlers db \<and> sequences db' = sequences db \<and>
     (\<forall>k\<in>ks. cell_version cap db' k = c) \<and>
     (\<forall>k. cell_version cap db' k = cell_version cap db k \<or> cell_version cap db k = t \<and> cell_version cap db' k = c) \<and>
     (\<forall>a. catalogSets db' a = fold (commitCatalogEntryRecord c) (catalog_records a es) (catalogSets db a))"

lemma relabelled_trans:
  assumes "relabelled cap cgCap t c [u] ks db db1" "relabelled cap cgCap t c es ks' db1 db2" "t \<noteq> c"
  shows "relabelled cap cgCap t c (u # es) (ks \<union> ks') db db2"
proof -
  have "cell_version cap db2 k = c" if "k \<in> ks" for k
    using assms that unfolding relabelled_def by metis
  moreover have "cell_version cap db2 k = cell_version cap db k \<or> cell_version cap db k = t \<and> cell_version cap db2 k = c" for k
    using assms unfolding relabelled_def by metis
  ultimately show ?thesis
    using assms(1,2) unfolding relabelled_def by (auto split: UndoRecord.splits)
qed

lemma group_chunks_ops [simp]:
  "chunks (ChunkedNodeGroup_commitInsert cap s n c g) = chunks g" "chunks (ChunkedNodeGroup_commitDelete cap s n c g) = chunks g"
  by (simp_all add: ChunkedNodeGroup_commitInsert_def ChunkedNodeGroup_commitDelete_def)

lemma update_table_simps [simp]:
  "handlers (update_table t f db) = handlers db" "catalogSets (update_table t f db) = catalogSets db"
  "sequences (update_table t f db) = sequences db" "handlers (write_updateInfo r ui db) = handlers db"
  "catalogSets (write_updateInfo r ui db) = catalogSets db" "sequences (write_updateInfo r ui db) = sequences db"
  by (simp_all add: update_table_def write_updateInfo_def)

lemma commitVersionInfo_simps [simp]:
  "handlers (commitVersionInfo cap cgCap c type s n i h db) = handlers db"
  "catalogSets (commitVersionInfo cap cgCap c type s n i h db) = catalogSets db"
  "sequences (commitVersionInfo cap cgCap c type s n i h db) = sequences db"
  by (simp_all add: commitVersionInfo_def Let_def)

lemma commit_rows_record:
  assumes inv: "db_inv cap cgCap db" and T: "live {t, c}" and c: "c < START_TRANSACTION_ID" and n: "0 < n"
    and type: "type = INSERT_INFO \<or> type = DELETE_INFO" and u: "u = (type, VersionRecord s n i h)"
    and own: "\<forall>k\<in>record_cells (handlers db) u. cell_version cap db k \<in> {t, c}"
  shows "relabelled cap cgCap t c [u] (record_cells (handlers db) u) db (commitVersionInfo cap cgCap c type s n i h db)"
  using type
proof
  let ?h = "handlers db h" and ?db' = "commitVersionInfo cap cgCap c type s n i h db"
  assume ins: "type = INSERT_INFO"
  have "\<forall>row\<in>rows_of (s, n). place_version (group_ins cap) db (handlerTable ?h) (is_persistent ?h) i row \<in> {t, c}"
    using own by (simp add: u ins)
  note op = ins_commit.handler_apply_versions [OF inv T c n group_chunks_ops(1) this, where db' = ?db']
  have eq: "?db' = update_table (handlerTable ?h) (handler_apply cgCap (ChunkedNodeGroup_commitInsert cap) i s n c ?h) db"
    by (simp add: commitVersionInfo_def ins Let_def)
  have "cell_version cap ?db' k = cell_version cap db k \<or> cell_version cap db k = t \<and> cell_version cap ?db' k = c" for k
    using op(2) [OF eq] op(5) [OF eq] same_chunks(3) [OF op(3) [OF eq]] by (cases k) auto
  then show ?thesis
    using op(1,4) [OF eq] unfolding relabelled_def by (auto simp: u ins)
next
  let ?h = "handlers db h" and ?db' = "commitVersionInfo cap cgCap c type s n i h db"
  assume del: "type = DELETE_INFO"
  have "\<forall>row\<in>rows_of (s, n). place_version (group_del cap) db (handlerTable ?h) (is_persistent ?h) i row \<in> {t, c}"
    using own by (simp add: u del)
  note op = del_commit.handler_apply_versions [OF inv T c n group_chunks_ops(2) this, where db' = ?db']
  have eq: "?db' = update_table (handlerTable ?h) (handler_apply cgCap (ChunkedNodeGroup_commitDelete cap) i s n c ?h) db"
    by (simp add: commitVersionInfo_def del Let_def)
  have "cell_version cap ?db' k = cell_version cap db k \<or> cell_version cap db k = t \<and> cell_version cap ?db' k = c" for k
    using op(2) [OF eq] op(5) [OF eq] same_chunks(3) [OF op(3) [OF eq]] by (cases k) auto
  then show ?thesis
    using op(1,4) [OF eq] unfolding relabelled_def by (auto simp: u del)
qed

lemma commit_update_record:
  assumes inv: "db_inv cap cgCap db" and T: "live {t, c}" and own: "cell_version cap db (Updated r v a) \<in> {t, c}"
  obtains db' where "commitVectorUpdateInfo c r v a db = (None, db')"
    "relabelled cap cgCap t c [(UPDATE_INFO, VectorUpdateRecord r v a ver)] {Updated r v a} db db'"
proof -
  have r: "chunk_exists r db" and node: "node_version (read_updateInfo r db) (v, a) \<in> {t, c}"
    using own T by (auto simp: live_def split: if_splits)
  have dist: "distinct (map infoAddr (chain_of v (read_updateInfo r db)))" using inv r by (simp add: db_inv_def)
  have "node_version (read_updateInfo r db) (v, a) \<noteq> INVALID_TRANSACTION" using node T by (auto simp: live_def)
  from node_version_commit [OF dist this] obtain ui where ui: "UpdateInfo_commit v a c (read_updateInfo r db) = Inr ui"
    "\<And>k. node_version ui k = (if k = (v, a) then c else node_version (read_updateInfo r db) k)"
    "\<And>j. map infoAddr (chain_of j ui) = map infoAddr (chain_of j (read_updateInfo r db))" by metis
  let ?db' = "write_updateInfo r ui db"
  have inv': "db_inv cap cgCap ?db'"
    using inv ui(3) write_read [OF r] write_versions(3) [OF r] by (auto simp: db_inv_def)
  have cells: "cell_version cap ?db' k = (if k = Updated r v a then c else cell_version cap db k)" for k
    using write_versions(1,2) [OF r] write_read [OF r] r by (cases k) (auto simp: ui(2))
  have "relabelled cap cgCap t c [(UPDATE_INFO, VectorUpdateRecord r v a ver)] {Updated r v a} db ?db'"
    using inv' own by (auto simp: relabelled_def cells simp del: cell_version.simps)
  with that show thesis by (simp add: commitVectorUpdateInfo_def ui(1))
qed

lemma catalog_sets_cells:
  "cell_version cap (catalogSets_update f db) k = cell_version cap db k"
  "db_inv cap cgCap (catalogSets_update f db) = db_inv cap cgCap db"
proof -
  have tc: "table_chunks (catalogSets_update f db) = table_chunks db" by (simp add: fun_eq_iff table_chunks_def)
  show "cell_version cap (catalogSets_update f db) k = cell_version cap db k"
    using same_chunks(3) [OF tc] by (cases k) (simp_all add: place_version_def)
  show "db_inv cap cgCap (catalogSets_update f db) = db_inv cap cgCap db"
    using same_chunks(1,2) [OF tc] by (auto simp: db_inv_def)
qed

lemma commit_record:
  assumes "db_inv cap cgCap db" "live {t, c}" "c < START_TRANSACTION_ID" "record_typed u"
    and own: "\<forall>k\<in>record_cells (handlers db) u. cell_version cap db k \<in> {t, c}"
  obtains db' where "commitRecord cap cgCap c u db = (None, db')"
    "relabelled cap cgCap t c [u] (record_cells (handlers db) u) db db'"
proof -
  obtain type r where u: "u = (type, r)" by fastforce
  show thesis
  proof (cases r)
    case (CatalogEntryRecord s e)
    with assms(1) that show thesis by (auto simp: u relabelled_def catalog_sets_cells)
  next
    case (SequenceEntryRecord s d)
    with assms(1) that show thesis by (auto simp: u relabelled_def)
  next
    case (VersionRecord s n i h)
    with that commit_rows_record [OF assms(1-3) _ _ _ own] assms(4) show thesis by (auto simp: u)
  next
    case (VectorUpdateRecord r v a ver)
    with assms(4) have type: "type = UPDATE_INFO" by (simp add: u)
    have "cell_version cap db (Updated r v a) \<in> {t, c}" using own VectorUpdateRecord by (simp add: u)
    from commit_update_record [OF assms(1,2) this] obtain db' where "commitVectorUpdateInfo c r v a db = (None, db')"
      "relabelled cap cgCap t c [(UPDATE_INFO, VectorUpdateRecord r v a ver)] {Updated r v a} db db'" .
    with that VectorUpdateRecord type show thesis by (simp add: u)
  qed
qed

lemma commit_records:
  assumes "db_inv cap cgCap db" "live {t, c}" "c < START_TRANSACTION_ID" "t \<noteq> c" "list_all record_typed es"
    and "\<forall>u\<in>set es. \<forall>k\<in>record_cells (handlers db) u. cell_version cap db k \<in> {t, c}"
  shows "\<exists>db'. for_entries (commitRecord cap cgCap c) es db = (None, db') \<and>
    relabelled cap cgCap t c es (\<Union>u\<in>set es. record_cells (handlers db) u) db db'"
  using assms(1,5,6)
proof (induction es arbitrary: db)
  case Nil
  then show ?case by (simp add: relabelled_def)
next
  case (Cons u es)
  from Cons.prems obtain db1 where db1: "commitRecord cap cgCap c u db = (None, db1)"
    "relabelled cap cgCap t c [u] (record_cells (handlers db) u) db db1"
    using commit_record [OF Cons.prems(1) assms(2,3), of u] by auto
  then have h: "handlers db1 = handlers db" "db_inv cap cgCap db1" by (simp_all add: relabelled_def)
  have "\<forall>u\<in>set es. \<forall>k\<in>record_cells (handlers db1) u. cell_version cap db1 k \<in> {t, c}"
    using Cons.prems(3) db1(2) unfolding relabelled_def h(1) by (metis insert_iff list.set_intros(2))
  with Cons.IH [OF h(2)] Cons.prems(2) obtain db2 where db2: "for_entries (commitRecord cap cgCap c) es db1 = (None, db2)"
    "relabelled cap cgCap t c es (\<Union>u\<in>set es. record_cells (handlers db1) u) db1 db2" by auto
  from relabelled_trans [OF db1(2) db2(2) assms(4)] db1(1) db2(1) show ?case by (simp add: h(1))
qed

section \<open>A database with one table\<close>

definition sample_rows :: "nat ChunkedNodeGroup" where
  "sample_rows = \<lparr>residencyState = IN_MEMORY, startRowIdx = 0, groupCapacity = 4, groupRows = 2, chunks = [],
     versionInfo = Some (VersionInfo_append 2 (START_TRANSACTION_ID + 1) 0 2 VersionInfo_new)\<rparr>"

definition sample_data :: "(nat, unit) TableData" where
  "sample_data = \<lparr>nodeGroups = [\<lparr>rowGroup = NodeGroup_of_chunkedGroup 0 8 sample_rows, persistentChunkGroup = None\<rparr>],
     numTotalRows = 2, pkIndex = ()\<rparr>"

definition sample_db :: "(nat, unit, unit) Database" where
  "sample_db = \<lparr>tables = (\<lambda>_. \<lparr>nodeGroups = [], numTotalRows = 0, pkIndex = ()\<rparr>)(0 := sample_data),
     handlers = (\<lambda>_. NodeTableVersionRecordHandler 0), catalogSets = (\<lambda>a. CatalogSet_new a False),
     sequences = (\<lambda>_. SequenceData_new 1 1 1 9 False), catalogVersion = 0\<rparr>"

definition sample_undo :: "UndoMemoryBuffer list" where
  "sample_undo = the (createInsertInfo 4096 0 0 2 0 [])"

abbreviation sample_entry :: undo_entry where
  "sample_entry \<equiv> (INSERT_INFO, VersionRecord 0 2 0 0)"

lemma sample_undo_inv: "undo_inv sample_undo [sample_entry]"
  using create_record_appends [OF undo_inv_Nil, of 4096 INSERT_INFO "VersionRecord 0 2 0 0"]
  by (auto simp: sample_undo_def createInsertInfo_def createVersionInfo_def)

lemma sample_no_chunk: "\<not> chunk_exists r sample_db"
  by (cases "refTable r = 0")
    (auto simp: chunk_exists_def table_chunks_def sample_db_def sample_data_def NodeGroup_of_chunkedGroup_def sample_rows_def
      nth_Cons' split: if_splits)

lemma sample_cells:
  "cell_version 2 sample_db k = (if k \<in> Inserted 0 False 0 ` rows_of (0, 2) then START_TRANSACTION_ID + 1 else INVALID_TRANSACTION)"
proof -
  have v: "rows_versions (group_ins 2) [sample_rows] = [START_TRANSACTION_ID + 1, START_TRANSACTION_ID + 1]"
    "rows_versions (group_del 2) [sample_rows] = [INVALID_TRANSACTION, INVALID_TRANSACTION]" by code_simp+
  have st: "group_start [sample_rows] = 0" by code_simp
  have place: "place_version ver sample_db t p i row = (if t = 0 \<and> i = 0 then
      (if p then INVALID_TRANSACTION else if row < length (rows_versions ver [sample_rows]) then rows_versions ver [sample_rows] ! row
       else INVALID_TRANSACTION) else INVALID_TRANSACTION)" for ver t p i row
    by (simp add: place_version_def sample_db_def sample_data_def group_version_def ng_version_def NodeGroup_of_chunkedGroup_def st
        del: rows_versions_simps)
  show ?thesis
  proof (cases k)
    case (Inserted t p i row)
    then show ?thesis by (auto simp: place v nth_Cons' simp del: rows_versions_simps length_rows_versions)
  next
    case (Deleted t p i row)
    then show ?thesis by (auto simp: place v nth_Cons' simp del: rows_versions_simps length_rows_versions)
  next
    case (Updated r v a)
    then show ?thesis using sample_no_chunk by auto
  qed
qed

lemma sample_db_inv: "db_inv 2 4 sample_db"
proof -
  have "tg_inv 2 4 \<lparr>rowGroup = NodeGroup_of_chunkedGroup 0 8 sample_rows, persistentChunkGroup = None\<rparr>" by code_simp
  then show ?thesis using sample_no_chunk by (simp add: db_inv_def sample_db_def sample_data_def)
qed

section \<open>Properties\<close>

text \<open>
  The undo buffer of a transaction is complete: each of its records names cells that carry the transaction,
  and every cell and every catalog entry that carries it is named by a record.
\<close>

definition undo_complete :: "nat \<Rightarrow> transaction_t \<Rightarrow> undo_entry list \<Rightarrow> ('c, 'i, 'x) Database \<Rightarrow> bool" where
  "undo_complete cap t es db \<longleftrightarrow> list_all record_typed es \<and>
     (\<forall>k. cell_version cap db k = t \<longleftrightarrow> (\<exists>u\<in>set es. k \<in> record_cells (handlers db) u)) \<and>
     (\<forall>a. set_inv (catalogSets db a) \<and> recorded t (catalog_records a es) (catalogSets db a))"



text \<open>
  C39: rolling back an insertion into the rows in memory of the last node group of a relationship table
  drops the whole node group when it held no other rows in memory, and with it the persistent rows
  of earlier transactions: the group is not empty after the rows in memory are rolled back, but the count of
  empty groups at the end looks at the rows in memory only.
\<close>

theorem rollback_drops_persistent_group:
  assumes "length (nodeGroups d) = Suc k" "persistentChunkGroup (nodeGroups d ! k) = Some g"
  shows "\<not> CSRNodeGroup_isEmpty (nodeGroups (update_group k (\<lambda>ng. snd (InMemoryVersionRecordHandler_rollbackInsert cap cgCap 0 n ts ng)) d) ! k) \<and>
    length (nodeGroups (handler_rollbackInsert undo_pk cap cgCap k 0 n ts (InMemoryVersionRecordHandler tbl) d)) \<le> k"
proof -
  let ?ng = "snd (InMemoryVersionRecordHandler_rollbackInsert cap cgCap 0 n ts (rowGroup (nodeGroups d ! k)))"
  have empty: "ngNumRows ?ng = 0"
    by (simp add: InMemoryVersionRecordHandler_rollbackInsert_def NodeGroup_rollbackInsert_def Let_def)
  obtain gs last where gs: "nodeGroups d = gs @ [last]" "length gs = k"
    using assms(1) by (metis length_Suc_conv_rev)
  then have "nodeGroups (update_group k (\<lambda>_. ?ng) d) = gs @ [rowGroup_update (\<lambda>_. ?ng) last]"
    by (simp add: update_group_def list_update_append nth_append)
  then have "length (nodeGroups (handler_rollbackInsert undo_pk cap cgCap k 0 n ts (InMemoryVersionRecordHandler tbl) d)) \<le> k"
    using empty gs(2) by (auto simp: rollback_group_insert_def NodeGroupCollection_rollbackInsert_def Let_def split_beta
        getNumEmptyTrailingGroups_def removeTrailingGroups_def)
  moreover have "\<not> CSRNodeGroup_isEmpty (nodeGroups (update_group k f d) ! k)" for f
    using assms by (simp add: CSRNodeGroup_isEmpty_def update_group_def)
  ultimately show ?thesis by blast
qed

definition sample_rels :: "(nat, unit) TableData" where
  "sample_rels = sample_data\<lparr>nodeGroups := [\<lparr>rowGroup = NodeGroup_of_chunkedGroup 0 8 sample_rows, persistentChunkGroup = Some sample_rows\<rparr>]\<rparr>"

theorem rollback_drops_persistent_group_witness:
  "\<not> CSRNodeGroup_isEmpty (nodeGroups (update_group 0 (\<lambda>ng. snd (InMemoryVersionRecordHandler_rollbackInsert 2 4 0 2 0 ng)) sample_rels) ! 0) \<and>
    length (nodeGroups (handler_rollbackInsert (\<lambda>_ _ _ d. pkIndex d) 2 4 0 0 2 0 (InMemoryVersionRecordHandler 0) sample_rels)) \<le> 0"
  by (rule rollback_drops_persistent_group [where g = sample_rows]) (simp_all add: sample_rels_def)

end
