(* ===== verification/Write_Ahead_Log.thy ===== *)
theory Write_Ahead_Log
  imports WAL_Record
begin

text \<open>
  The write-ahead log as a file: checksums (\<^verbatim>\<open>common/checksum.cpp\<close>), the objects framed by them
  (\<^verbatim>\<open>storage/wal/checksum_writer.cpp\<close>, \<^verbatim>\<open>checksum_reader.cpp\<close>), the log of a transaction and its append
  to the log of the database (\<^verbatim>\<open>local_wal.cpp\<close>, \<^verbatim>\<open>wal.cpp\<close>), and what the replay after a restart reads
  from it (\<^verbatim>\<open>wal_replayer.cpp\<close>: the dry run, the records it hands to \<^verbatim>\<open>replayWALRecord\<close>, and the
  truncation). The streams are byte lists, as in the theory of the serializer; the buffering under
  them is the subject of the theory of buffered files.
\<close>

unbundle bit_operations_syntax

section \<open>Checksums\<close>

definition checksum_u64 :: "64 word \<Rightarrow> 64 word" where
  "checksum_u64 x = x * 0xbf58476d1ce4e5b9"

abbreviation checksum_M :: "64 word" where
  "checksum_M \<equiv> 0xc6a4a7935bd1e995"

fun hash_blocks :: "byte list \<Rightarrow> nat \<Rightarrow> 64 word \<Rightarrow> 64 word" where
  "hash_blocks data 0 h = h"
| "hash_blocks data (Suc n) h =
     (let k = word_of_bytes (take 8 data) * checksum_M;
          k = (k XOR drop_bit 47 k) * checksum_M
      in hash_blocks (drop 8 data) n ((h XOR k) * checksum_M))"

definition checksumRemainder :: "byte list \<Rightarrow> 64 word" where
  "checksumRemainder data =
     (let len = length data;
          h = hash_blocks data (len div 8) (0xe17a1465 XOR (of_nat len * checksum_M));
          data8 = drop (len div 8 * 8) data;
          h = fold (\<lambda>i h. h XOR push_bit (8 * i) (ucast (data8 ! i))) (rev [1..<len mod 8]) h;
          h = (if 0 < len mod 8 then (h XOR ucast (data8 ! 0)) * checksum_M else h);
          h = (h XOR drop_bit 47 h) * checksum_M
      in h XOR drop_bit 47 h)"

fun checksum_words :: "nat \<Rightarrow> byte list \<Rightarrow> 64 word \<Rightarrow> 64 word" where
  "checksum_words 0 data result = result"
| "checksum_words (Suc n) data result =
     checksum_words n (drop 8 data) (result XOR checksum_u64 (word_of_bytes (take 8 data)))"

definition checksum :: "byte list \<Rightarrow> 64 word" where
  "checksum data =
     (let n = length data div 8; result = checksum_words n data 5381
      in if 0 < length data - n * 8 then result XOR checksumRemainder (drop (n * 8) data) else result)"

section \<open>Objects with checksums\<close>

text \<open>
  A writer to the log: the bytes written and, with checksums, the object being written, which goes out
  with its checksum when it ends.
\<close>

record LogWriter =
  enableChecksums :: bool
  written :: "byte list"
  currentEntry :: "byte list option"

definition LogWriter_new :: "bool \<Rightarrow> byte list \<Rightarrow> LogWriter" where
  "LogWriter_new en f = \<lparr>enableChecksums = en, written = f, currentEntry = None\<rparr>"

definition LogWriter_write :: "byte list \<Rightarrow> LogWriter \<Rightarrow> LogWriter" where
  "LogWriter_write data w =
     (case currentEntry w of
        Some entry \<Rightarrow> w\<lparr>currentEntry := Some (entry @ data)\<rparr>
      | None \<Rightarrow> w\<lparr>written := written w @ data\<rparr>)"

definition writer_onObjectBegin :: "LogWriter \<Rightarrow> LogWriter" where
  "writer_onObjectBegin w = (if enableChecksums w then w\<lparr>currentEntry := Some []\<rparr> else w)"

definition writer_onObjectEnd :: "LogWriter \<Rightarrow> LogWriter" where
  "writer_onObjectEnd w =
     (if enableChecksums w
      then let entry = the (currentEntry w)
           in w\<lparr>written := written w @ entry @ serializeValue (checksum entry), currentEntry := None\<rparr>
      else w)"

definition LogWriter_getSize :: "LogWriter \<Rightarrow> nat" where
  "LogWriter_getSize w = (case currentEntry w of None \<Rightarrow> 0 | Some entry \<Rightarrow> length entry) + length (written w)"

definition LogWriter_clear :: "LogWriter \<Rightarrow> LogWriter" where
  "LogWriter_clear w = w\<lparr>written := [], currentEntry := None\<rparr>"

text \<open>
  Reading an object: the reader collects the bytes the deserializer takes, and compares their checksum
  with the stored one at the end of the object.
\<close>

definition read_object :: "bool \<Rightarrow> 'a reader \<Rightarrow> 'a reader" where
  "read_object en deser bs =
     Option.bind (deser bs) (\<lambda>(x, bs').
       if en then Option.bind (deserializeValue bs') (\<lambda>(storedChecksum, bs'').
              if storedChecksum = checksum (take (length bs - length bs') bs) then Some (x, bs'') else None)
       else Some (x, bs'))"

section \<open>Appending to the log\<close>

type_synonym uuid = "128 word"

definition addNewWALRecord :: "('x \<Rightarrow> byte list) \<Rightarrow> ('v \<Rightarrow> byte list) \<Rightarrow> ('x, 'v) WALRecord \<Rightarrow> LogWriter \<Rightarrow> LogWriter" where
  "addNewWALRecord serX serV r w =
     writer_onObjectEnd (LogWriter_write (WALRecord_serialize serX serV r) (writer_onObjectBegin w))"

definition writeHeader :: "uuid \<Rightarrow> LogWriter \<Rightarrow> LogWriter" where
  "writeHeader databaseID w = writer_onObjectEnd (LogWriter_write (serializeBool (enableChecksums w))
     (LogWriter_write (serializeValue databaseID) (writer_onObjectBegin w)))"

text \<open>
  The log of the database: its file, and the writer once it is open. The file of an in-memory database
  does not exist.
\<close>

record WAL =
  walFile :: "byte list"
  walWriter :: "LogWriter option"
  walChecksums :: bool
  inMemory :: bool

definition initWriter :: "uuid \<Rightarrow> WAL \<Rightarrow> WAL" where
  "initWriter databaseID wal =
     (case walWriter wal of
        Some _ \<Rightarrow> wal
      | None \<Rightarrow>
          let w = LogWriter_new (walChecksums wal) (walFile wal)
          in wal\<lparr>walWriter := Some (if walFile wal = [] then writeHeader databaseID w else w)\<rparr>)"

definition flushAndSyncNoLock :: "WAL \<Rightarrow> WAL" where
  "flushAndSyncNoLock wal = wal\<lparr>walFile := written (the (walWriter wal))\<rparr>"

text \<open>
  \<^verbatim>\<open>WAL::logCommittedWAL\<close>: the bytes of the log of a transaction, which are framed already, outside of
  any object.
\<close>

definition logCommittedWAL :: "uuid \<Rightarrow> LogWriter \<Rightarrow> WAL \<Rightarrow> WAL" where
  "logCommittedWAL databaseID localWAL wal =
     (if inMemory wal \<or> LogWriter_getSize localWAL = 0 then wal
      else let wal = initWriter databaseID wal
           in flushAndSyncNoLock (wal\<lparr>walWriter := Some (LogWriter_write (written localWAL) (the (walWriter wal)))\<rparr>))"

definition logAndFlushCheckpoint :: "('x \<Rightarrow> byte list) \<Rightarrow> ('v \<Rightarrow> byte list) \<Rightarrow> uuid \<Rightarrow> WAL \<Rightarrow> WAL" where
  "logAndFlushCheckpoint serX serV databaseID wal =
     (let wal = initWriter databaseID wal
      in flushAndSyncNoLock (wal\<lparr>walWriter := Some (addNewWALRecord serX serV CheckpointRecord (the (walWriter wal)))\<rparr>))"

definition WAL_clear :: "WAL \<Rightarrow> WAL" where
  "WAL_clear wal = wal\<lparr>walWriter := map_option LogWriter_clear (walWriter wal), walFile := []\<rparr>"

definition WAL_reset :: "WAL \<Rightarrow> WAL" where
  "WAL_reset wal = wal\<lparr>walWriter := None, walFile := []\<rparr>"

section \<open>Reading the log after a restart\<close>

definition readWALHeader :: "(uuid \<times> bool) reader" where
  "readWALHeader bs =
     Option.bind (deserializeValue bs) (\<lambda>(databaseID, bs).
     Option.bind (deserializeValue bs) (\<lambda>(enableChecksumsBytes :: 8 word, bs).
       Some ((databaseID, enableChecksumsBytes \<noteq> 0), bs)))"

text \<open>
  The loop of \<^verbatim>\<open>dryReplay\<close> on the bytes that are left of a file of \<open>fileSize\<close> bytes: whether it ended in
  an exception, the offset behind the last commit or checkpoint, and whether a checkpoint was found.
\<close>

partial_function (option) dry_loop :: "('x, 'v) WALRecord reader \<Rightarrow> nat \<Rightarrow> byte list \<Rightarrow> nat \<Rightarrow> (bool \<times> nat \<times> bool) option" where
  "dry_loop deserRecord fileSize bs offsetDeserialized =
     (if bs = [] then Some (False, offsetDeserialized, False)
      else case deserRecord bs of
             None \<Rightarrow> Some (True, offsetDeserialized, False)
           | Some (walRecord, rest) \<Rightarrow>
               if record_type walRecord = CHECKPOINT_RECORD then Some (False, fileSize - length rest, True)
               else dry_loop deserRecord fileSize rest
                      (if record_type walRecord = COMMIT_RECORD then fileSize - length rest else offsetDeserialized))"

declare dry_loop.simps [code]

definition dryReplay :: "('x, 'v) WALRecord reader \<Rightarrow> bool \<Rightarrow> bool \<Rightarrow> byte list \<Rightarrow> (exn + nat \<times> bool) option" where
  "dryReplay deserRecord throwOnWalReplayFailure en f =
     map_option (\<lambda>(failed, offset, isCheckpoint).
         if failed \<and> throwOnWalReplayFailure then Inl (RuntimeException ''Corrupted wal file'')
         else Inr (offset, isCheckpoint))
       (case read_object en readWALHeader f of
          None \<Rightarrow> Some (True, 0, False)
        | Some ((_, headerChecksums), bs) \<Rightarrow>
            if headerChecksums \<noteq> en then Some (True, 0, False)
            else dry_loop (read_object en deserRecord) (length f) bs 0)"

text \<open>The loop of \<^verbatim>\<open>replay\<close>: the records up to the offset, in the order they are replayed.\<close>

partial_function (option) replay_records :: "('x, 'v) WALRecord reader \<Rightarrow> nat \<Rightarrow> byte list \<Rightarrow> (exn + ('x, 'v) WALRecord list) option" where
  "replay_records deserRecord bytesLeft bs =
     (if length bs \<le> bytesLeft then Some (Inr [])
      else case deserRecord bs of
             None \<Rightarrow> Some (Inl (RuntimeException ''Corrupted wal file''))
           | Some (walRecord, rest) \<Rightarrow>
               Option.bind (replay_records deserRecord bytesLeft rest)
                 (\<lambda>result. Some (map_sum id (\<lambda>rs. walRecord # rs) result)))"

declare replay_records.simps [code]

text \<open>
  What \<^verbatim>\<open>WALReplayer::replay\<close> does with a log file: the shadow pages are replayed and the log removed, or
  the records are replayed and the log is cut to the last commit (of a read-only database nothing is
  removed or cut).
\<close>

datatype ('x, 'v) ReplayOutcome =
  CheckpointOnly (replayFile: "byte list option")
| ReplayShadowPages (replayFile: "byte list option")
| ReplayRecords (replayed: "('x, 'v) WALRecord list") (replayFile: "byte list option")

definition truncateWALFile :: "bool \<Rightarrow> nat \<Rightarrow> byte list \<Rightarrow> byte list" where
  "truncateWALFile readOnly sz f = (if \<not> readOnly \<and> sz < length f then take sz f else f)"

definition removeFile :: "bool \<Rightarrow> byte list \<Rightarrow> byte list option" where
  "removeFile readOnly f = (if readOnly then Some f else None)"

definition replay :: "('x, 'v) WALRecord reader \<Rightarrow> uuid \<Rightarrow> bool \<Rightarrow> bool \<Rightarrow> bool \<Rightarrow> byte list option \<Rightarrow>
    (exn + ('x, 'v) ReplayOutcome) option" where
  "replay deserRecord databaseID readOnly throwOnWalReplayFailure en wal =
     (case wal of
        None \<Rightarrow> Some (Inr (CheckpointOnly None))
      | Some f \<Rightarrow>
          if f = [] then Some (Inr (CheckpointOnly (removeFile readOnly f)))
          else Option.bind (dryReplay deserRecord throwOnWalReplayFailure en f) (\<lambda>result.
            case result of
              Inl e \<Rightarrow> Some (Inl e)
            | Inr (offset, isLastRecordCheckpoint) \<Rightarrow>
                if isLastRecordCheckpoint then Some (Inr (ReplayShadowPages (removeFile readOnly f)))
                else if offset = 0 then Some (Inr (ReplayRecords [] (Some (truncateWALFile readOnly 0 f))))
                else case read_object en readWALHeader f of
                       None \<Rightarrow> Some (Inl (RuntimeException ''Corrupted wal file''))
                     | Some ((headerID, _), bs) \<Rightarrow>
                         if headerID \<noteq> databaseID
                         then Some (Inl (RuntimeException ''Database ID does not match''))
                         else map_option (map_sum id (\<lambda>rs. ReplayRecords rs (Some (truncateWALFile readOnly offset f))))
                                (replay_records (read_object en deserRecord) (length f - offset) bs)))"

section \<open>Readers take what they need from the front\<close>

text \<open>
  A reader is incremental when bytes appended to its input stay unread: it decides on what it has
  read, so an input that is cut off is not read as something else.
\<close>

definition incremental :: "'a reader \<Rightarrow> bool" where
  "incremental deser \<longleftrightarrow> (\<forall>bs x rest post. deser bs = Some (x, rest) \<longrightarrow>
     deser (bs @ post) = Some (x, rest @ post) \<and> (\<exists>front. bs = front @ rest))"

named_theorems incremental_intros

lemma incrementalD:
  "incremental deser \<Longrightarrow> deser bs = Some (x, rest) \<Longrightarrow> deser (bs @ post) = Some (x, rest @ post)"
  by (simp add: incremental_def)

lemma incremental_front: "incremental deser \<Longrightarrow> deser bs = Some (x, rest) \<Longrightarrow> \<exists>front. bs = front @ rest"
  unfolding incremental_def by blast

lemma truncated_unread:
  assumes "incremental deser" "deser (p @ q @ post) = Some (x, post)" "q \<noteq> []"
  shows "deser p = None"
proof (cases "deser p")
  case (Some y)
  obtain z rest where y: "y = (z, rest)" by fastforce
  have "deser (p @ q @ post) = Some (z, rest @ q @ post)"
    using incrementalD [OF assms(1), of p z rest "q @ post"] Some y by simp
  then have "length post = length (rest @ q @ post)" using assms(2) by simp
  then show ?thesis using assms(3) by simp
qed simp

lemma incremental_return [incremental_intros]: "incremental (\<lambda>bs. Some (x, bs))"
  by (simp add: incremental_def)

lemma incremental_fail [incremental_intros]: "incremental (\<lambda>bs. None)"
  by (simp add: incremental_def)

lemma incremental_bind [incremental_intros]:
  assumes "incremental d" "\<And>x. incremental (f x)"
  shows "incremental (\<lambda>bs. Option.bind (d bs) (\<lambda>(x, bs). f x bs))"
  unfolding incremental_def
proof (intro allI impI)
  fix bs y rest post
  assume "Option.bind (d bs) (\<lambda>(x, bs). f x bs) = Some (y, rest)"
  then obtain x mid where d: "d bs = Some (x, mid)" and f: "f x mid = Some (y, rest)"
    by (auto simp: bind_eq_Some_conv)
  from incremental_front [OF assms(1) d] incremental_front [OF assms(2) f]
  obtain a b where "bs = a @ mid" "mid = b @ rest" by blast
  with incrementalD [OF assms(1) d] incrementalD [OF assms(2) f]
  show "Option.bind (d (bs @ post)) (\<lambda>(x, bs). f x bs) = Some (y, rest @ post) \<and> (\<exists>front. bs = front @ rest)"
    by (metis append.assoc bind.bind_lunit case_prod_conv)
qed

lemma incremental_map [incremental_intros]:
  assumes "incremental d"
  shows "incremental (\<lambda>bs. map_option (\<lambda>(x, bs). (f x, bs)) (d bs))"
proof -
  have "map_option (\<lambda>(x, bs). (f x, bs)) (d bs) = Option.bind (d bs) (\<lambda>(x, bs). Some (f x, bs))" for bs
    by (cases "d bs") auto
  then show ?thesis by (simp only:) (intro incremental_intros assms)
qed

lemma incremental_if [incremental_intros]:
  "incremental d \<Longrightarrow> incremental e \<Longrightarrow> incremental (\<lambda>bs. if c then d bs else e bs)"
  by (cases c) simp_all

lemma incremental_value [incremental_intros]: "incremental deserializeValue"
  unfolding incremental_def deserializeValue_def Let_def
  by (auto split: if_splits intro: exI [of _ "take n bs" for n bs]) (metis append_take_drop_id)

lemma incremental_bool [incremental_intros]: "incremental deserializeBool"
  unfolding incremental_def deserializeBool_def by (auto split: list.splits)

lemma incremental_take: "incremental (\<lambda>bs. if length bs < n then None else Some (f (take n bs), drop n bs))"
  unfolding incremental_def by (auto split: if_splits) (metis append_take_drop_id)

lemma incremental_string [incremental_intros]: "incremental deserializeString"
proof -
  have eq: "deserializeString = (\<lambda>bs. Option.bind (deserializeValue bs) (\<lambda>(n :: 64 word, bs).
      if length bs < unat n then None else Some (map (\<lambda>b. char_of (unat b)) (take (unat n) bs), drop (unat n) bs)))"
    by (rule ext) (simp add: deserializeString_def split: option.split)
  show ?thesis by (subst eq) (intro incremental_intros incremental_take)
qed

lemma incremental_array [incremental_intros]: "incremental d \<Longrightarrow> incremental (deserializeArray d n)"
proof (induction n)
  case 0
  have eq: "deserializeArray d 0 = (\<lambda>bs. Some ([], bs))" by (rule ext) simp
  show ?case by (subst eq) (intro incremental_intros)
next
  case (Suc n)
  have eq: "deserializeArray d (Suc n) = (\<lambda>bs. Option.bind (d bs) (\<lambda>(x, bs).
      Option.bind (deserializeArray d n bs) (\<lambda>(xs, bs). Some (x # xs, bs))))"
    by (rule ext) (simp split: option.split)
  from Suc show ?case by (subst eq) (intro incremental_intros Suc.IH)
qed

lemma incremental_vector [incremental_intros]:
  assumes "incremental d" shows "incremental (deserializeVector d)"
proof -
  have eq: "deserializeVector d = (\<lambda>bs. Option.bind (deserializeValue bs) (\<lambda>(n :: 64 word, bs). deserializeArray d (unat n) bs))"
    by (rule ext) (simp add: deserializeVector_def split: option.split)
  show ?thesis by (subst eq) (intro incremental_intros assms)
qed

lemma incremental_pair [incremental_intros]:
  assumes "incremental dk" "incremental dv" shows "incremental (deserializePair dk dv)"
proof -
  have eq: "deserializePair dk dv = (\<lambda>bs. Option.bind (dk bs) (\<lambda>(k, bs). Option.bind (dv bs) (\<lambda>(v, bs). Some ((k, v), bs))))"
    by (rule ext) (simp add: deserializePair_def split: option.split)
  show ?thesis by (subst eq) (intro incremental_intros assms)
qed

lemma incremental_mapping [incremental_intros]:
  assumes "incremental dk" "incremental dv" shows "incremental (deserializeMap dk dv)"
proof -
  have eq: "deserializeMap dk dv = (\<lambda>bs. Option.bind (deserializeValue bs) (\<lambda>(n :: 64 word, bs).
      Option.bind (deserializeArray (deserializePair dk dv) (unat n) bs) (\<lambda>(kvs, bs). Some (fold emplace kvs [], bs))))"
    by (rule ext) (simp add: deserializeMap_def split: option.split)
  show ?thesis by (subst eq) (intro incremental_intros assms)
qed

lemma incremental_enum [incremental_intros]: "incremental (deserializeEnum code es)"
proof -
  have eq: "deserializeEnum code es = (\<lambda>bs. Option.bind (deserializeValue bs)
      (\<lambda>(b, bs). case decode_enum code es b of None \<Rightarrow> None | Some e \<Rightarrow> Some (e, bs)))"
    by (rule ext) (auto simp: deserializeEnum_def intro!: Option.bind_cong split: option.split)
  have "incremental (\<lambda>bs. case decode_enum code es b of None \<Rightarrow> None | Some e \<Rightarrow> Some (e, bs))" for b
    by (cases "decode_enum code es b") (simp_all add: incremental_intros)
  then show ?thesis by (subst eq) (intro incremental_intros)
qed

section \<open>The readers of the log are incremental\<close>

lemma incremental_property [incremental_intros]:
  assumes "incremental d" shows "incremental (deserializePropertyDefinition d)"
proof -
  have eq: "deserializePropertyDefinition d = (\<lambda>bs. Option.bind (deserializeString bs) (\<lambda>(name, bs).
      map_option (\<lambda>(d, bs). (\<lparr>propName = name, propDef = d\<rparr>, bs)) (d bs)))"
    by (rule ext) (simp add: deserializePropertyDefinition_def split: option.split)
  show ?thesis by (subst eq) (intro incremental_intros assms)
qed

lemma incremental_schema [incremental_intros]: "incremental d \<Longrightarrow> incremental (pc_deserialize d)"
  unfolding pc_deserialize_def [abs_def] by (intro incremental_intros)

lemma incremental_sequence [incremental_intros]: "incremental SequenceData_deserialize"
  unfolding SequenceData_deserialize_def [abs_def] deserializeInt64_def [abs_def] by (intro incremental_intros)

lemma incremental_rel_group [incremental_intros]: "incremental RelGroup_deserialize"
  unfolding RelGroup_deserialize_def [abs_def] RelTableCatalogInfo_deserialize_def [abs_def]
    NodeTableIDPair_deserialize_def [abs_def] by (intro incremental_intros)

lemma incremental_body [incremental_intros]: "incremental d \<Longrightarrow> incremental (EntryBody_deserialize d t)"
  unfolding EntryBody_deserialize_def [abs_def] by (cases t; simp only: CatalogEntryType.case; intro incremental_intros)

lemma incremental_entry [incremental_intros]: "incremental d \<Longrightarrow> incremental (CatalogEntry_deserialize addr d)"
  unfolding CatalogEntry_deserialize_def [abs_def] by (intro incremental_intros)

lemma incremental_extra [incremental_intros]: "incremental d \<Longrightarrow> incremental (deserializeExtra d t)"
  unfolding deserializeExtra_def [abs_def] by (cases t; simp only: AlterType.case; intro incremental_intros)

lemma incremental_alter [incremental_intros]: "incremental d \<Longrightarrow> incremental (deserializeAlterRecord d)"
  unfolding deserializeAlterRecord_def [abs_def] by (intro incremental_intros)

lemma incremental_record_body [incremental_intros]:
  assumes "incremental dx" "incremental dv"
  shows "incremental (WALRecord_body addr dx dv t)"
  using assms
  unfolding WALRecord_body_def [abs_def] TableInsertionRecord_deserialize_def [abs_def] NodeRecord_deserialize_def [abs_def]
    RelDeletionRecord_deserialize_def [abs_def] RelDetachDeleteRecord_deserialize_def [abs_def]
    RelUpdateRecord_deserialize_def [abs_def]
  by (cases t; simp only: WALRecordType.case; intro incremental_intros)

lemma incremental_record [incremental_intros]:
  "incremental dx \<Longrightarrow> incremental dv \<Longrightarrow> incremental (WALRecord_deserialize addr dx dv)"
  unfolding WALRecord_deserialize_def [abs_def] by (intro incremental_intros)

section \<open>Framed objects\<close>

definition frame :: "bool \<Rightarrow> byte list \<Rightarrow> byte list" where
  "frame en bs = bs @ (if en then serializeValue (checksum bs) else [])"

lemma frame_not_Nil: "bs \<noteq> [] \<Longrightarrow> frame en bs \<noteq> []"
  by (simp add: frame_def)

lemma addNewWALRecord_frame:
  assumes "currentEntry w = None"
  shows "addNewWALRecord serX serV r w = w\<lparr>written := written w @ frame (enableChecksums w) (WALRecord_serialize serX serV r)\<rparr>"
  using assms by (cases w) (simp add: addNewWALRecord_def writer_onObjectEnd_def writer_onObjectBegin_def
      LogWriter_write_def frame_def Let_def)

lemma writeHeader_frame:
  assumes "currentEntry w = None"
  shows "writeHeader databaseID w = w\<lparr>written := written w @
    frame (enableChecksums w) (serializeValue databaseID @ serializeBool (enableChecksums w))\<rparr>"
  using assms by (cases w) (simp add: writeHeader_def writer_onObjectEnd_def writer_onObjectBegin_def
      LogWriter_write_def frame_def Let_def)

lemma incremental_read_object [incremental_intros]:
  assumes "incremental d"
  shows "incremental (read_object en d)"
  unfolding incremental_def
proof (intro allI impI)
  fix bs x rest post
  assume r: "read_object en d bs = Some (x, rest)"
  then obtain mid where d: "d bs = Some (x, mid)" by (auto simp: read_object_def bind_eq_Some_conv split: if_splits)
  from incremental_front [OF assms d] obtain front where front: "bs = front @ mid" by blast
  note dp = incrementalD [OF assms d, of post]
  show "read_object en d (bs @ post) = Some (x, rest @ post) \<and> (\<exists>front. bs = front @ rest)"
  proof (cases en)
    case True
    with r d obtain c where c: "deserializeValue mid = Some (c, rest)" "c = checksum front"
      by (auto simp: read_object_def bind_eq_Some_conv front split: if_splits)
    from incrementalD [OF incremental_value c(1)] incremental_front [OF incremental_value c(1)] dp c(2) True front
    show ?thesis by (auto simp: read_object_def)
  qed (use r d dp front in \<open>auto simp: read_object_def\<close>)
qed

lemma read_frame:
  assumes "\<And>rest. d (bs @ rest) = Some (x, rest)"
  shows "read_object en d (frame en bs @ rest) = Some (x, rest)"
  by (simp add: read_object_def frame_def assms u64_codec.roundtrip)

lemma header_read:
  "read_object en readWALHeader (frame en (serializeValue databaseID @ serializeBool b) @ rest) = Some ((databaseID, b), rest)"
proof (rule read_frame)
  have "deserializeValue (serializeBool b @ r) = Some (if b then 1 else 0 :: 8 word, r)" for r
  proof -
    have "serializeValue w = [w]" for w :: "8 word" by (simp add: serializeValue_def)
    then have "serializeBool b = serializeValue (if b then 1 else 0 :: 8 word)" by (simp add: serializeBool_def)
    then show ?thesis by (simp add: u8_codec.roundtrip)
  qed
  then show "readWALHeader ((serializeValue databaseID @ serializeBool b) @ r) = Some ((databaseID, b), r)" for r
    by (simp add: readWALHeader_def deserializeValue_serializeValue)
qed

lemma incremental_header: "incremental (read_object en readWALHeader)"
  unfolding readWALHeader_def [abs_def] by (intro incremental_intros)

section \<open>Logs of committed transactions\<close>

text \<open>The log of a transaction, and the log file after the transactions have committed one after another.\<close>

definition localWAL_of :: "('x \<Rightarrow> byte list) \<Rightarrow> ('v \<Rightarrow> byte list) \<Rightarrow> bool \<Rightarrow> ('x, 'v) WALRecord list \<Rightarrow> LogWriter" where
  "localWAL_of serX serV en rs = fold (addNewWALRecord serX serV) rs (LogWriter_new en [])"

definition WAL_new :: "bool \<Rightarrow> WAL" where
  "WAL_new en = \<lparr>walFile = [], walWriter = None, walChecksums = en, inMemory = False\<rparr>"

definition commit_all :: "('x \<Rightarrow> byte list) \<Rightarrow> ('v \<Rightarrow> byte list) \<Rightarrow> uuid \<Rightarrow> bool \<Rightarrow> ('x, 'v) WALRecord list list \<Rightarrow> WAL" where
  "commit_all serX serV databaseID en txs =
     fold (\<lambda>rs. logCommittedWAL databaseID (localWAL_of serX serV en rs)) txs (WAL_new en)"

definition record_bytes :: "('x \<Rightarrow> byte list) \<Rightarrow> ('v \<Rightarrow> byte list) \<Rightarrow> bool \<Rightarrow> ('x, 'v) WALRecord list \<Rightarrow> byte list" where
  "record_bytes serX serV en rs = concat (map (\<lambda>r. frame en (WALRecord_serialize serX serV r)) rs)"

text \<open>A transaction that was logged: its last record is its commit.\<close>

definition logged_transaction :: "('x, 'v) WALRecord list \<Rightarrow> bool" where
  "logged_transaction rs \<longleftrightarrow> rs \<noteq> [] \<and> last rs = CommitRecord \<and>
     list_all (\<lambda>r. r \<noteq> CommitRecord \<and> r \<noteq> CheckpointRecord) (butlast rs)"

lemma record_bytes_Nil [simp]: "record_bytes serX serV en [] = []"
  by (simp add: record_bytes_def)

lemma record_bytes_Cons: "record_bytes serX serV en (r # rs) = frame en (WALRecord_serialize serX serV r) @ record_bytes serX serV en rs"
  by (simp add: record_bytes_def)

lemma localWAL_of_bytes: "localWAL_of serX serV en rs = LogWriter_new en (record_bytes serX serV en rs)"
proof -
  have "fold (addNewWALRecord serX serV) rs (LogWriter_new en bs) = LogWriter_new en (bs @ record_bytes serX serV en rs)" for bs
    by (induction rs arbitrary: bs) (simp_all add: record_bytes_Cons addNewWALRecord_frame LogWriter_new_def)
  from this [of "[]"] show ?thesis by (simp add: localWAL_of_def)
qed

lemma record_bytes_not_Nil: "rs \<noteq> [] \<Longrightarrow> record_bytes serX serV en rs \<noteq> []"
proof (cases rs)
  case (Cons r rs')
  have "length (WALRecord_serialize serX serV r) \<noteq> 0" by (simp add: WALRecord_serialize_def)
  then show ?thesis by (simp add: Cons record_bytes_Cons frame_def)
qed simp

abbreviation log_header :: "uuid \<Rightarrow> bool \<Rightarrow> byte list" where
  "log_header databaseID en \<equiv> frame en (serializeValue databaseID @ serializeBool en)"

lemma commit_all_file:
  assumes "list_all logged_transaction txs" "txs \<noteq> []"
  shows "walFile (commit_all serX serV databaseID en txs) = log_header databaseID en @ record_bytes serX serV en (concat txs)"
proof -
  let ?step = "\<lambda>rs. logCommittedWAL databaseID (localWAL_of serX serV en rs)"
  have later: "fold ?step txs \<lparr>walFile = f, walWriter = Some (LogWriter_new en f), walChecksums = en, inMemory = False\<rparr> =
      \<lparr>walFile = f @ record_bytes serX serV en (concat txs), walWriter = Some (LogWriter_new en (f @ record_bytes serX serV en (concat txs))),
       walChecksums = en, inMemory = False\<rparr>" if "list_all logged_transaction txs" for f txs
    using that
  proof (induction txs arbitrary: f)
    case (Cons rs txs)
    then have "record_bytes serX serV en rs \<noteq> []" by (intro record_bytes_not_Nil) (simp add: logged_transaction_def)
    then have "?step rs \<lparr>walFile = f, walWriter = Some (LogWriter_new en f), walChecksums = en, inMemory = False\<rparr> =
        \<lparr>walFile = f @ record_bytes serX serV en rs, walWriter = Some (LogWriter_new en (f @ record_bytes serX serV en rs)),
         walChecksums = en, inMemory = False\<rparr>"
      by (simp add: logCommittedWAL_def localWAL_of_bytes LogWriter_getSize_def LogWriter_new_def initWriter_def Let_def
          flushAndSyncNoLock_def LogWriter_write_def)
    with Cons show ?case by (simp add: record_bytes_def)
  qed (simp add: record_bytes_def)
  obtain rs txs' where txs: "txs = rs # txs'" using assms(2) by (cases txs) auto
  then have "record_bytes serX serV en rs \<noteq> []" using assms(1) by (intro record_bytes_not_Nil) (simp add: logged_transaction_def)
  then have "?step rs (WAL_new en) =
      (let f = log_header databaseID en @ record_bytes serX serV en rs in
       \<lparr>walFile = f, walWriter = Some (LogWriter_new en f), walChecksums = en, inMemory = False\<rparr>)"
    by (simp add: WAL_new_def logCommittedWAL_def localWAL_of_bytes LogWriter_getSize_def LogWriter_new_def initWriter_def Let_def
        flushAndSyncNoLock_def LogWriter_write_def writeHeader_frame)
  with assms(1) show ?thesis by (simp add: txs commit_all_def Let_def later) (simp add: record_bytes_def)
qed

section \<open>What the replay finds\<close>

text \<open>A log file that is cut off: complete records, then the beginning of one.\<close>

lemma cut_concat:
  assumes "concat (map f xs) = p @ q" "q \<noteq> []"
  shows "\<exists>i a b. i < length xs \<and> p = concat (map f (take i xs)) @ a \<and> f (xs ! i) = a @ b \<and> b \<noteq> []"
  using assms
proof (induction xs arbitrary: p)
  case (Cons x xs)
  from Cons.prems(1) have "f x @ concat (map f xs) = p @ q" by simp
  then consider (inside) b where "f x = p @ b" "b \<noteq> []" | (behind) p' where "p = f x @ p'" "concat (map f xs) = p' @ q"
    by (auto simp: append_eq_append_conv2) blast
  then show ?case
  proof cases
    case inside
    then show ?thesis by (intro exI [of _ 0] exI [of _ p] exI [of _ b]) simp
  next
    case behind
    from Cons.IH [OF behind(2) Cons.prems(2)] obtain i a b
      where "i < length xs" "p' = concat (map f (take i xs)) @ a" "f (xs ! i) = a @ b" "b \<noteq> []" by blast
    with behind(1) show ?thesis by (intro exI [of _ "Suc i"] exI [of _ a] exI [of _ b]) simp
  qed
qed simp

text \<open>What is promised of the readers and writers of the contents that are not modelled.\<close>

locale log_format =
  fixes serX :: "'x \<Rightarrow> byte list" and deserX :: "'x reader" and validX :: "'x \<Rightarrow> bool"
    and serV :: "'v \<Rightarrow> byte list" and deserV :: "'v reader" and validV :: "'v \<Rightarrow> bool"
  assumes codecX: "codec serX deserX validX" and codecV: "codec serV deserV validV"
    and incrementalX: "incremental deserX" and incrementalV: "incremental deserV"
begin

abbreviation "rd addr en \<equiv> read_object en (WALRecord_deserialize addr deserX deserV)"

lemma record_frame_read:
  assumes "record_fits validX validV r"
  obtains r' where "same_record r r'"
    "\<And>rest. rd addr en (frame en (WALRecord_serialize serX serV r) @ rest) = Some (r', rest)"
proof -
  from record_read [OF codecX codecV assms, of addr "[]"] obtain r'
    where r': "WALRecord_deserialize addr deserX deserV (WALRecord_serialize serX serV r) = Some (r', [])" "same_record r r'"
    by auto
  have "WALRecord_deserialize addr deserX deserV (WALRecord_serialize serX serV r @ rest) = Some (r', rest)" for rest
    using incrementalD [OF incremental_record [OF incrementalX incrementalV] r'(1)] by simp
  from that [OF r'(2) read_frame [OF this]] show ?thesis .
qed

lemma same_record_type: "same_record r r' \<Longrightarrow> record_type r' = record_type r"
  by (cases r) auto

lemma record_type_Commit: "record_type r = COMMIT_RECORD \<longleftrightarrow> r = CommitRecord"
  "record_type r = CHECKPOINT_RECORD \<longleftrightarrow> r = CheckpointRecord"
  by (cases r; simp)+

lemma dry_loop_body:
  assumes "list_all (record_fits validX validV) rs" "list_all (\<lambda>r. r \<noteq> CommitRecord \<and> r \<noteq> CheckpointRecord) rs"
  shows "dry_loop (rd addr en) n (record_bytes serX serV en rs @ t) off = dry_loop (rd addr en) n t off"
  using assms
proof (induction rs)
  case (Cons r rs)
  from record_frame_read [of r] Cons.prems obtain r'
    where r': "same_record r r'" "\<And>rest. rd addr en (frame en (WALRecord_serialize serX serV r) @ rest) = Some (r', rest)"
    by auto
  have "frame en (WALRecord_serialize serX serV r) \<noteq> []"
    using record_bytes_not_Nil [of "[r]" serX serV en] by (simp add: record_bytes_def)
  moreover have "record_type r' \<noteq> COMMIT_RECORD" "record_type r' \<noteq> CHECKPOINT_RECORD"
    using Cons.prems(2) by (simp_all add: same_record_type [OF r'(1)] record_type_Commit)
  ultimately show ?case using Cons r'(2)
    by (subst dry_loop.simps) (simp add: record_bytes_Cons)
qed (simp add: record_bytes_def)

lemma dry_loop_transaction:
  assumes "list_all (record_fits validX validV) rs" "logged_transaction rs"
  shows "dry_loop (rd addr en) n (record_bytes serX serV en rs @ t) off = dry_loop (rd addr en) n t (n - length t)"
proof -
  have rs: "rs = butlast rs @ [CommitRecord]" using assms(2) append_butlast_last_id by (fastforce simp: logged_transaction_def)
  have "record_bytes serX serV en rs = record_bytes serX serV en (butlast rs) @ frame en (WALRecord_serialize serX serV CommitRecord)"
    by (subst rs) (simp add: record_bytes_def)
  moreover have "list_all (record_fits validX validV) (butlast rs)"
    using assms(1) by (auto simp: list_all_iff dest: in_set_butlastD)
  ultimately have "dry_loop (rd addr en) n (record_bytes serX serV en rs @ t) off =
      dry_loop (rd addr en) n (frame en (WALRecord_serialize serX serV CommitRecord) @ t) off"
    using assms(2) dry_loop_body [of "butlast rs"] by (simp add: logged_transaction_def)
  also from record_frame_read [of CommitRecord] obtain r'
    where r': "same_record CommitRecord r'" "\<And>rest. rd addr en (frame en (WALRecord_serialize serX serV CommitRecord) @ rest) = Some (r', rest)"
    by auto
  have "frame en (WALRecord_serialize serX serV CommitRecord) \<noteq> []"
    using record_bytes_not_Nil [of "[CommitRecord]" serX serV en] by (simp add: record_bytes_def)
  with r' have "dry_loop (rd addr en) n (frame en (WALRecord_serialize serX serV CommitRecord) @ t) off =
      dry_loop (rd addr en) n t (n - length t)"
    by (subst dry_loop.simps) simp
  finally show ?thesis .
qed

lemma dry_loop_transactions:
  assumes "list_all (list_all (record_fits validX validV)) txs" "list_all logged_transaction txs"
  shows "dry_loop (rd addr en) n (record_bytes serX serV en (concat txs) @ t) off =
    dry_loop (rd addr en) n t (if txs = [] then off else n - length t)"
  using assms
proof (induction txs arbitrary: off)
  case (Cons rs txs)
  have "record_bytes serX serV en (concat (rs # txs)) = record_bytes serX serV en rs @ record_bytes serX serV en (concat txs)"
    by (simp add: record_bytes_def)
  with Cons show ?case by (simp add: dry_loop_transaction)
qed (simp add: record_bytes_def)

lemma dry_loop_cut:
  assumes "list_all (record_fits validX validV) rs" "logged_transaction rs" "record_bytes serX serV en rs = p @ q" "q \<noteq> []"
  shows "\<exists>failed. dry_loop (rd addr en) n p off = Some (failed, off, False)"
proof -
  from cut_concat [OF assms(3) [unfolded record_bytes_def] assms(4)] obtain i a b
    where i: "i < length rs" "p = record_bytes serX serV en (take i rs) @ a"
      and ab: "frame en (WALRecord_serialize serX serV (rs ! i)) = a @ b" "b \<noteq> []"
    unfolding record_bytes_def by blast
  have "take i rs = take i (butlast rs)" using i(1) by (simp add: butlast_conv_take)
  then have "list_all (\<lambda>r. r \<noteq> CommitRecord \<and> r \<noteq> CheckpointRecord) (take i rs)"
    using assms(2) by (auto simp: logged_transaction_def list_all_iff dest: in_set_takeD)
  moreover have "list_all (record_fits validX validV) (take i rs)" "record_fits validX validV (rs ! i)"
    using assms(1) i(1) by (auto simp: list_all_iff dest: in_set_takeD)
  ultimately have loop: "dry_loop (rd addr en) n p off = dry_loop (rd addr en) n a off"
    unfolding i(2) by (intro dry_loop_body)
  from record_frame_read [OF \<open>record_fits validX validV (rs ! i)\<close>, where addr = addr and en = en] obtain r'
    where "rd addr en (a @ b @ []) = Some (r', [])" using ab(1) by (metis append_Nil2)
  from truncated_unread [OF incremental_read_object [OF incremental_record [OF incrementalX incrementalV]] this ab(2)]
  have "rd addr en a = None" .
  then show ?thesis unfolding loop by (subst dry_loop.simps) auto
qed

lemma replay_records_read:
  assumes "list_all (record_fits validX validV) rs" "length t = left"
  shows "\<exists>rs'. replay_records (rd addr en) left (record_bytes serX serV en rs @ t) = Some (Inr rs') \<and> list_all2 same_record rs rs'"
  using assms(1)
proof (induction rs)
  case (Cons r rs)
  from record_frame_read [of r] Cons.prems obtain r'
    where r': "same_record r r'" "\<And>rest. rd addr en (frame en (WALRecord_serialize serX serV r) @ rest) = Some (r', rest)"
    by auto
  from Cons obtain rs' where "replay_records (rd addr en) left (record_bytes serX serV en rs @ t) = Some (Inr rs')"
    "list_all2 same_record rs rs'" by auto
  moreover have "record_bytes serX serV en (r # rs) \<noteq> []" by (rule record_bytes_not_Nil) simp
  ultimately show ?case using r' assms(2)
    by (intro exI [of _ "r' # rs'"], subst replay_records.simps) (simp add: record_bytes_Cons)
qed (use assms(2) in \<open>simp add: record_bytes_def replay_records.simps\<close>)

lemma replay_cut_log:
  fixes databaseID :: uuid
  assumes fits: "list_all (list_all (record_fits validX validV)) (txs @ [rs])"
    and logged: "list_all logged_transaction (txs @ [rs])"
    and rs: "record_bytes serX serV en rs = p @ q" "q \<noteq> []" and txs: "txs \<noteq> []"
  defines "logged_bytes \<equiv> log_header databaseID en @ record_bytes serX serV en (concat txs)"
  shows "\<exists>rs'. replay (WALRecord_deserialize addr deserX deserV) databaseID False False en (Some (logged_bytes @ p)) =
      Some (Inr (ReplayRecords rs' (Some logged_bytes))) \<and> list_all2 same_record (concat txs) rs'"
proof -
  have f: "list_all (list_all (record_fits validX validV)) txs" "list_all (record_fits validX validV) rs"
    "list_all logged_transaction txs" "logged_transaction rs" using fits logged by simp_all
  from dry_loop_cut [OF f(2,4) rs] obtain failed
    where "dry_loop (rd addr en) (length (logged_bytes @ p)) (record_bytes serX serV en (concat txs) @ p) 0 = Some (failed, length logged_bytes, False)"
    using dry_loop_transactions [OF f(1,3)] txs by fastforce
  then have dry: "dryReplay (WALRecord_deserialize addr deserX deserV) False en (logged_bytes @ p) = Some (Inr (length logged_bytes, False))"
    by (simp add: dryReplay_def logged_bytes_def header_read)
  have "list_all (record_fits validX validV) (concat txs)" using f(1) by (induction txs) simp_all
  from replay_records_read [OF this, where t = p and left = "length p" and addr = addr and en = en] obtain rs'
    where "replay_records (rd addr en) (length p) (record_bytes serX serV en (concat txs) @ p) = Some (Inr rs')"
      "list_all2 same_record (concat txs) rs'" by blast
  moreover have "logged_bytes \<noteq> []" by (simp add: logged_bytes_def frame_def serializeBool_def)
  moreover have "truncateWALFile False (length logged_bytes) (logged_bytes @ p) = logged_bytes" by (simp add: truncateWALFile_def)
  ultimately show ?thesis using header_read [of en databaseID en]
    by (simp add: replay_def dry) (simp add: logged_bytes_def)
qed

lemma replay_cut_first:
  assumes fits: "list_all (record_fits validX validV) rs" and logged: "logged_transaction rs"
    and cut: "log_header databaseID en @ record_bytes serX serV en rs = p @ q" "q \<noteq> []" "p \<noteq> []"
  shows "replay (WALRecord_deserialize addr deserX deserV) databaseID False False en (Some p) =
      Some (Inr (ReplayRecords [] (Some [])))"
proof -
  have "\<exists>failed. (case read_object en readWALHeader p of
      None \<Rightarrow> Some (True, 0, False)
    | Some ((_, headerChecksums), bs) \<Rightarrow> if headerChecksums \<noteq> en then Some (True, 0, False)
        else dry_loop (rd addr en) (length p) bs 0) = Some (failed, 0, False)"
  proof -
    from cut(1) consider (header) b where "log_header databaseID en = p @ b" "b \<noteq> []" |
      (records) a where "p = log_header databaseID en @ a" "record_bytes serX serV en rs = a @ q"
      by (auto simp: append_eq_append_conv2) blast
    then show ?thesis
    proof cases
      case header
      have "read_object en readWALHeader (p @ b @ []) = Some ((databaseID, en), [])"
        using header_read [of en databaseID en "[]"] header(1) by simp
      from truncated_unread [OF incremental_header this header(2)] show ?thesis by auto
    next
      case records
      from dry_loop_cut [OF fits logged records(2) cut(2)] show ?thesis by (simp add: records(1) header_read)
    qed
  qed
  then have "dryReplay (WALRecord_deserialize addr deserX deserV) False en p = Some (Inr (0, False))"
    by (auto simp: dryReplay_def)
  with cut(3) show ?thesis by (simp add: replay_def truncateWALFile_def)
qed

end

section \<open>Properties\<close>

fun recovered :: "('x, 'v) ReplayOutcome \<Rightarrow> ('x, 'v) WALRecord list" where
  "recovered (ReplayRecords rs _) = rs"
| "recovered _ = []"


interpretation string_log: log_format serializeString deserializeString fits_u64 serializeString deserializeString fits_u64
  by unfold_locales (simp_all add: string_codec.codec_axioms incremental_string)


text \<open>
  A log written with checksums that is opened with checksums off and without \<^verbatim>\<open>throwOnWalReplayFailure\<close>
  is not refused: the exception of the header check ends the dry run, nothing is replayed, and the log
  is cut to length zero.
\<close>

lemma wrong_setting_drops_log:
  "replay deserRecord databaseID False False False (Some (log_header databaseID True @ records)) =
     Some (Inr (ReplayRecords [] (Some [])))"
proof -
  have "log_header databaseID True @ records =
      (serializeValue databaseID @ serializeBool True) @
        serializeValue (checksum (serializeValue databaseID @ serializeBool True)) @ records"
    by (simp add: frame_def)
  then have "read_object False readWALHeader (log_header databaseID True @ records) =
      Some ((databaseID, True), serializeValue (checksum (serializeValue databaseID @ serializeBool True)) @ records)"
    using header_read [of False databaseID True] by (simp add: frame_def)
  moreover have "log_header databaseID True \<noteq> []" by (simp add: frame_def serializeBool_def)
  ultimately show ?thesis by (simp add: replay_def dryReplay_def truncateWALFile_def)
qed

end
