(* ===== verification/Transaction_Manager.thy ===== *)
theory Transaction_Manager
  imports Undo_Commit Write_Ahead_Log
begin

text \<open>
  The transaction manager (\<^verbatim>\<open>transaction/transaction_manager.cpp\<close>), the commit and rollback of a transaction
  (\<^verbatim>\<open>transaction.cpp\<close>), the transaction of a connection (\<^verbatim>\<open>transaction_context.cpp\<close>) and the execution
  of a statement in it (\<^verbatim>\<open>ClientContext::TransactionHelper\<close>). Every public function of the manager holds
  its mutex from the first to the last line, so a call is one step. A transaction is
  named by its identifier. The local storage of a transaction and the pages written by a checkpoint
  are not modelled; what they do to the database is given by the fields of an environment.
\<close>

section \<open>Configuration and environment\<close>

record DBConfig =
  cfgInMemory :: bool
  enableMultiWrites :: bool
  autoCheckpoint :: bool
  checkpointThreshold :: nat
  databaseID :: uuid

text \<open>
  \<open>localCommit\<close> and \<open>localRollback\<close> stand for \<^verbatim>\<open>LocalStorage::commit\<close> and \<^verbatim>\<open>rollback\<close>, \<open>writeStorage\<close> for
  the part of a checkpoint that writes tables, catalog, metadata and header, \<open>undoStorage\<close> for its
  rollback.
\<close>

record ('x, 'v, 'c, 'i) Environment =
  serX :: "'x \<Rightarrow> byte list"
  serV :: "'v \<Rightarrow> byte list"
  vectorCap :: nat
  groupCap :: nat
  undoPK :: "nat \<Rightarrow> nat \<Rightarrow> nat \<Rightarrow> ('c, 'i) TableData \<Rightarrow> 'i"
  localCommit :: "('x, 'v) ActiveTransaction \<times> ('c, 'i, 'x) Database \<Rightarrow>
    exn option \<times> ('x, 'v) ActiveTransaction \<times> ('c, 'i, 'x) Database"
  localRollback :: "('x, 'v) ActiveTransaction \<Rightarrow> ('c, 'i, 'x) Database \<Rightarrow> ('c, 'i, 'x) Database"
  writeStorage :: "('c, 'i, 'x) Database \<Rightarrow> exn option \<times> ('c, 'i, 'x) Database"
  undoStorage :: "('c, 'i, 'x) Database \<Rightarrow> ('c, 'i, 'x) Database"

section \<open>The manager\<close>

record ('x, 'v, 'c, 'i) TransactionManager =
  activeTransactions :: "('x, 'v) ActiveTransaction list"
  lastTransactionID :: transaction_t
  lastTimestamp :: transaction_t
  checkpointWaitTimeoutInMicros :: "64 word"
  wal :: WAL
  database :: "('c, 'i, 'x) Database"

definition THREAD_SLEEP_TIME_WHEN_WAITING_IN_MICROS :: "64 word" where
  "THREAD_SLEEP_TIME_WHEN_WAITING_IN_MICROS = 500"

definition DEFAULT_CHECKPOINT_WAIT_TIMEOUT_IN_MICROS :: "64 word" where
  "DEFAULT_CHECKPOINT_WAIT_TIMEOUT_IN_MICROS = 5000000"

definition TransactionManager_new :: "WAL \<Rightarrow> ('c, 'i, 'x) Database \<Rightarrow> ('x, 'v, 'c, 'i) TransactionManager" where
  "TransactionManager_new w db =
     \<lparr>activeTransactions = [], lastTransactionID = START_TRANSACTION_ID, lastTimestamp = 1,
      checkpointWaitTimeoutInMicros = DEFAULT_CHECKPOINT_WAIT_TIMEOUT_IN_MICROS, wal = w, database = db\<rparr>"

definition isWriteTransaction :: "('x, 'v) ActiveTransaction \<Rightarrow> bool" where
  "isWriteTransaction t \<longleftrightarrow> txnType t = WRITE"

definition hasNoActiveTransactions :: "('x, 'v, 'c, 'i) TransactionManager \<Rightarrow> bool" where
  "hasNoActiveTransactions m \<longleftrightarrow> activeTransactions m = []"

definition hasActiveWriteTransactionNoLock :: "('x, 'v, 'c, 'i) TransactionManager \<Rightarrow> bool" where
  "hasActiveWriteTransactionNoLock m \<longleftrightarrow> list_ex isWriteTransaction (activeTransactions m)"

definition clearTransactionNoLock :: "transaction_t \<Rightarrow> ('x, 'v, 'c, 'i) TransactionManager \<Rightarrow> ('x, 'v, 'c, 'i) TransactionManager" where
  "clearTransactionNoLock i m = m\<lparr>activeTransactions := filter (\<lambda>t. txnID t \<noteq> i) (activeTransactions m)\<rparr>"

text \<open>The transaction a pointer leads to, and a change of it in place.\<close>

definition find_transaction :: "transaction_t \<Rightarrow> ('x, 'v, 'c, 'i) TransactionManager \<Rightarrow> ('x, 'v) ActiveTransaction option" where
  "find_transaction i m = List.find (\<lambda>t. txnID t = i) (activeTransactions m)"

definition put_transaction :: "('x, 'v) ActiveTransaction \<Rightarrow> ('x, 'v, 'c, 'i) TransactionManager \<Rightarrow> ('x, 'v, 'c, 'i) TransactionManager" where
  "put_transaction t m = m\<lparr>activeTransactions := map (\<lambda>u. if txnID u = txnID t then t else u) (activeTransactions m)\<rparr>"

definition beginTransaction :: "DBConfig \<Rightarrow> TransactionType \<Rightarrow> ('x, 'v, 'c, 'i) TransactionManager \<Rightarrow>
    (exn + transaction_t) \<times> ('x, 'v, 'c, 'i) TransactionManager" where
  "beginTransaction cfg type m =
     (let i = lastTransactionID m + 1; t = Transaction_new (cfgInMemory cfg) type i (lastTimestamp m)
      in case type of
           READ_ONLY \<Rightarrow> (Inr i, m\<lparr>lastTransactionID := i, activeTransactions := activeTransactions m @ [t]\<rparr>)
         | _ \<Rightarrow>
             if type = RECOVERY \<or> type = WRITE then
               if \<not> enableMultiWrites cfg \<and> hasActiveWriteTransactionNoLock m
               then (Inl (TransactionManagerException ''Cannot start a new write transaction in the system. Only one write transaction at a time is allowed in the system.''), m)
               else let t = (if shouldLogToWAL t then log_record BeginTransactionRecord t else t)
                    in (Inr i, m\<lparr>lastTransactionID := i, activeTransactions := activeTransactions m @ [t]\<rparr>)
             else (Inl (TransactionManagerException ''Invalid transaction type to begin transaction.''), m))"

section \<open>Checkpoints\<close>

text \<open>
  The loop of \<^verbatim>\<open>stopNewTransactionsAndWaitUntilAllTransactionsLeave\<close>. The caller holds the mutex of the public
  functions, so no transaction can leave while it waits.
\<close>

partial_function (option) wait_loop :: "bool \<Rightarrow> 64 word \<Rightarrow> 64 word \<Rightarrow> exn option option" where
  "wait_loop noActive timeout numTimesWaited =
     (if noActive then Some None
      else if timeout < (numTimesWaited + 1) * THREAD_SLEEP_TIME_WHEN_WAITING_IN_MICROS
      then Some (Some (TransactionManagerException ''Timeout waiting for active transactions to leave the system before checkpointing. If you have an open transaction, please close it and try again.''))
      else wait_loop noActive timeout (numTimesWaited + 1))"

declare wait_loop.simps [code]

definition stopNewTransactionsAndWait :: "('x, 'v, 'c, 'i) TransactionManager \<Rightarrow> exn option option" where
  "stopNewTransactionsAndWait m = wait_loop (hasNoActiveTransactions m) (checkpointWaitTimeoutInMicros m) 0"

definition writeCheckpoint :: "('x, 'v, 'c, 'i) Environment \<Rightarrow> DBConfig \<Rightarrow> ('x, 'v, 'c, 'i) TransactionManager \<Rightarrow>
    exn option \<times> ('x, 'v, 'c, 'i) TransactionManager" where
  "writeCheckpoint env cfg m =
     (if cfgInMemory cfg then (None, m)
      else case writeStorage env (database m) of
             (Some e, db) \<Rightarrow> (Some e, m\<lparr>database := db\<rparr>)
           | (None, db) \<Rightarrow> (None, m\<lparr>database := db\<lparr>catalogVersion := 0\<rparr>,
               wal := WAL_reset (WAL_clear (logAndFlushCheckpoint (serX env) (serV env) (databaseID cfg) (wal m)))\<rparr>))"

definition rollbackCheckpoint :: "('x, 'v, 'c, 'i) Environment \<Rightarrow> DBConfig \<Rightarrow> ('x, 'v, 'c, 'i) TransactionManager \<Rightarrow>
    ('x, 'v, 'c, 'i) TransactionManager" where
  "rollbackCheckpoint env cfg m = (if cfgInMemory cfg then m else m\<lparr>database := undoStorage env (database m)\<rparr>)"

definition checkpointNoLock :: "('x, 'v, 'c, 'i) Environment \<Rightarrow> DBConfig \<Rightarrow> ('x, 'v, 'c, 'i) TransactionManager \<Rightarrow>
    (exn option \<times> ('x, 'v, 'c, 'i) TransactionManager) option" where
  "checkpointNoLock env cfg m = map_option (\<lambda>waited.
     case waited of
       Some e \<Rightarrow> (Some (CheckpointException e), m)
     | None \<Rightarrow>
         case writeCheckpoint env cfg m of
           (None, m) \<Rightarrow> (None, m)
         | (Some e, m) \<Rightarrow> (Some (CheckpointException e), rollbackCheckpoint env cfg m)) (stopNewTransactionsAndWait m)"

definition checkpoint :: "('x, 'v, 'c, 'i) Environment \<Rightarrow> DBConfig \<Rightarrow> ('x, 'v, 'c, 'i) TransactionManager \<Rightarrow>
    (exn option \<times> ('x, 'v, 'c, 'i) TransactionManager) option" where
  "checkpoint env cfg m = (if cfgInMemory cfg then Some (None, m) else checkpointNoLock env cfg m)"

text \<open>
  The size of the log, with the log of a transaction as the bytes it will append. The writer exists when
  the size is asked for: a transaction that may trigger a checkpoint has just been logged.
\<close>

definition WAL_getFileSize :: "WAL \<Rightarrow> nat" where
  "WAL_getFileSize w = (case walWriter w of None \<Rightarrow> 0 | Some lw \<Rightarrow> LogWriter_getSize lw)"

definition canAutoCheckpoint :: "('x, 'v, 'c, 'i) Environment \<Rightarrow> DBConfig \<Rightarrow> ('x, 'v) ActiveTransaction \<Rightarrow>
    ('x, 'v, 'c, 'i) TransactionManager \<Rightarrow> bool" where
  "canAutoCheckpoint env cfg t m \<longleftrightarrow> \<not> cfgInMemory cfg \<and> autoCheckpoint cfg \<and> txnType t \<noteq> RECOVERY \<and>
     checkpointThreshold cfg < LogWriter_getSize (localWAL_of (serX env) (serV env) (walChecksums (wal m)) (localWAL t)) +
       WAL_getFileSize (wal m)"

section \<open>Commit and rollback\<close>

text \<open>
  \<^verbatim>\<open>Transaction::commit\<close>: the transaction and the manager afterwards, or an exception on the way. It does not
  return if a walk over the undo buffer does not.
\<close>

definition commit_logs :: "('x, 'v, 'c, 'i) Environment \<Rightarrow> DBConfig \<Rightarrow> ('x, 'v) ActiveTransaction \<Rightarrow>
    ('x, 'v, 'c, 'i) TransactionManager \<Rightarrow> ('x, 'v) ActiveTransaction \<times> ('x, 'v, 'c, 'i) TransactionManager" where
  "commit_logs env cfg t m =
     (let (t, m) = (if shouldLogToWAL t
            then ((log_record CommitRecord t)\<lparr>localWAL := []\<rparr>,
                  m\<lparr>wal := logCommittedWAL (databaseID cfg) (localWAL_of (serX env) (serV env) (walChecksums (wal m))
                       (localWAL (log_record CommitRecord t))) (wal m)\<rparr>)
            else (t, m))
      in if hasCatalogChanges t
         then (t\<lparr>hasCatalogChanges := False\<rparr>, m\<lparr>database := catalogVersion_update (\<lambda>v. v + 1) (database m)\<rparr>)
         else (t, m))"

definition Transaction_commit :: "('x, 'v, 'c, 'i) Environment \<Rightarrow> DBConfig \<Rightarrow> ('x, 'v) ActiveTransaction \<Rightarrow>
    ('x, 'v, 'c, 'i) TransactionManager \<Rightarrow> (exn option \<times> ('x, 'v) ActiveTransaction \<times> ('x, 'v, 'c, 'i) TransactionManager) option" where
  "Transaction_commit env cfg t m =
     (case localCommit env (t, database m) of
        (Some e, t, db) \<Rightarrow> Some (Some e, t, m\<lparr>database := db\<rparr>)
      | (None, t, db) \<Rightarrow>
          map_option (\<lambda>(failed, db).
            case failed of
              Some e \<Rightarrow> (Some e, t, m\<lparr>database := db\<rparr>)
            | None \<Rightarrow> (None, commit_logs env cfg t (m\<lparr>database := db\<rparr>)))
            (UndoBuffer_commit (vectorCap env) (groupCap env) (txnCommitTS t) (undoBuffer t) db))"

definition Transaction_rollback :: "('x, 'v, 'c, 'i) Environment \<Rightarrow> ('x, 'v) ActiveTransaction \<Rightarrow>
    ('x, 'v, 'c, 'i) TransactionManager \<Rightarrow> (exn option \<times> ('x, 'v, 'c, 'i) TransactionManager) option" where
  "Transaction_rollback env t m = map_option (\<lambda>(failed, db).
     case failed of
       Some e \<Rightarrow> (Some e, m\<lparr>database := db\<rparr>)
     | None \<Rightarrow> (None, m\<lparr>database := localRollback env t db\<rparr>))
     (UndoBuffer_rollback (undoPK env) (vectorCap env) (groupCap env) (txnCommitTS t) (undoBuffer t) (database m))"

definition commit :: "('x, 'v, 'c, 'i) Environment \<Rightarrow> DBConfig \<Rightarrow> transaction_t \<Rightarrow> ('x, 'v, 'c, 'i) TransactionManager \<Rightarrow>
    (exn option \<times> ('x, 'v, 'c, 'i) TransactionManager) option" where
  "commit env cfg i m =
     (let t = the (find_transaction i m) in
      if txnType t = READ_ONLY then Some (None, clearTransactionNoLock i m)
      else if txnType t = RECOVERY \<or> txnType t = WRITE then
        (let ts = lastTimestamp m + 1; t = t\<lparr>txnCommitTS := ts\<rparr>
         in Option.bind (Transaction_commit env cfg t (m\<lparr>lastTimestamp := ts\<rparr>)) (\<lambda>(failed, t, m).
              case failed of
                Some e \<Rightarrow> Some (Some e, put_transaction t m)
              | None \<Rightarrow>
                  let shouldCheckpoint = shouldForceCheckpoint t \<or> canAutoCheckpoint env cfg t m;
                      m = clearTransactionNoLock i m
                  in if shouldCheckpoint then checkpointNoLock env cfg m else Some (None, m)))
      else Some (Some (TransactionManagerException ''Invalid transaction type to commit.''), m))"

definition rollback :: "('x, 'v, 'c, 'i) Environment \<Rightarrow> DBConfig \<Rightarrow> transaction_t \<Rightarrow> ('x, 'v, 'c, 'i) TransactionManager \<Rightarrow>
    (exn option \<times> ('x, 'v, 'c, 'i) TransactionManager) option" where
  "rollback env cfg i m =
     (let t = the (find_transaction i m) in
      if txnType t = READ_ONLY then Some (None, clearTransactionNoLock i m)
      else if txnType t = RECOVERY \<or> txnType t = WRITE then
        map_option (\<lambda>(failed, m).
          case failed of
            Some e \<Rightarrow> (Some e, m)
          | None \<Rightarrow> (None, clearTransactionNoLock i m)) (Transaction_rollback env t m)
      else Some (Some (TransactionManagerException ''Invalid transaction type to rollback.''), m))"

section \<open>The transaction of a connection\<close>

datatype TransactionMode = AUTO | MANUAL

record TransactionContext =
  mode :: TransactionMode
  activeTransaction :: "transaction_t option"

definition TransactionContext_new :: TransactionContext where
  "TransactionContext_new = \<lparr>mode = AUTO, activeTransaction = None\<rparr>"

definition hasActiveTransaction :: "TransactionContext \<Rightarrow> bool" where
  "hasActiveTransaction c \<longleftrightarrow> activeTransaction c \<noteq> None"

type_synonym ('x, 'v, 'c, 'i) connection = "TransactionContext \<times> ('x, 'v, 'c, 'i) TransactionManager"

definition beginTransactionInternal :: "DBConfig \<Rightarrow> TransactionType \<Rightarrow> ('x, 'v, 'c, 'i) connection \<Rightarrow> exn option \<times> ('x, 'v, 'c, 'i) connection" where
  "beginTransactionInternal cfg type = (\<lambda>(c, m).
     case beginTransaction cfg type m of
       (Inl e, m) \<Rightarrow> (Some e, c, m)
     | (Inr i, m) \<Rightarrow> (None, c\<lparr>activeTransaction := Some i\<rparr>, m))"

definition begin_manual :: "DBConfig \<Rightarrow> TransactionType \<Rightarrow> ('x, 'v, 'c, 'i) connection \<Rightarrow> exn option \<times> ('x, 'v, 'c, 'i) connection" where
  "begin_manual cfg type = (\<lambda>(c, m). beginTransactionInternal cfg type (c\<lparr>mode := MANUAL\<rparr>, m))"

abbreviation beginReadTransaction :: "DBConfig \<Rightarrow> ('x, 'v, 'c, 'i) connection \<Rightarrow> exn option \<times> ('x, 'v, 'c, 'i) connection" where
  "beginReadTransaction cfg \<equiv> begin_manual cfg READ_ONLY"

abbreviation beginWriteTransaction :: "DBConfig \<Rightarrow> ('x, 'v, 'c, 'i) connection \<Rightarrow> exn option \<times> ('x, 'v, 'c, 'i) connection" where
  "beginWriteTransaction cfg \<equiv> begin_manual cfg WRITE"

abbreviation beginRecoveryTransaction :: "DBConfig \<Rightarrow> ('x, 'v, 'c, 'i) connection \<Rightarrow> exn option \<times> ('x, 'v, 'c, 'i) connection" where
  "beginRecoveryTransaction cfg \<equiv> begin_manual cfg RECOVERY"

definition beginAutoTransaction :: "DBConfig \<Rightarrow> bool \<Rightarrow> ('x, 'v, 'c, 'i) connection \<Rightarrow> exn option \<times> ('x, 'v, 'c, 'i) connection" where
  "beginAutoTransaction cfg readOnlyStatement x =
     (if hasActiveTransaction (fst x)
      then (Some (TransactionManagerException ''Cannot start a new transaction while there is an active transaction.''), x)
      else beginTransactionInternal cfg (if readOnlyStatement then READ_ONLY else WRITE) x)"

definition validateManualTransaction :: "bool \<Rightarrow> ('x, 'v, 'c, 'i) connection \<Rightarrow> exn option" where
  "validateManualTransaction readOnlyStatement = (\<lambda>(c, m).
     if txnType (the (find_transaction (the (activeTransaction c)) m)) = READ_ONLY \<and> \<not> readOnlyStatement
     then Some (TransactionManagerException ''Can not execute a write query inside a read-only transaction.'') else None)"

definition clearTransaction :: "TransactionContext \<Rightarrow> TransactionContext" where
  "clearTransaction c = c\<lparr>activeTransaction := None, mode := AUTO\<rparr>"

text \<open>\<^verbatim>\<open>TransactionContext::commit\<close> and \<^verbatim>\<open>rollback\<close>: an exception of the manager leaves before \<^verbatim>\<open>clearTransaction\<close>.\<close>

definition end_with :: "(transaction_t \<Rightarrow> ('x, 'v, 'c, 'i) TransactionManager \<Rightarrow> (exn option \<times> ('x, 'v, 'c, 'i) TransactionManager) option) \<Rightarrow>
    ('x, 'v, 'c, 'i) connection \<Rightarrow> (exn option \<times> ('x, 'v, 'c, 'i) connection) option" where
  "end_with f = (\<lambda>(c, m).
     case activeTransaction c of
       None \<Rightarrow> Some (None, c, m)
     | Some i \<Rightarrow> map_option (\<lambda>(failed, m). (failed, if failed = None then clearTransaction c else c, m)) (f i m))"

abbreviation TransactionContext_commit :: "('x, 'v, 'c, 'i) Environment \<Rightarrow> DBConfig \<Rightarrow> ('x, 'v, 'c, 'i) connection \<Rightarrow>
    (exn option \<times> ('x, 'v, 'c, 'i) connection) option" where
  "TransactionContext_commit env cfg \<equiv> end_with (commit env cfg)"

abbreviation TransactionContext_rollback :: "('x, 'v, 'c, 'i) Environment \<Rightarrow> DBConfig \<Rightarrow> ('x, 'v, 'c, 'i) connection \<Rightarrow>
    (exn option \<times> ('x, 'v, 'c, 'i) connection) option" where
  "TransactionContext_rollback env cfg \<equiv> end_with (rollback env cfg)"

section \<open>A statement in a transaction\<close>

datatype TransactionCommitAction = COMMIT_IF_NEW | COMMIT_IF_AUTO | COMMIT_NEW_OR_AUTO | NOT_COMMIT

definition commitIfNew :: "TransactionCommitAction \<Rightarrow> bool" where
  "commitIfNew a \<longleftrightarrow> a = COMMIT_IF_NEW \<or> a = COMMIT_NEW_OR_AUTO"

definition commitIfAuto :: "TransactionCommitAction \<Rightarrow> bool" where
  "commitIfAuto a \<longleftrightarrow> a = COMMIT_IF_AUTO \<or> a = COMMIT_NEW_OR_AUTO"

definition getAction :: "bool \<Rightarrow> bool \<Rightarrow> TransactionCommitAction" where
  "getAction ifNew ifAuto = (if ifNew \<and> ifAuto then COMMIT_NEW_OR_AUTO else if ifNew then COMMIT_IF_NEW
     else if ifAuto then COMMIT_IF_AUTO else NOT_COMMIT)"

text \<open>
  \<^verbatim>\<open>runFuncInTransaction\<close>; the function it runs, which may not return, is the argument \<open>f\<close>. The handler rethrows: the result is the exception
  and the state after the cleanup (an exception of the cleanup itself replaces it).
\<close>

definition cleanup :: "('x, 'v, 'c, 'i) Environment \<Rightarrow> DBConfig \<Rightarrow> exn \<Rightarrow> ('x, 'v, 'c, 'i) connection \<Rightarrow>
    (exn option \<times> ('x, 'v, 'c, 'i) connection) option" where
  "cleanup env cfg e x =
     (case e of
        CheckpointException _ \<Rightarrow> Some (Some e, clearTransaction (fst x), snd x)
      | _ \<Rightarrow> map_option (\<lambda>(failed, x). (if failed = None then Some e else failed, x)) (TransactionContext_rollback env cfg x))"

definition runFuncInTransaction :: "('x, 'v, 'c, 'i) Environment \<Rightarrow> DBConfig \<Rightarrow>
    (('x, 'v, 'c, 'i) connection \<Rightarrow> (exn option \<times> ('x, 'v, 'c, 'i) connection) option) \<Rightarrow> bool \<Rightarrow> bool \<Rightarrow> TransactionCommitAction \<Rightarrow>
    ('x, 'v, 'c, 'i) connection \<Rightarrow> (exn option \<times> ('x, 'v, 'c, 'i) connection) option" where
  "runFuncInTransaction env cfg f readOnlyStatement isTransactionStatement action x =
     (let requireNewTransaction = mode (fst x) = AUTO \<and> \<not> hasActiveTransaction (fst x) \<and> \<not> isTransactionStatement;
          (started, x) = (if requireNewTransaction then beginAutoTransaction cfg readOnlyStatement x else (None, x))
      in case started of
           Some e \<Rightarrow> Some (Some e, x)
         | None \<Rightarrow>
             Option.bind (f x) (\<lambda>(thrown, x).
               case thrown of
                 Some e \<Rightarrow> cleanup env cfg e x
               | None \<Rightarrow>
                   if requireNewTransaction \<and> commitIfNew action \<or> mode (fst x) = AUTO \<and> commitIfAuto action
                   then Option.bind (TransactionContext_commit env cfg x) (\<lambda>(failed, x).
                          case failed of None \<Rightarrow> Some (None, x) | Some e \<Rightarrow> cleanup env cfg e x)
                   else Some (None, x)))"

section \<open>Transaction statements\<close>

text \<open>The operator that executes \<^verbatim>\<open>BEGIN\<close>, \<^verbatim>\<open>COMMIT\<close>, \<^verbatim>\<open>ROLLBACK\<close> and \<^verbatim>\<open>CHECKPOINT\<close> (\<^verbatim>\<open>processor/operator/transaction.cpp\<close>).\<close>

datatype TransactionAction = BEGIN_READ | BEGIN_WRITE | COMMIT | ROLLBACK | CHECKPOINT

fun TransactionAction_toString :: "TransactionAction \<Rightarrow> string" where
  "TransactionAction_toString BEGIN_READ = ''BEGIN_READ''"
| "TransactionAction_toString BEGIN_WRITE = ''BEGIN_WRITE''"
| "TransactionAction_toString COMMIT = ''COMMIT''"
| "TransactionAction_toString ROLLBACK = ''ROLLBACK''"
| "TransactionAction_toString CHECKPOINT = ''CHECKPOINT''"

fun validateActiveTransaction :: "TransactionAction \<Rightarrow> TransactionContext \<Rightarrow> exn option" where
  "validateActiveTransaction action c =
     (if action = BEGIN_READ \<or> action = BEGIN_WRITE then
        if hasActiveTransaction c
        then Some (TransactionManagerException ''Connection already has an active transaction. Cannot start a transaction within another one. For concurrent multiple transactions, please open other connections.'')
        else None
      else if action = COMMIT \<or> action = ROLLBACK then
        if \<not> hasActiveTransaction c
        then Some (TransactionManagerException (''No active transaction for '' @ TransactionAction_toString action @ ''.''))
        else None
      else if hasActiveTransaction c
      then Some (TransactionManagerException (''Found active transaction for '' @ TransactionAction_toString action @ ''.''))
      else None)"

definition execute_action :: "('x, 'v, 'c, 'i) Environment \<Rightarrow> DBConfig \<Rightarrow> TransactionAction \<Rightarrow>
    ('x, 'v, 'c, 'i) connection \<Rightarrow> (exn option \<times> ('x, 'v, 'c, 'i) connection) option" where
  "execute_action env cfg action x =
     (case validateActiveTransaction action (fst x) of
        Some e \<Rightarrow> Some (Some e, x)
      | None \<Rightarrow>
          case action of
            BEGIN_READ \<Rightarrow> Some (beginReadTransaction cfg x)
          | BEGIN_WRITE \<Rightarrow> Some (beginWriteTransaction cfg x)
          | COMMIT \<Rightarrow> TransactionContext_commit env cfg x
          | ROLLBACK \<Rightarrow> TransactionContext_rollback env cfg x
          | CHECKPOINT \<Rightarrow> map_option (\<lambda>(failed, m). (failed, fst x, m)) (checkpoint env cfg (snd x)))"

end
