(* ===== verification/Transaction_Runs.thy ===== *)
theory Transaction_Runs
  imports Transaction_Manager
begin

text \<open>
  Sequences of calls to the transaction manager, by any number of connections: identifiers and timestamps
  stay distinct and ordered, at most one transaction writes, and every call returns.
\<close>

section \<open>What happens to a transaction\<close>

text \<open>
  While it runs, a transaction keeps its identity and adds to its undo buffer and its log; it does not write
  the records that end a transaction. The same holds for the commit of its local storage, which besides
  throws no exception of a checkpoint.
\<close>

definition data_record :: "('x, 'v) WALRecord \<Rightarrow> bool" where
  "data_record r \<longleftrightarrow> r \<noteq> CommitRecord \<and> r \<noteq> CheckpointRecord"

definition key :: "('x, 'v) ActiveTransaction \<Rightarrow> transaction_t \<times> TransactionType \<times> transaction_t" where
  "key t = (txnID t, txnType t, txnStartTS t)"

definition extends :: "('x, 'v) ActiveTransaction \<Rightarrow> ('x, 'v) ActiveTransaction \<Rightarrow> bool" where
  "extends t t' \<longleftrightarrow> key t' = key t \<and> txnInMemory t' = txnInMemory t \<and> txnCommitTS t' = txnCommitTS t \<and>
     ((\<exists>es. undo_inv (undoBuffer t) es) \<longrightarrow> (\<exists>es. undo_inv (undoBuffer t') es)) \<and>
     (list_all data_record (localWAL t) \<longrightarrow> list_all data_record (localWAL t'))"

definition local_storage_ok :: "('x, 'v, 'c, 'i) Environment \<Rightarrow> bool" where
  "local_storage_ok env \<longleftrightarrow> (\<forall>t db. case localCommit env (t, db) of (e, t', db') \<Rightarrow>
     extends t t' \<and> (\<forall>e'. e \<noteq> Some (CheckpointException e')))"

inductive tm_step :: "('x, 'v, 'c, 'i) Environment \<Rightarrow> DBConfig \<Rightarrow> ('x, 'v, 'c, 'i) TransactionManager \<Rightarrow>
    ('x, 'v, 'c, 'i) TransactionManager \<Rightarrow> bool" for env cfg where
  begins: "beginTransaction cfg type m = (r, m') \<Longrightarrow> tm_step env cfg m m'"
| commits: "find_transaction i m = Some t \<Longrightarrow> commit env cfg i m = Some (e, m') \<Longrightarrow> tm_step env cfg m m'"
| rolls_back: "find_transaction i m = Some t \<Longrightarrow> rollback env cfg i m = Some (e, m') \<Longrightarrow> tm_step env cfg m m'"
| checkpoints: "checkpoint env cfg m = Some (e, m') \<Longrightarrow> tm_step env cfg m m'"
| works: "find_transaction i m = Some t \<Longrightarrow> extends t t' \<Longrightarrow> tm_step env cfg m ((put_transaction t' m)\<lparr>database := db\<rparr>)"

inductive tm_run :: "('x, 'v, 'c, 'i) Environment \<Rightarrow> DBConfig \<Rightarrow> ('x, 'v, 'c, 'i) TransactionManager \<Rightarrow> nat \<Rightarrow>
    ('x, 'v, 'c, 'i) TransactionManager \<Rightarrow> bool" for env cfg m0 where
  start: "tm_run env cfg m0 0 m0"
| step: "tm_run env cfg m0 n m \<Longrightarrow> tm_step env cfg m m' \<Longrightarrow> tm_run env cfg m0 (Suc n) m'"

section \<open>What a call leaves alone\<close>

abbreviation keys :: "('x, 'v, 'c, 'i) TransactionManager \<Rightarrow> (transaction_t \<times> TransactionType \<times> transaction_t) list" where
  "keys m \<equiv> map key (activeTransactions m)"

abbreviation undo_ok :: "('x, 'v) ActiveTransaction \<Rightarrow> bool" where
  "undo_ok t \<equiv> \<exists>es. undo_inv (undoBuffer t) es"

definition kept :: "('x, 'v, 'c, 'i) TransactionManager \<Rightarrow> ('x, 'v, 'c, 'i) TransactionManager \<Rightarrow> bool" where
  "kept m m' \<longleftrightarrow> lastTransactionID m' = lastTransactionID m \<and>
     checkpointWaitTimeoutInMicros m' = checkpointWaitTimeoutInMicros m \<and>
     (lastTimestamp m' = lastTimestamp m \<or> lastTimestamp m' = lastTimestamp m + 1) \<and>
     (\<exists>P. keys m' = filter P (keys m)) \<and>
     (list_all undo_ok (activeTransactions m) \<longrightarrow> list_all undo_ok (activeTransactions m'))"

lemma keptI:
  assumes "lastTransactionID m' = lastTransactionID m" "checkpointWaitTimeoutInMicros m' = checkpointWaitTimeoutInMicros m"
    "lastTimestamp m' = lastTimestamp m \<or> lastTimestamp m' = lastTimestamp m + 1" "keys m' = filter P (keys m)"
    "list_all undo_ok (activeTransactions m) \<Longrightarrow> list_all undo_ok (activeTransactions m')"
  shows "kept m m'"
  using assms unfolding kept_def by blast

lemma key_simps [simp]:
  "fst (key t) = txnID t" "key (t\<lparr>txnCommitTS := c\<rparr>) = key t" "key (t\<lparr>localWAL := rs\<rparr>) = key t" "key (t\<lparr>hasCatalogChanges := b\<rparr>) = key t"
  "key (log_record r t) = key t"
  by (simp_all add: key_def log_record_def)

lemma keys_clear: "keys (clearTransactionNoLock i m) = filter (\<lambda>k. fst k \<noteq> i) (keys m)"
  by (simp add: clearTransactionNoLock_def filter_map comp_def)

lemma clear_simps [simp]:
  "lastTransactionID (clearTransactionNoLock i m) = lastTransactionID m" "lastTimestamp (clearTransactionNoLock i m) = lastTimestamp m"
  "checkpointWaitTimeoutInMicros (clearTransactionNoLock i m) = checkpointWaitTimeoutInMicros m"
  "wal (clearTransactionNoLock i m) = wal m" "database (clearTransactionNoLock i m) = database m"
  "list_all undo_ok (activeTransactions m) \<Longrightarrow> list_all undo_ok (activeTransactions (clearTransactionNoLock i m))"
  by (auto simp: clearTransactionNoLock_def list_all_iff)

lemma find_transactionD:
  "find_transaction i m = Some t \<Longrightarrow> t \<in> set (activeTransactions m) \<and> txnID t = i"
  by (auto simp: find_transaction_def find_Some_iff)

lemma put_keys:
  assumes "find_transaction i m = Some t" "key t' = key t" "distinct (map fst (keys m))"
  shows "keys (put_transaction t' m) = keys m"
proof -
  have "key t = key u" if "u \<in> set (activeTransactions m)" "txnID u = txnID t" for u
    using assms(3) that find_transactionD [OF assms(1)] by (auto simp: distinct_map inj_on_def)
  moreover have "txnID t' = txnID t" using assms(2) by (simp add: key_def)
  ultimately show ?thesis using assms(2) by (auto simp: put_transaction_def)
qed

lemma put_simps [simp]:
  "lastTransactionID (put_transaction t m) = lastTransactionID m" "lastTimestamp (put_transaction t m) = lastTimestamp m"
  "checkpointWaitTimeoutInMicros (put_transaction t m) = checkpointWaitTimeoutInMicros m"
  "list_all undo_ok (activeTransactions m) \<Longrightarrow> undo_ok t \<Longrightarrow> list_all undo_ok (activeTransactions (put_transaction t m))"
  by (auto simp: put_transaction_def list_all_iff)

lemma checkpointNoLock_kept:
  assumes "checkpointNoLock env cfg m = Some (e, m')"
  shows "activeTransactions m' = activeTransactions m" "lastTransactionID m' = lastTransactionID m"
    "checkpointWaitTimeoutInMicros m' = checkpointWaitTimeoutInMicros m" "lastTimestamp m' = lastTimestamp m"
  using assms by (auto simp: checkpointNoLock_def writeCheckpoint_def rollbackCheckpoint_def split: option.splits prod.splits if_splits)

lemma commit_logs_kept:
  assumes "commit_logs env cfg t m = (t', m')"
  shows "activeTransactions m' = activeTransactions m" "lastTransactionID m' = lastTransactionID m"
    "checkpointWaitTimeoutInMicros m' = checkpointWaitTimeoutInMicros m" "lastTimestamp m' = lastTimestamp m"
    "key t' = key t" "undoBuffer t' = undoBuffer t"
  using assms by (auto simp: commit_logs_def Let_def log_record_def split: if_splits)

lemma local_storage_okD:
  assumes "local_storage_ok env" "localCommit env (t, db) = (e, t', db')"
  shows "extends t t'" "e \<noteq> Some (CheckpointException e')"
proof -
  have "case localCommit env (t, db) of (e, t', db') \<Rightarrow> extends t t' \<and> (\<forall>e'. e \<noteq> Some (CheckpointException e'))"
    using assms(1) unfolding local_storage_ok_def by (elim allE [of _ t] allE [of _ db])
  then show "extends t t'" "e \<noteq> Some (CheckpointException e')" by (simp_all add: assms(2))
qed

lemma Transaction_commit_kept:
  assumes "local_storage_ok env" "Transaction_commit env cfg t m = Some (e, t', m')"
  shows "activeTransactions m' = activeTransactions m" "lastTransactionID m' = lastTransactionID m"
    "checkpointWaitTimeoutInMicros m' = checkpointWaitTimeoutInMicros m" "lastTimestamp m' = lastTimestamp m"
    "key t' = key t" "undo_ok t \<Longrightarrow> undo_ok t'"
proof -
  obtain f t1 db where lc: "localCommit env (t, database m) = (f, t1, db)" by (metis surj_pair)
  have ext: "extends t t1" by (rule local_storage_okD [OF assms(1) lc])
  have "activeTransactions m' = activeTransactions m \<and> lastTransactionID m' = lastTransactionID m \<and>
    checkpointWaitTimeoutInMicros m' = checkpointWaitTimeoutInMicros m \<and> lastTimestamp m' = lastTimestamp m \<and>
    key t' = key t1 \<and> undoBuffer t' = undoBuffer t1"
  proof (cases f)
    case None
    then obtain g db2 where g: "UndoBuffer_commit (vectorCap env) (groupCap env) (txnCommitTS t1) (undoBuffer t1) db = Some (g, db2)"
      using assms(2) lc by (auto simp: Transaction_commit_def)
    with None assms(2) lc commit_logs_kept [of env cfg t1 "m\<lparr>database := db2\<rparr>" t' m'] show ?thesis
      by (cases g) (auto simp: Transaction_commit_def)
  qed (use assms(2) lc in \<open>auto simp: Transaction_commit_def\<close>)
  with ext show "activeTransactions m' = activeTransactions m" "lastTransactionID m' = lastTransactionID m"
    "checkpointWaitTimeoutInMicros m' = checkpointWaitTimeoutInMicros m" "lastTimestamp m' = lastTimestamp m"
    "key t' = key t" "undo_ok t \<Longrightarrow> undo_ok t'" unfolding extends_def by auto
qed

lemma commit_kept:
  assumes ok: "local_storage_ok env" and t: "find_transaction i m = Some t" and dist: "distinct (map fst (keys m))"
    and res: "commit env cfg i m = Some (e, m')"
  shows "kept m m'"
proof -
  let ?m0 = "m\<lparr>lastTimestamp := lastTimestamp m + 1\<rparr>" and ?t0 = "t\<lparr>txnCommitTS := lastTimestamp m + 1\<rparr>"
  consider (reads) "txnType t = READ_ONLY" | (other) "txnType t \<noteq> READ_ONLY" "\<not> (txnType t = RECOVERY \<or> txnType t = WRITE)"
    | (writes) "txnType t \<noteq> READ_ONLY" "txnType t = RECOVERY \<or> txnType t = WRITE" by blast
  then show ?thesis
  proof cases
    case reads
    with res t have "m' = clearTransactionNoLock i m" by (simp add: commit_def)
    then show ?thesis by (intro keptI [where P = "\<lambda>k. fst k \<noteq> i"]) (simp_all add: keys_clear)
  next
    case other
    with res t have "m' = m" by (auto simp: commit_def)
    then show ?thesis by (intro keptI [where P = "\<lambda>_. True"]) simp_all
  next
    case writes
    then obtain f t1 m1 where c: "Transaction_commit env cfg ?t0 ?m0 = Some (f, t1, m1)"
      using res t by (auto simp: commit_def Let_def bind_eq_Some_conv)
    note k = Transaction_commit_kept [OF ok c]
    have t1: "key t1 = key t" using k(5) by simp
    have m1: "find_transaction i m1 = Some t" using t k(1) by (simp add: find_transaction_def)
    have undo: "undo_ok t1" if "list_all undo_ok (activeTransactions m)"
      using k(6) that find_transactionD [OF t] by (auto simp: list_all_iff)
    show ?thesis
    proof (cases f)
      case (Some a)
      then have m': "m' = put_transaction t1 m1" using res t writes c by (auto simp: commit_def Let_def)
      have "keys m' = keys m" using put_keys [OF m1 t1] dist k(1) by (simp add: m')
      then show ?thesis using undo k by (intro keptI [where P = "\<lambda>_. True"]) (simp_all add: m')
    next
      case None
      let ?m2 = "clearTransactionNoLock i m1"
      have "m' = ?m2 \<or> checkpointNoLock env cfg ?m2 = Some (e, m')"
        using res t writes c None by (auto simp: commit_def Let_def split: if_splits)
      then have m': "activeTransactions m' = activeTransactions ?m2" "lastTransactionID m' = lastTransactionID ?m2"
        "checkpointWaitTimeoutInMicros m' = checkpointWaitTimeoutInMicros ?m2" "lastTimestamp m' = lastTimestamp ?m2"
        using checkpointNoLock_kept by blast+
      have "keys m' = filter (\<lambda>k. fst k \<noteq> i) (keys m)" using k(1) by (simp only: m' keys_clear) simp
      then show ?thesis
        using k m' clear_simps(6) [of m1 i] by (intro keptI [where P = "\<lambda>k. fst k \<noteq> i"]) simp_all
    qed
  qed
qed

lemma rollback_cases:
  assumes t: "find_transaction i m = Some t" and res: "rollback env cfg i m = Some (e, m')"
  obtains (failed) db where "m' = m\<lparr>database := db\<rparr>" "e \<noteq> None" | (cleared) db where "m' = clearTransactionNoLock i (m\<lparr>database := db\<rparr>)"
proof -
  consider (reads) "txnType t = READ_ONLY" | (other) "txnType t \<noteq> READ_ONLY" "\<not> (txnType t = RECOVERY \<or> txnType t = WRITE)"
    | (writes) "txnType t \<noteq> READ_ONLY" "txnType t = RECOVERY \<or> txnType t = WRITE" by blast
  then show thesis
  proof cases
    case reads
    with res t have "m' = clearTransactionNoLock i (m\<lparr>database := database m\<rparr>)" by (simp add: rollback_def)
    then show thesis by (rule cleared)
  next
    case other
    with res t have "m' = m\<lparr>database := database m\<rparr>" "e \<noteq> None" by (auto simp: rollback_def)
    then show thesis by (rule failed)
  next
    case writes
    with res t obtain f db where f: "UndoBuffer_rollback (undoPK env) (vectorCap env) (groupCap env) (txnCommitTS t) (undoBuffer t) (database m) = Some (f, db)"
      by (auto simp: rollback_def Transaction_rollback_def)
    show thesis
    proof (cases f)
      case None
      with f writes res t have "m' = clearTransactionNoLock i (m\<lparr>database := localRollback env t db\<rparr>)"
        by (auto simp: rollback_def Transaction_rollback_def)
      then show thesis by (rule cleared)
    next
      case (Some a)
      with f writes res t have "m' = m\<lparr>database := db\<rparr>" "e \<noteq> None" by (auto simp: rollback_def Transaction_rollback_def)
      then show thesis by (rule failed)
    qed
  qed
qed

lemma rollback_kept:
  assumes "find_transaction i m = Some t" "rollback env cfg i m = Some (e, m')"
  shows "kept m m'"
  using assms
proof (cases rule: rollback_cases)
  case (failed db)
  then show ?thesis by (intro keptI [where P = "\<lambda>_. True"]) simp_all
next
  case (cleared db)
  have "keys m' = filter (\<lambda>k. fst k \<noteq> i) (keys m)" by (simp only: cleared keys_clear) simp
  then show ?thesis using cleared clear_simps(6) [of "m\<lparr>database := db\<rparr>" i] by (intro keptI [where P = "\<lambda>k. fst k \<noteq> i"]) simp_all
qed

lemma checkpoint_kept:
  assumes "checkpoint env cfg m = Some (e, m')"
  shows "kept m m'"
proof (cases "cfgInMemory cfg")
  case True
  with assms show ?thesis by (intro keptI [where P = "\<lambda>_. True"]) (simp_all add: checkpoint_def)
next
  case False
  with assms have "checkpointNoLock env cfg m = Some (e, m')" by (simp add: checkpoint_def)
  from checkpointNoLock_kept [OF this] show ?thesis by (intro keptI [where P = "\<lambda>_. True"]) simp_all
qed

lemma works_kept:
  assumes "find_transaction i m = Some t" "extends t t'" "distinct (map fst (keys m))"
  shows "kept m ((put_transaction t' m)\<lparr>database := db\<rparr>)"
proof -
  have "keys (put_transaction t' m) = keys m" using put_keys [OF assms(1) _ assms(3)] assms(2) by (simp add: extends_def)
  moreover have "undo_ok t'" if "list_all undo_ok (activeTransactions m)"
    using that assms(2) find_transactionD [OF assms(1)] unfolding extends_def list_all_iff by blast
  ultimately show ?thesis by (intro keptI [where P = "\<lambda>_. True"]) simp_all
qed

section \<open>The invariant of the manager\<close>

definition keys_ok :: "DBConfig \<Rightarrow> transaction_t \<Rightarrow> transaction_t \<Rightarrow> (transaction_t \<times> TransactionType \<times> transaction_t) list \<Rightarrow> bool" where
  "keys_ok cfg i ts ks \<longleftrightarrow> distinct (map fst ks) \<and>
     list_all (\<lambda>k. START_TRANSACTION_ID < fst k \<and> fst k \<le> i \<and> fst (snd k) \<in> {READ_ONLY, WRITE, RECOVERY} \<and> snd (snd k) \<le> ts) ks \<and>
     (enableMultiWrites cfg \<or> length (filter (\<lambda>k. fst (snd k) = WRITE) ks) \<le> 1)"

definition tm_inv :: "DBConfig \<Rightarrow> nat \<Rightarrow> ('x, 'v, 'c, 'i) TransactionManager \<Rightarrow> bool" where
  "tm_inv cfg n m \<longleftrightarrow> START_TRANSACTION_ID \<le> lastTransactionID m \<and> unat (lastTransactionID m) \<le> 2 ^ 63 + n \<and>
     unat (lastTimestamp m) \<le> 1 + n \<and> checkpointWaitTimeoutInMicros m = DEFAULT_CHECKPOINT_WAIT_TIMEOUT_IN_MICROS \<and>
     keys_ok cfg (lastTransactionID m) (lastTimestamp m) (keys m) \<and> list_all undo_ok (activeTransactions m)"

lemma unat_START: "unat START_TRANSACTION_ID = 2 ^ 63"
  by (simp add: START_TRANSACTION_ID_eq)

lemma unat_succ: "unat x < 2 ^ 64 - 1 \<Longrightarrow> unat (x + 1) = unat x + 1" for x :: "64 word"
  by (simp add: unat_word_ariths)

lemma succ_greater: "unat x < 2 ^ 64 - 1 \<Longrightarrow> x < x + 1" for x :: "64 word"
  by (simp add: word_less_nat_alt unat_succ)

lemma filter_filter_length: "length (filter Q (filter P xs)) \<le> length (filter Q xs)"
  by (induction xs) auto

lemma keys_ok_filter:
  assumes "keys_ok cfg i ts ks" "ts \<le> ts'"
  shows "keys_ok cfg i ts' (filter P ks)"
proof -
  have "length (filter Q (filter P ks)) \<le> 1" if "length (filter Q ks) \<le> 1" for Q
    using that filter_filter_length [of Q P ks] by linarith
  then show ?thesis
    using assms by (auto simp: keys_ok_def list_all_iff distinct_map_filter intro: order_trans)
qed

lemma kept_inv:
  assumes "tm_inv cfg n m" "kept m m'" "n < 2 ^ 63 - 2"
  shows "tm_inv cfg (Suc n) m'"
proof -
  have ts: "unat (lastTimestamp m) < 2 ^ 64 - 1" using assms(1,3) by (simp add: tm_inv_def)
  have ts': "lastTimestamp m \<le> lastTimestamp m'" "unat (lastTimestamp m') \<le> 1 + Suc n"
    using assms(1,2) unat_succ [OF ts] succ_greater [OF ts] by (auto simp: tm_inv_def kept_def)
  obtain P where P: "keys m' = filter P (keys m)" using assms(2) by (auto simp: kept_def)
  have "keys_ok cfg (lastTransactionID m) (lastTimestamp m') (keys m')"
    unfolding P by (rule keys_ok_filter [OF _ ts'(1)]) (use assms(1) in \<open>simp add: tm_inv_def\<close>)
  with ts' assms(1,2) show ?thesis unfolding tm_inv_def kept_def by auto
qed

lemma begin_cases:
  assumes "beginTransaction cfg type m = (r, m')"
  obtains (refused) "m' = m" | (begun) t where "m' = m\<lparr>lastTransactionID := lastTransactionID m + 1, activeTransactions := activeTransactions m @ [t]\<rparr>"
    "key t = (lastTransactionID m + 1, type, lastTimestamp m)" "undoBuffer t = []" "r = Inr (lastTransactionID m + 1)"
    "type = WRITE \<Longrightarrow> enableMultiWrites cfg \<or> \<not> hasActiveWriteTransactionNoLock m" "type \<in> {READ_ONLY, WRITE, RECOVERY}"
  using assms
  by (cases type) (auto simp: beginTransaction_def Let_def Transaction_new_def key_def log_record_def split: if_splits)

lemma begin_inv:
  assumes inv: "tm_inv cfg n m" and "beginTransaction cfg type m = (r, m')" and n: "n < 2 ^ 63 - 2"
  shows "tm_inv cfg (Suc n) m'"
  using assms(2)
proof (cases rule: begin_cases)
  case refused
  with inv show ?thesis by (auto simp: tm_inv_def)
next
  case (begun t)
  let ?i = "lastTransactionID m"
  have i: "unat ?i < 2 ^ 64 - 1" using inv n by (simp add: tm_inv_def)
  have lt: "?i < ?i + 1" "START_TRANSACTION_ID < ?i + 1" "unat (?i + 1) = unat ?i + 1"
    using succ_greater [OF i] inv unat_succ [OF i] by (auto simp: tm_inv_def)
  have ok: "keys_ok cfg ?i (lastTimestamp m) (keys m)" using inv by (simp add: tm_inv_def)
  then have ks: "list_all (\<lambda>k. START_TRANSACTION_ID < fst k \<and> fst k \<le> ?i + 1 \<and> fst (snd k) \<in> {READ_ONLY, WRITE, RECOVERY} \<and> snd (snd k) \<le> lastTimestamp m) (keys m)"
    "\<forall>x\<in>set (activeTransactions m). txnID x \<noteq> ?i + 1"
    using lt(1) by (auto simp: keys_ok_def list_all_iff)
  have "length (filter (\<lambda>k. fst (snd k) = WRITE) (keys m @ [key t])) \<le> 1" if "\<not> enableMultiWrites cfg"
  proof (cases "type = WRITE")
    case True
    then have "filter (\<lambda>k. fst (snd k) = WRITE) (keys m) = []"
      using begun(5) that by (auto simp: hasActiveWriteTransactionNoLock_def list_ex_iff isWriteTransaction_def filter_empty_conv key_def)
    then show ?thesis using begun(2) by simp
  next
    case False
    then show ?thesis using begun(2) ok that by (simp add: keys_ok_def)
  qed
  then have "enableMultiWrites cfg \<or> length (filter (\<lambda>k. fst (snd k) = WRITE) (keys m @ [key t])) \<le> 1" by blast
  moreover have "distinct (map fst (keys m @ [key t]))" using ok ks(2) begun(2) by (auto simp: keys_ok_def)
  moreover have "list_all (\<lambda>k. START_TRANSACTION_ID < fst k \<and> fst k \<le> ?i + 1 \<and> fst (snd k) \<in> {READ_ONLY, WRITE, RECOVERY} \<and> snd (snd k) \<le> lastTimestamp m) (keys m @ [key t])"
    using ks(1) lt(2) begun(2,6) by simp
  ultimately have "keys_ok cfg (?i + 1) (lastTimestamp m) (keys m @ [key t])" unfolding keys_ok_def by blast
  moreover have "list_all undo_ok (activeTransactions m @ [t])" using inv begun(3) undo_inv_Nil by (auto simp: tm_inv_def)
  ultimately show ?thesis using inv lt begun(1) by (auto simp: tm_inv_def)
qed

lemma step_inv:
  assumes "tm_inv cfg n m" "tm_step env cfg m m'" "local_storage_ok env" "n < 2 ^ 63 - 2"
  shows "tm_inv cfg (Suc n) m'"
proof -
  have dist: "distinct (map fst (keys m))" using assms(1) by (simp add: tm_inv_def keys_ok_def)
  from assms(2) show ?thesis
  proof (cases rule: tm_step.cases)
    case (begins type r)
    with begin_inv [OF assms(1) _ assms(4)] show ?thesis by blast
  next
    case (commits i t e)
    from kept_inv [OF assms(1) commit_kept [OF assms(3) commits(1) dist commits(2)] assms(4)] show ?thesis .
  next
    case (rolls_back i t e)
    from kept_inv [OF assms(1) rollback_kept [OF rolls_back] assms(4)] show ?thesis .
  next
    case (checkpoints e)
    from kept_inv [OF assms(1) checkpoint_kept [OF checkpoints] assms(4)] show ?thesis .
  next
    case (works i t t' db)
    from kept_inv [OF assms(1) works_kept [OF works(2,3) dist] assms(4)] show ?thesis by (simp add: works(1))
  qed
qed

lemma run_inv:
  assumes "tm_run env cfg (TransactionManager_new w db) n m" "local_storage_ok env" "n < 2 ^ 63 - 2"
  shows "tm_inv cfg n m"
  using assms
proof (induction rule: tm_run.induct)
  case start
  show ?case by (simp add: tm_inv_def TransactionManager_new_def keys_ok_def unat_START)
next
  case (step n m m')
  then show ?case using step_inv [of cfg n m env m'] by simp
qed

lemma tm_inv_unat:
  assumes "tm_inv cfg n m" "n < 2 ^ 63 - 2"
  shows "lastTimestamp m < lastTimestamp m + 1" "lastTimestamp m + 1 < START_TRANSACTION_ID" "lastTransactionID m < lastTransactionID m + 1"
    "lastTransactionID m < INVALID_TRANSACTION"
proof -
  have ts: "unat (lastTimestamp m) < 2 ^ 64 - 1" "unat (lastTransactionID m) < 2 ^ 64 - 1" using assms by (simp_all add: tm_inv_def)
  from this [THEN succ_greater] show "lastTimestamp m < lastTimestamp m + 1" "lastTransactionID m < lastTransactionID m + 1" by simp_all
  show "lastTimestamp m + 1 < START_TRANSACTION_ID"
    using assms by (simp add: word_less_nat_alt unat_succ [OF ts(1)] unat_START tm_inv_def)
  show "lastTransactionID m < INVALID_TRANSACTION"
    using succ_greater [OF ts(2)] word_order.not_eq_extremum [of "lastTransactionID m"] by (auto simp: INVALID_TRANSACTION_def)
qed

section \<open>Every call returns\<close>

abbreviation timeout_exn :: exn where
  "timeout_exn \<equiv> TransactionManagerException ''Timeout waiting for active transactions to leave the system before checkpointing. If you have an open transaction, please close it and try again.''"

lemma wait_loop_returns:
  assumes "unat timeout + 500 < 2 ^ 64" "unat n * 500 \<le> unat timeout"
  shows "wait_loop b timeout n = Some (if b then None else Some timeout_exn)"
  using assms(2)
proof (induction "unat timeout - unat n * 500" arbitrary: n rule: less_induct)
  case less
  have n: "unat (n + 1) = unat n + 1" using less.prems assms(1) by (intro unat_succ) simp
  then have prod: "unat ((n + 1) * 500) = (unat n + 1) * 500" using less.prems assms(1) by (simp add: unat_word_ariths)
  show ?case
  proof (cases "timeout < (n + 1) * 500")
    case False
    then have "unat (n + 1) * 500 \<le> unat timeout" by (simp only: word_less_nat_alt prod n)
    then have "wait_loop b timeout (n + 1) = Some (if b then None else Some timeout_exn)"
      using less.prems n by (intro less.hyps) simp_all
    with False show ?thesis
      by (subst wait_loop.simps) (cases b, simp_all add: THREAD_SLEEP_TIME_WHEN_WAITING_IN_MICROS_def)
  qed (subst wait_loop.simps, simp add: THREAD_SLEEP_TIME_WHEN_WAITING_IN_MICROS_def)
qed

lemma checkpointNoLock_returns:
  assumes "checkpointWaitTimeoutInMicros m = DEFAULT_CHECKPOINT_WAIT_TIMEOUT_IN_MICROS"
  shows "\<exists>m'. checkpointNoLock env cfg m = Some (if activeTransactions m \<noteq> [] then Some (CheckpointException timeout_exn)
    else if cfgInMemory cfg then None else map_option CheckpointException (fst (writeStorage env (database m))), m')"
proof -
  have "stopNewTransactionsAndWait m = Some (if activeTransactions m = [] then None else Some timeout_exn)"
    unfolding stopNewTransactionsAndWait_def hasNoActiveTransactions_def assms
    by (rule wait_loop_returns) (simp_all add: DEFAULT_CHECKPOINT_WAIT_TIMEOUT_IN_MICROS_def)
  then show ?thesis
    by (auto simp: checkpointNoLock_def writeCheckpoint_def split: prod.splits option.splits)
qed

lemma commit_returns:
  assumes ok: "local_storage_ok env" and t: "find_transaction i m = Some t" "undo_ok t"
    and timeout: "checkpointWaitTimeoutInMicros m = DEFAULT_CHECKPOINT_WAIT_TIMEOUT_IN_MICROS"
  shows "\<exists>e m'. commit env cfg i m = Some (e, m')"
proof (cases "txnType t = READ_ONLY \<or> \<not> (txnType t = RECOVERY \<or> txnType t = WRITE)")
  case True
  with t(1) show ?thesis by (auto simp: commit_def Let_def)
next
  case False
  let ?m0 = "m\<lparr>lastTimestamp := lastTimestamp m + 1\<rparr>" and ?t0 = "t\<lparr>txnCommitTS := lastTimestamp m + 1\<rparr>"
  obtain f t1 db where lc: "localCommit env (?t0, database ?m0) = (f, t1, db)" by (metis surj_pair)
  from local_storage_okD(1) [OF ok lc] have "undo_ok t1" using t(2) unfolding extends_def by simp
  then obtain es where es: "undo_inv (undoBuffer t1) es" ..
  have "\<exists>r. Transaction_commit env cfg ?t0 ?m0 = Some r"
    using lc by (cases f) (simp_all add: Transaction_commit_def UndoBuffer_commit_def iterate_entries [OF es] del: split_paired_Ex)
  then obtain e t2 m1 where c: "Transaction_commit env cfg ?t0 ?m0 = Some (e, t2, m1)" by auto
  note k = Transaction_commit_kept [OF ok c]
  have "checkpointWaitTimeoutInMicros (clearTransactionNoLock i m1) = DEFAULT_CHECKPOINT_WAIT_TIMEOUT_IN_MICROS"
    using k(3) timeout by simp
  from checkpointNoLock_returns [OF this] obtain e' m' where
    "checkpointNoLock env cfg (clearTransactionNoLock i m1) = Some (e', m')" by blast
  then show ?thesis using False t(1) c by (cases e) (simp_all add: commit_def Let_def)
qed

lemma for_entries_no_exn: "(\<And>u s. fst (f u s) = None) \<Longrightarrow> fst (for_entries f es s) = None"
proof (induction es arbitrary: s)
  case (Cons u es)
  obtain s' where "f u s = (None, s')" using Cons.prems [of u s] by (metis prod.collapse)
  with Cons show ?case by simp
qed simp

lemma rollbackRecord_no_exn: "fst (rollbackRecord undo_pk cap cgCap ts u db) = None"
  by (cases u; cases "snd u") (simp_all only: snd_conv rollbackRecord.simps fst_conv)

lemma rollback_returns:
  assumes t: "find_transaction i m = Some t" "undo_ok t" and type: "txnType t \<in> {READ_ONLY, WRITE, RECOVERY}"
  shows "\<exists>m'. rollback env cfg i m = Some (None, m') \<and> find_transaction i m' = None"
proof -
  obtain es where es: "undo_inv (undoBuffer t) es" using t(2) ..
  let ?r = "for_entries (rollbackRecord (undoPK env) (vectorCap env) (groupCap env) (txnCommitTS t)) (rev es) (database m)"
  have none: "fst ?r = None" by (rule for_entries_no_exn) (rule rollbackRecord_no_exn)
  then have "Transaction_rollback env t m = Some (None, m\<lparr>database := localRollback env t (snd ?r)\<rparr>)"
    unfolding Transaction_rollback_def UndoBuffer_rollback_def reverseIterate_entries [OF es] by (cases ?r) simp
  with type t(1) show ?thesis
    by (auto simp: rollback_def clearTransactionNoLock_def find_transaction_def find_None_iff)
qed

section \<open>Properties\<close>

text \<open>
  C4: the snapshots of concurrent transactions. In every state a sequence of calls leads to, for fewer
  calls than the counters have room for, the active transactions have different identifiers, and the next
  one is new; every one of them has a snapshot that no other transaction's changes are visible in before they
  commit, and the next commit is later than every snapshot; unless the configuration allows it, at most
  one transaction writes.
\<close>

theorem transaction_manager_invariant:
  assumes "local_storage_ok env" "tm_run env cfg (TransactionManager_new w db) n m" "n < 2 ^ 63 - 2"
  shows "distinct (map txnID (activeTransactions m)) \<and> lastTransactionID m + 1 \<notin> set (map txnID (activeTransactions m)) \<and>
    list_all (\<lambda>t. snapshot_ok (txnStartTS t) (txnID t) \<and> txnStartTS t < lastTimestamp m + 1) (activeTransactions m) \<and>
    lastTimestamp m + 1 < START_TRANSACTION_ID \<and>
    (enableMultiWrites cfg \<or> length (filter isWriteTransaction (activeTransactions m)) \<le> 1)"
proof -
  have inv: "tm_inv cfg n m" by (rule run_inv [OF assms(2,1,3)])
  then have ok: "keys_ok cfg (lastTransactionID m) (lastTimestamp m) (keys m)" by (simp add: tm_inv_def)
  note lt = tm_inv_unat [OF inv assms(3)]
  have "snapshot_ok (txnStartTS t) (txnID t) \<and> txnStartTS t < lastTimestamp m + 1 \<and> txnID t \<noteq> lastTransactionID m + 1"
    if "t \<in> set (activeTransactions m)" for t
  proof -
    have "START_TRANSACTION_ID < txnID t" "txnID t \<le> lastTransactionID m" "txnStartTS t \<le> lastTimestamp m"
      using ok that by (auto simp: keys_ok_def list_all_iff key_def)
    with lt show ?thesis by (auto simp: snapshot_ok_def)
  qed
  then have "list_all (\<lambda>t. snapshot_ok (txnStartTS t) (txnID t) \<and> txnStartTS t < lastTimestamp m + 1) (activeTransactions m)"
    "lastTransactionID m + 1 \<notin> set (map txnID (activeTransactions m))" by (simp_all add: list_all_iff) force
  moreover have "distinct (map txnID (activeTransactions m))" using ok by (simp add: keys_ok_def comp_def)
  moreover have "enableMultiWrites cfg \<or> length (filter isWriteTransaction (activeTransactions m)) \<le> 1"
    using ok by (simp add: keys_ok_def filter_map comp_def key_def isWriteTransaction_def [abs_def])
  ultimately show ?thesis using lt(2) by simp
qed

definition sample_env :: "(unit, unit, nat, unit) Environment" where
  "sample_env = \<lparr>serX = (\<lambda>_. []), serV = (\<lambda>_. []), vectorCap = 2, groupCap = 4, undoPK = (\<lambda>_ _ _ _. ()),
     localCommit = (\<lambda>(t, db). (None, t, db)), localRollback = (\<lambda>_ db. db), writeStorage = (\<lambda>db. (None, db)), undoStorage = (\<lambda>db. db)\<rparr>"

definition sample_cfg :: DBConfig where
  "sample_cfg = \<lparr>cfgInMemory = False, enableMultiWrites = False, autoCheckpoint = False, checkpointThreshold = 0, databaseID = 7\<rparr>"

definition sample_manager :: "(unit, unit, nat, unit) TransactionManager" where
  "sample_manager = snd (beginTransaction sample_cfg READ_ONLY (snd (beginTransaction sample_cfg WRITE
     (TransactionManager_new (WAL_new True) sample_db))))"

lemma sample_env_ok: "local_storage_ok sample_env"
  by (simp add: local_storage_ok_def sample_env_def extends_def)

lemma sample_run: "tm_run sample_env sample_cfg (TransactionManager_new (WAL_new True) sample_db) (Suc (Suc 0)) sample_manager"
  unfolding sample_manager_def
  by (rule tm_run.step, rule tm_run.step, rule tm_run.start) (rule tm_step.begins [OF surjective_pairing])+

lemma sample_active: "map key (activeTransactions sample_manager) =
    [(START_TRANSACTION_ID + 1, WRITE, 1), (START_TRANSACTION_ID + 2, READ_ONLY, 1)]"
  by (simp add: sample_manager_def beginTransaction_def sample_cfg_def TransactionManager_new_def Transaction_new_def key_def Let_def
      hasActiveWriteTransactionNoLock_def shouldLogToWAL_def log_record_def)

theorem transaction_manager_invariant_witness:
  "map key (activeTransactions sample_manager) = [(START_TRANSACTION_ID + 1, WRITE, 1), (START_TRANSACTION_ID + 2, READ_ONLY, 1)] \<and>
   distinct (map txnID (activeTransactions sample_manager)) \<and> length (filter isWriteTransaction (activeTransactions sample_manager)) \<le> 1 \<and>
   list_all (\<lambda>t. snapshot_ok (txnStartTS t) (txnID t)) (activeTransactions sample_manager)"
  using transaction_manager_invariant [OF sample_env_ok sample_run] sample_active by (auto simp: sample_cfg_def list_all_iff)



end
