(* ===== verification/Statement_Run.thy ===== *)
theory Statement_Run
  imports Transaction_Runs
begin

text \<open>
  The execution of a statement by a connection: whatever happens in it, the transaction begun for it is ended.
\<close>

section \<open>How a commit ends\<close>

lemma commitRecord_exn:
  assumes "commitRecord cap cgCap ts u db = (Some e, db')"
  shows "e \<noteq> CheckpointException x"
  using assms
proof (cases "(cap, cgCap, ts, u, db)" rule: commitRecord.cases)
  case (4 cap cgCap ts type r vectorIdx info ver db)
  with assms show ?thesis
    by (auto simp: commitVectorUpdateInfo_def UpdateInfo_commit_def getUpdateNode_def split: sum.splits if_splits)
qed auto

lemma for_entries_exn:
  assumes "\<And>u s e s'. f u s = (Some e, s') \<Longrightarrow> P e" "for_entries f es s = (Some e, s')"
  shows "P e"
  using assms(2)
proof (induction es arbitrary: s)
  case (Cons u es)
  then show ?case using assms(1) by (cases "f u s") (auto split: option.splits)
qed simp

lemma Transaction_commit_exn:
  assumes ok: "local_storage_ok env" and "undo_ok t" and res: "Transaction_commit env cfg t m = Some (Some e, t', m')"
  shows "e \<noteq> CheckpointException x"
proof -
  obtain f t1 db where lc: "localCommit env (t, database m) = (f, t1, db)" by (metis surj_pair)
  from local_storage_okD(1) [OF ok lc] assms(2) obtain es where es: "undo_inv (undoBuffer t1) es" unfolding extends_def by auto
  show ?thesis
  proof (cases f)
    case None
    let ?r = "for_entries (commitRecord (vectorCap env) (groupCap env) (txnCommitTS t1)) es db"
    have "fst ?r = Some e"
      using res lc None by (cases ?r) (auto simp: Transaction_commit_def UndoBuffer_commit_def iterate_entries [OF es] split: option.splits)
    then show ?thesis
      using for_entries_exn [of "commitRecord (vectorCap env) (groupCap env) (txnCommitTS t1)" "\<lambda>e. e \<noteq> CheckpointException x" es db e]
        commitRecord_exn by (metis prod.collapse)
  next
    case (Some a)
    with res lc have "f = Some e" by (simp add: Transaction_commit_def)
    with local_storage_okD(2) [OF ok lc] show ?thesis by blast
  qed
qed

lemma find_clear: "find_transaction i (clearTransactionNoLock i m) = None"
  by (auto simp: find_transaction_def clearTransactionNoLock_def find_None_iff)

lemma checkpointNoLock_exn:
  "checkpointNoLock env cfg m = Some (e, m') \<Longrightarrow> e = None \<or> (\<exists>x. e = Some (CheckpointException x))"
  by (auto simp: checkpointNoLock_def split: option.splits prod.splits)

text \<open>
  Either the transaction is gone, and the only exception can be the one of the checkpoint, or it is still there after
  another exception.
\<close>

lemma commit_ends:
  assumes ok: "local_storage_ok env" and t: "find_transaction i m = Some t" "undo_ok t" "txnType t \<in> {READ_ONLY, WRITE, RECOVERY}"
    and res: "commit env cfg i m = Some (e, m')"
  obtains (ended) "find_transaction i m' = None" "e = None \<or> (\<exists>x. e = Some (CheckpointException x))"
    | (failed) t' where "find_transaction i m' = Some t'" "e \<noteq> None" "\<And>x. e \<noteq> Some (CheckpointException x)" "undo_ok t'" "txnType t' = txnType t"
proof (cases "txnType t = READ_ONLY")
  case True
  with res t(1) have "m' = clearTransactionNoLock i m" "e = None" by (simp_all add: commit_def)
  then show thesis by (intro ended) (simp_all add: find_clear)
next
  case False
  let ?m0 = "m\<lparr>lastTimestamp := lastTimestamp m + 1\<rparr>" and ?t0 = "t\<lparr>txnCommitTS := lastTimestamp m + 1\<rparr>"
  have writes: "txnType t \<noteq> READ_ONLY" "txnType t = RECOVERY \<or> txnType t = WRITE" using False t(3) by auto
  then obtain f t1 m1 where c: "Transaction_commit env cfg ?t0 ?m0 = Some (f, t1, m1)"
    using res t(1) by (auto simp: commit_def Let_def bind_eq_Some_conv)
  note k = Transaction_commit_kept [OF ok c]
  show thesis
  proof (cases f)
    case (Some a)
    have id: "txnID t1 = i" "txnType t1 = txnType t" using k(5) find_transactionD [OF t(1)] by (simp_all add: key_def)
    have m': "m' = put_transaction t1 m1" "e = Some a" using res t(1) writes c Some by (auto simp: commit_def Let_def)
    have "find_transaction i m' = Some t1"
      using t(1) id(1) k(1) unfolding m' find_transaction_def put_transaction_def by (auto simp: find_Some_iff)
    then show thesis using m'(2) id(2) k(6) t(2) Transaction_commit_exn [OF ok _ c [unfolded Some]] by (intro failed [of t1]) auto
  next
    case None
    let ?m2 = "clearTransactionNoLock i m1"
    have "m' = ?m2 \<and> e = None \<or> checkpointNoLock env cfg ?m2 = Some (e, m')"
      using res t(1) writes c None by (auto simp: commit_def Let_def split: if_splits)
    then have "activeTransactions m' = activeTransactions ?m2" "e = None \<or> (\<exists>x. e = Some (CheckpointException x))"
      using checkpointNoLock_kept(1) checkpointNoLock_exn by blast+
    moreover have "find_transaction i m' = None" using find_clear [of i m1] calculation(1) by (simp add: find_transaction_def)
    ultimately show thesis by (intro ended)
  qed
qed

section \<open>How a statement ends\<close>

lemma run_trans: "tm_run env cfg m k m' \<Longrightarrow> tm_run env cfg m0 n m \<Longrightarrow> tm_run env cfg m0 (n + k) m'"
  by (induction rule: tm_run.induct) (auto intro: tm_run.step)

lemma cleanup_ends:
  assumes "activeTransaction c = Some i" "find_transaction i m = Some t" "undo_ok t" "txnType t \<in> {READ_ONLY, WRITE, RECOVERY}"
    and "\<And>x. e \<noteq> CheckpointException x"
  shows "\<exists>m'. cleanup env cfg e (c, m) = Some (Some e, clearTransaction c, m') \<and> find_transaction i m' = None"
proof -
  obtain m' where "rollback env cfg i m = Some (None, m')" "find_transaction i m' = None"
    using rollback_returns [OF assms(2-4)] by blast
  with assms(1) show ?thesis using assms(5) by (cases e) (auto simp: cleanup_def end_with_def)
qed

lemma commit_or_cleanup_ends:
  assumes ok: "local_storage_ok env" and inv: "tm_inv cfg n m" and c: "activeTransaction c = Some i" and t: "find_transaction i m = Some t"
  shows "\<exists>e m'. Option.bind (TransactionContext_commit env cfg (c, m)) (\<lambda>(failed, x).
      case failed of None \<Rightarrow> Some (None, x) | Some e \<Rightarrow> cleanup env cfg e x) = Some (e, clearTransaction c, m') \<and> find_transaction i m' = None"
proof -
  have t': "undo_ok t" "txnType t \<in> {READ_ONLY, WRITE, RECOVERY}" "checkpointWaitTimeoutInMicros m = DEFAULT_CHECKPOINT_WAIT_TIMEOUT_IN_MICROS"
    using inv find_transactionD [OF t] by (auto simp: tm_inv_def keys_ok_def list_all_iff key_def)
  obtain e m' where res: "commit env cfg i m = Some (e, m')" using commit_returns [OF ok t t'(1,3)] by blast
  from ok t t'(1,2) res show ?thesis
  proof (cases rule: commit_ends)
    case ended
    with res c show ?thesis by (auto simp: end_with_def cleanup_def)
  next
    case (failed t2)
    then obtain a where a: "e = Some a" "\<And>x. a \<noteq> CheckpointException x" by auto
    have "txnType t2 \<in> {READ_ONLY, WRITE, RECOVERY}" using failed(5) t'(2) by simp
    from cleanup_ends [OF c failed(1,4) this a(2), of env cfg] res c a(1) show ?thesis by (auto simp: end_with_def)
  qed
qed

text \<open>
  What a statement does: it returns, leaves the context alone and its transaction active, while this connection and
  others make some calls to the manager; it throws any exception but the one of a checkpoint.
\<close>

definition statement_ok :: "('x, 'v, 'c, 'i) Environment \<Rightarrow> DBConfig \<Rightarrow> nat \<Rightarrow>
    (('x, 'v, 'c, 'i) connection \<Rightarrow> (exn option \<times> ('x, 'v, 'c, 'i) connection) option) \<Rightarrow> bool" where
  "statement_ok env cfg k f \<longleftrightarrow> (\<forall>c m i. activeTransaction c = Some i \<and> find_transaction i m \<noteq> None \<longrightarrow>
     (\<exists>e m'. f (c, m) = Some (e, c, m') \<and> tm_run env cfg m k m' \<and> find_transaction i m' \<noteq> None \<and>
        (\<forall>x. e \<noteq> Some (CheckpointException x))))"

lemma statement_okD:
  assumes "statement_ok env cfg k f" "activeTransaction c = Some i" "find_transaction i m \<noteq> None"
  obtains e m' t where "f (c, m) = Some (e, c, m')" "tm_run env cfg m k m'" "find_transaction i m' = Some t" "\<And>x. e \<noteq> Some (CheckpointException x)"
  using assms unfolding statement_ok_def by blast

lemma begun_active:
  assumes "beginTransaction cfg type m = (Inr i, m')"
  shows "i = lastTransactionID m + 1" "find_transaction (lastTransactionID m + 1) m' \<noteq> None"
  using assms
  by (cases type; auto simp: beginTransaction_def find_transaction_def find_None_iff Transaction_new_def log_record_def Let_def split: if_splits)+



text \<open>
  C40: a \<^verbatim>\<open>BEGIN TRANSACTION\<close> that is refused because another connection writes strands the connection. The
  mode is set before the manager is asked, and neither the exception nor the rollback of the handler, which returns at
  once without a transaction, sets it back: the connection is in manual mode without a transaction, and
  the next statement runs without any.
\<close>

theorem refused_begin_strands_connection:
  assumes "hasActiveWriteTransactionNoLock m" "\<not> enableMultiWrites cfg" "mode c = AUTO" "activeTransaction c = None"
  shows "\<exists>e c'. runFuncInTransaction env cfg (execute_action env cfg BEGIN_WRITE) readOnlyStatement True action (c, m) = Some (Some e, c', m) \<and>
    mode c' = MANUAL \<and> activeTransaction c' = None \<and>
    (\<forall>f m'. f (c', m) = Some (None, c', m') \<longrightarrow> runFuncInTransaction env cfg f readOnly False action' (c', m) = Some (None, c', m'))"
proof -
  have refused: "execute_action env cfg BEGIN_WRITE (c, m) =
      Some (Some (TransactionManagerException ''Cannot start a new write transaction in the system. Only one write transaction at a time is allowed in the system.''), c\<lparr>mode := MANUAL\<rparr>, m)"
    using assms by (simp add: execute_action_def hasActiveTransaction_def begin_manual_def beginTransactionInternal_def beginTransaction_def)
  then have "runFuncInTransaction env cfg (execute_action env cfg BEGIN_WRITE) readOnlyStatement True action (c, m) =
      Some (Some (TransactionManagerException ''Cannot start a new write transaction in the system. Only one write transaction at a time is allowed in the system.''), c\<lparr>mode := MANUAL\<rparr>, m)"
    using assms by (simp add: runFuncInTransaction_def cleanup_def end_with_def)
  then show ?thesis using assms(4) by (auto simp: runFuncInTransaction_def)
qed

theorem refused_begin_strands_connection_witness:
  "\<exists>e c'. runFuncInTransaction sample_env sample_cfg (execute_action sample_env sample_cfg BEGIN_WRITE) True True NOT_COMMIT
      (TransactionContext_new, sample_manager) = Some (Some e, c', sample_manager) \<and> mode c' = MANUAL \<and> activeTransaction c' = None \<and>
    runFuncInTransaction sample_env sample_cfg (\<lambda>x. Some (None, x)) False False COMMIT_IF_NEW (c', sample_manager) = Some (None, c', sample_manager)"
proof -
  have "hasActiveWriteTransactionNoLock sample_manager"
    using sample_active by (cases "activeTransactions sample_manager") (auto simp: hasActiveWriteTransactionNoLock_def isWriteTransaction_def key_def)
  from refused_begin_strands_connection [OF this, of sample_cfg TransactionContext_new sample_env True NOT_COMMIT False COMMIT_IF_NEW]
  show ?thesis by (auto simp: sample_cfg_def TransactionContext_new_def)
qed

end
