(* ===== verification/Durable_Commit.thy ===== *)
theory Durable_Commit
  imports Transaction_Runs
begin

text \<open>
  The log of the database under sequences of calls to the transaction manager: it holds the records of the
  transactions that were committed since the last checkpoint, and a restart reads them back.
\<close>

section \<open>What a call does to the log\<close>

definition emptied :: "WAL \<Rightarrow> WAL" where
  "emptied w = w\<lparr>walWriter := None, walFile := []\<rparr>"

lemma commit_all_snoc:
  "logCommittedWAL d (localWAL_of sx sv en rs) (commit_all sx sv d en txs) = commit_all sx sv d en (txs @ [rs])"
  by (simp add: commit_all_def)

lemma logCommittedWAL_flags:
  "walChecksums (logCommittedWAL d l w) = walChecksums w" "inMemory (logCommittedWAL d l w) = inMemory w"
  by (simp_all add: logCommittedWAL_def initWriter_def flushAndSyncNoLock_def Let_def split: option.split)

lemma commit_all_flags:
  "walChecksums (commit_all sx sv d en txs) = en" "inMemory (commit_all sx sv d en txs) = False"
proof -
  have "walChecksums (fold (\<lambda>rs. logCommittedWAL d (localWAL_of sx sv en rs)) txs w) = walChecksums w \<and>
    inMemory (fold (\<lambda>rs. logCommittedWAL d (localWAL_of sx sv en rs)) txs w) = inMemory w" for w
    by (induction txs arbitrary: w) (simp_all add: logCommittedWAL_flags)
  then show "walChecksums (commit_all sx sv d en txs) = en" "inMemory (commit_all sx sv d en txs) = False"
    by (simp_all add: commit_all_def WAL_new_def)
qed

lemma emptied_commit_all: "emptied (commit_all sx sv d en txs) = commit_all sx sv d en []"
proof -
  have "emptied w = WAL_new (walChecksums w)" if "inMemory w = False" for w :: WAL
    using that by (cases w) (simp add: emptied_def WAL_new_def)
  then show ?thesis by (simp add: commit_all_flags) (simp add: commit_all_def)
qed

lemma checkpointNoLock_wal:
  assumes "checkpointNoLock env cfg m = Some (e, m')"
  shows "wal m' = wal m \<or> wal m' = emptied (wal m)"
proof -
  have "WAL_reset (WAL_clear (logAndFlushCheckpoint (serX env) (serV env) (databaseID cfg) (wal m))) = emptied (wal m)"
    by (simp add: WAL_reset_def WAL_clear_def logAndFlushCheckpoint_def flushAndSyncNoLock_def initWriter_def emptied_def Let_def split: option.split)
  with assms show ?thesis
    by (auto simp: checkpointNoLock_def writeCheckpoint_def rollbackCheckpoint_def split: option.splits prod.splits if_splits)
qed

text \<open>
  \<open>committing env m t\<close> is the transaction after the commit of its local storage, \<open>logged env m t\<close> what a
  commit appends to the log for it.
\<close>

definition committing :: "('x, 'v, 'c, 'i) Environment \<Rightarrow> ('x, 'v, 'c, 'i) TransactionManager \<Rightarrow> ('x, 'v) ActiveTransaction \<Rightarrow>
    ('x, 'v) ActiveTransaction" where
  "committing env m t = fst (snd (localCommit env (t\<lparr>txnCommitTS := lastTimestamp m + 1\<rparr>, database m)))"

definition logged :: "('x, 'v, 'c, 'i) Environment \<Rightarrow> ('x, 'v, 'c, 'i) TransactionManager \<Rightarrow> ('x, 'v) ActiveTransaction \<Rightarrow>
    ('x, 'v) WALRecord list" where
  "logged env m t = localWAL (committing env m t) @ [CommitRecord]"

abbreviation appended :: "('x, 'v, 'c, 'i) Environment \<Rightarrow> DBConfig \<Rightarrow> ('x, 'v) WALRecord list \<Rightarrow> WAL \<Rightarrow> WAL" where
  "appended env cfg rs w \<equiv> logCommittedWAL (databaseID cfg) (localWAL_of (serX env) (serV env) (walChecksums w) rs) w"

lemma Transaction_commit_wal:
  assumes "Transaction_commit env cfg (t\<lparr>txnCommitTS := lastTimestamp m + 1\<rparr>) (m\<lparr>lastTimestamp := lastTimestamp m + 1\<rparr>) = Some (e, t', m')"
  shows "shouldForceCheckpoint t' = shouldForceCheckpoint (committing env m t)" "e \<noteq> None \<Longrightarrow> wal m' = wal m \<and> t' = committing env m t"
    "e = None \<Longrightarrow> wal m' = (if shouldLogToWAL (committing env m t) then appended env cfg (logged env m t) (wal m) else wal m)"
proof -
  obtain f db where lc: "localCommit env (t\<lparr>txnCommitTS := lastTimestamp m + 1\<rparr>, database m) = (f, committing env m t, db)"
    unfolding committing_def by (metis prod.collapse)
  have "shouldForceCheckpoint t' = shouldForceCheckpoint (committing env m t) \<and> (e \<noteq> None \<longrightarrow> wal m' = wal m \<and> t' = committing env m t) \<and>
    (e = None \<longrightarrow> wal m' = (if shouldLogToWAL (committing env m t) then appended env cfg (logged env m t) (wal m) else wal m))"
  proof (cases f)
    case None
    then obtain g db2 where g: "UndoBuffer_commit (vectorCap env) (groupCap env) (txnCommitTS (committing env m t)) (undoBuffer (committing env m t)) db = Some (g, db2)"
      using assms lc by (auto simp: Transaction_commit_def)
    with None assms lc show ?thesis
      by (cases g) (auto simp: Transaction_commit_def commit_logs_def Let_def logged_def log_record_def shouldForceCheckpoint_def split: if_splits)
  qed (use assms lc in \<open>auto simp: Transaction_commit_def\<close>)
  then show "shouldForceCheckpoint t' = shouldForceCheckpoint (committing env m t)" "e \<noteq> None \<Longrightarrow> wal m' = wal m \<and> t' = committing env m t"
    "e = None \<Longrightarrow> wal m' = (if shouldLogToWAL (committing env m t) then appended env cfg (logged env m t) (wal m) else wal m)" by simp_all
qed

text \<open>The outcomes of a commit: nothing but the transaction changed, the log did not change, or it got the records of the transaction.\<close>

lemma commit_wal:
  assumes ok: "local_storage_ok env" and t: "find_transaction i m = Some t" and res: "commit env cfg i m = Some (e, m')"
  obtains (kept) "wal m' = wal m" "set (activeTransactions m') \<subseteq> insert (committing env m t) (set (activeTransactions m))"
      "e \<noteq> None \<or> \<not> shouldLogToWAL t"
    | (committed) w where "w = (if shouldLogToWAL t then appended env cfg (logged env m t) (wal m) else wal m)"
      "wal m' = w \<or> wal m' = emptied w \<and> (shouldForceCheckpoint (committing env m t) \<or> autoCheckpoint cfg)" "set (activeTransactions m') \<subseteq> set (activeTransactions m)"
proof -
  let ?m0 = "m\<lparr>lastTimestamp := lastTimestamp m + 1\<rparr>" and ?t0 = "t\<lparr>txnCommitTS := lastTimestamp m + 1\<rparr>"
  consider (reads) "txnType t = READ_ONLY" | (other) "txnType t \<noteq> READ_ONLY" "\<not> (txnType t = RECOVERY \<or> txnType t = WRITE)"
    | (writes) "txnType t \<noteq> READ_ONLY" "txnType t = RECOVERY \<or> txnType t = WRITE" by blast
  then show thesis
  proof cases
    case reads
    with res t have "m' = clearTransactionNoLock i m" by (simp add: commit_def)
    with reads show thesis by (intro kept) (auto simp: clearTransactionNoLock_def shouldLogToWAL_def)
  next
    case other
    with res t have "m' = m" "e \<noteq> None" by (auto simp: commit_def)
    then show thesis by (intro kept) auto
  next
    case writes
    then obtain f t1 m1 where c: "Transaction_commit env cfg ?t0 ?m0 = Some (f, t1, m1)"
      using res t by (auto simp: commit_def Let_def bind_eq_Some_conv)
    note k = Transaction_commit_kept [OF ok c] and w = Transaction_commit_wal [OF c]
    obtain f' db where "localCommit env (?t0, database m) = (f', committing env m t, db)"
      unfolding committing_def by (metis prod.collapse)
    from local_storage_okD(1) [OF ok this] have log: "shouldLogToWAL (committing env m t) = shouldLogToWAL t"
      by (simp add: extends_def shouldLogToWAL_def key_def)
    show thesis
    proof (cases f)
      case (Some a)
      then have m': "m' = put_transaction t1 m1" "e \<noteq> None" using res t writes c by (auto simp: commit_def Let_def)
      with w(2) Some k(1) show thesis by (intro kept) (auto simp: put_transaction_def)
    next
      case None
      let ?m2 = "clearTransactionNoLock i m1"
      have "m' = ?m2 \<or> (shouldForceCheckpoint t1 \<or> autoCheckpoint cfg) \<and> checkpointNoLock env cfg ?m2 = Some (e, m')"
        using res t writes c None by (auto simp: commit_def canAutoCheckpoint_def Let_def split: if_splits)
      then have "activeTransactions m' = activeTransactions ?m2"
        "wal m' = wal ?m2 \<or> wal m' = emptied (wal ?m2) \<and> (shouldForceCheckpoint (committing env m t) \<or> autoCheckpoint cfg)"
        using checkpointNoLock_kept(1) checkpointNoLock_wal w(1) by blast+
      with w(3) [OF None] k(1) log show thesis
        by (intro committed [of "wal m1"]) (auto simp: clearTransactionNoLock_def)
    qed
  qed
qed

section \<open>The log in every reachable state\<close>

abbreviation log_of :: "('x, 'v, 'c, 'i) Environment \<Rightarrow> DBConfig \<Rightarrow> bool \<Rightarrow> ('x, 'v) WALRecord list list \<Rightarrow> WAL" where
  "log_of env cfg en \<equiv> commit_all (serX env) (serV env) (databaseID cfg) en"

definition log_ok :: "('x, 'v, 'c, 'i) Environment \<Rightarrow> DBConfig \<Rightarrow> bool \<Rightarrow> ('x, 'v, 'c, 'i) TransactionManager \<Rightarrow> bool" where
  "log_ok env cfg en m \<longleftrightarrow> (\<exists>txs. wal m = log_of env cfg en txs \<and> list_all logged_transaction txs) \<and>
     list_all (\<lambda>t. list_all data_record (localWAL t)) (activeTransactions m)"

lemma log_okI:
  assumes "log_ok env cfg en m" "wal m' = wal m \<or> wal m' = emptied (wal m)"
    "\<And>t. t \<in> set (activeTransactions m') \<Longrightarrow> t \<in> set (activeTransactions m) \<or> list_all data_record (localWAL t)"
  shows "log_ok env cfg en m'"
proof -
  obtain txs where "wal m = log_of env cfg en txs" "list_all logged_transaction txs" using assms(1) by (auto simp: log_ok_def)
  with assms(2) have "\<exists>txs. wal m' = log_of env cfg en txs \<and> list_all logged_transaction txs"
    using emptied_commit_all by (metis list.pred_inject(1))
  with assms(1,3) show ?thesis by (auto simp: log_ok_def list_all_iff)
qed

lemma committing_records:
  assumes "local_storage_ok env" "list_all data_record (localWAL t)"
  shows "list_all data_record (localWAL (committing env m t))" "logged_transaction (logged env m t)"
proof -
  obtain f db where "localCommit env (t\<lparr>txnCommitTS := lastTimestamp m + 1\<rparr>, database m) = (f, committing env m t, db)"
    unfolding committing_def by (metis prod.collapse)
  from local_storage_okD(1) [OF assms(1) this] assms(2) show "list_all data_record (localWAL (committing env m t))"
    by (simp add: extends_def)
  then show "logged_transaction (logged env m t)"
    by (simp add: logged_transaction_def logged_def data_record_def [abs_def])
qed

lemma commit_log_ok:
  assumes ok: "local_storage_ok env" and log: "log_ok env cfg en m" and t: "find_transaction i m = Some t"
    and res: "commit env cfg i m = Some (e, m')"
  shows "log_ok env cfg en m'"
proof -
  have t': "list_all data_record (localWAL t)" using log find_transactionD [OF t] by (auto simp: log_ok_def list_all_iff)
  note records = committing_records [OF ok t', of m]
  from ok t res show ?thesis
  proof (cases rule: commit_wal)
    case kept
    with records(1) show ?thesis by (intro log_okI [OF log]) auto
  next
    case (committed w)
    obtain txs where txs: "wal m = log_of env cfg en txs" "list_all logged_transaction txs" using log by (auto simp: log_ok_def)
    then have "appended env cfg (logged env m t) (wal m) = log_of env cfg en (txs @ [logged env m t])"
      by (simp add: commit_all_flags commit_all_snoc)
    then have "log_ok env cfg en (m\<lparr>wal := w\<rparr>)"
      using log txs records(2) committed(1) by (auto simp: log_ok_def intro!: exI [of _ "txs @ [logged env m t]"])
    from log_okI [OF this, of m'] committed(2,3) show ?thesis by auto
  qed
qed

lemma step_log_ok:
  assumes "local_storage_ok env" "log_ok env cfg en m" "tm_step env cfg m m'"
  shows "log_ok env cfg en m'"
  using assms(3)
proof (cases rule: tm_step.cases)
  case (begins type r)
  then have "wal m' = wal m"
    by (cases type) (auto simp: beginTransaction_def Let_def split: if_splits)
  moreover have "t \<in> set (activeTransactions m) \<or> list_all data_record (localWAL t)" if "t \<in> set (activeTransactions m')" for t
    using begins that by (cases type) (auto simp: beginTransaction_def Let_def Transaction_new_def log_record_def data_record_def split: if_splits)
  ultimately show ?thesis by (intro log_okI [OF assms(2)]) auto
next
  case (commits i t e)
  show ?thesis by (rule commit_log_ok [OF assms(1,2) commits])
next
  case (rolls_back i t e)
  then show ?thesis
    by (cases rule: rollback_cases) (intro log_okI [OF assms(2)], auto simp: clearTransactionNoLock_def)+
next
  case (checkpoints e)
  then have "m' = m \<or> checkpointNoLock env cfg m = Some (e, m')" by (auto simp: checkpoint_def split: if_splits)
  then show ?thesis
    using checkpointNoLock_wal checkpointNoLock_kept(1) assms(2) by (metis log_okI)
next
  case (works i t t' db)
  have "list_all data_record (localWAL t')"
    using works(2,3) assms(2) find_transactionD [OF works(2)] by (auto simp: extends_def log_ok_def list_all_iff)
  then show ?thesis by (intro log_okI [OF assms(2)]) (auto simp: works(1) put_transaction_def)
qed

lemma run_log_ok:
  assumes "tm_run env cfg (TransactionManager_new (WAL_new en) db) n m" "local_storage_ok env"
  shows "log_ok env cfg en m"
  using assms
proof (induction rule: tm_run.induct)
  case start
  show ?case by (auto simp: log_ok_def TransactionManager_new_def commit_all_def intro!: exI [of _ "[]"])
qed (auto intro: step_log_ok)

section \<open>Properties\<close>

lemma replay_log:
  assumes format: "log_format sx dx vx sv dv vv" and "list_all (list_all (record_fits vx vv)) txs" "list_all logged_transaction txs" "txs \<noteq> []"
  shows "\<exists>rs'. replay (WALRecord_deserialize addr dx dv) d False False en (Some (walFile (commit_all sx sv d en txs))) =
      Some (Inr (ReplayRecords rs' (Some (walFile (commit_all sx sv d en txs))))) \<and> list_all2 same_record (concat txs) rs'"
proof -
  have one: "list_all (list_all (record_fits vx vv)) (txs @ [[CommitRecord]])" "list_all logged_transaction (txs @ [[CommitRecord]])"
    using assms(2,3) by (simp_all add: logged_transaction_def)
  have "record_bytes sx sv en [CommitRecord] \<noteq> []" by (rule record_bytes_not_Nil) simp
  from log_format.replay_cut_log [OF format one _ this assms(4), where p = "[]"] show ?thesis
    by (simp add: commit_all_file [OF assms(3,4)])
qed


text \<open>The writing transaction of the sample commits; its log is read back.\<close>

definition sample_committer :: "(unit, unit) ActiveTransaction" where
  "sample_committer = log_record BeginTransactionRecord (Transaction_new False WRITE (START_TRANSACTION_ID + 1) 1)"

lemma sample_committer_facts:
  "find_transaction (START_TRANSACTION_ID + 1) sample_manager = Some sample_committer" "shouldLogToWAL sample_committer"
  "logged sample_env sample_manager sample_committer = [BeginTransactionRecord, CommitRecord]" "wal sample_manager = WAL_new True"
  "\<not> shouldForceCheckpoint (committing sample_env sample_manager sample_committer)" "\<not> autoCheckpoint sample_cfg" "databaseID sample_cfg = 7"
  by (simp_all add: sample_committer_def sample_manager_def beginTransaction_def sample_cfg_def TransactionManager_new_def Transaction_new_def
      Let_def hasActiveWriteTransactionNoLock_def shouldLogToWAL_def log_record_def find_transaction_def logged_def committing_def sample_env_def shouldForceCheckpoint_def)

lemma sample_log: "WAL_new en = log_of sample_env sample_cfg en txs \<Longrightarrow> list_all logged_transaction txs \<Longrightarrow> txs = []"
  using commit_all_file [of txs "serX sample_env" "serV sample_env" "databaseID sample_cfg" en]
  by (cases "txs = []") (auto simp: frame_def serializeBool_def WAL_new_def dest!: arg_cong [where f = walFile])

lemma sample_commit: "\<exists>m'. commit sample_env sample_cfg (START_TRANSACTION_ID + 1) sample_manager = Some (None, m')"
  using sample_committer_facts(1)
  by (simp add: commit_def Transaction_commit_def sample_env_def UndoBuffer_commit_def sample_committer_def Transaction_new_def log_record_def
      Let_def commit_logs_def shouldLogToWAL_def shouldForceCheckpoint_def canAutoCheckpoint_def sample_cfg_def)

lemma unit_log_format: "log_format (\<lambda>_. []) (\<lambda>bs. Some ((), bs)) (\<lambda>_. True) (\<lambda>_. []) (\<lambda>bs. Some ((), bs)) (\<lambda>_. True)"
  by unfold_locales (simp_all add: incremental_return)


end
