(* ===== verification/Version_Runs.thy ===== *)
theory Version_Runs
  imports Version_Scan
begin

text \<open>
  The representation of row versions under sequences of operations: what the version vectors look like in every state
  that appends, deletions, commits and rollbacks lead to.
\<close>

section \<open>Sequences of operations\<close>

text \<open>
  A transaction commits or rolls back the rows it inserted or deleted. An insertion is rolled back where no
  row is deleted: with a deletion in the same vector the operation leaves the deletion array behind a
  status that says there is none.
\<close>

inductive version_run :: "nat \<Rightarrow> VersionInfo \<Rightarrow> bool" for cap where
  created: "version_run cap VersionInfo_new"
| appended: "version_run cap vi \<Longrightarrow> transactionID \<noteq> INVALID_TRANSACTION \<Longrightarrow> appendable cap startRow vi \<Longrightarrow>
    version_run cap (VersionInfo_append cap transactionID startRow numRows vi)"
| deleted: "version_run cap vi \<Longrightarrow> transactionID \<noteq> INVALID_TRANSACTION \<Longrightarrow> row_ins cap vi row \<noteq> INVALID_TRANSACTION \<Longrightarrow>
    version_run cap (snd (VersionInfo_delete cap transactionID row vi))"
| insert_committed: "version_run cap vi \<Longrightarrow> uncommitted t \<Longrightarrow> list_all (\<lambda>row. row_ins cap vi row = t) [startRow..<startRow + numRows] \<Longrightarrow>
    commitTS < START_TRANSACTION_ID \<Longrightarrow> version_run cap (VersionInfo_commitInsert cap startRow numRows commitTS vi)"
| insert_rolled_back: "version_run cap vi \<Longrightarrow> uncommitted t \<Longrightarrow> list_all (\<lambda>row. row_ins cap vi row = t) [startRow..<startRow + numRows] \<Longrightarrow>
    list_all (\<lambda>row. deletionStatus (vector_or_new (row div cap) vi) = NO_DELETED) [startRow..<startRow + numRows] \<Longrightarrow>
    version_run cap (VersionInfo_rollbackInsert cap startRow numRows vi)"
| delete_committed: "version_run cap vi \<Longrightarrow> uncommitted t \<Longrightarrow> list_all (\<lambda>row. row_del cap vi row = t) [startRow..<startRow + numRows] \<Longrightarrow>
    commitTS < START_TRANSACTION_ID \<Longrightarrow> version_run cap (VersionInfo_commitDelete cap startRow numRows commitTS vi)"
| delete_rolled_back: "version_run cap vi \<Longrightarrow> uncommitted t \<Longrightarrow> list_all (\<lambda>row. row_del cap vi row = t) [startRow..<startRow + numRows] \<Longrightarrow>
    version_run cap (VersionInfo_rollbackDelete cap startRow numRows vi)"

section \<open>Every operation keeps the representation\<close>

lemma committed_valid: "c < START_TRANSACTION_ID \<Longrightarrow> c \<noteq> INVALID_TRANSACTION"
  using START_less_INVALID by auto

lemma owned_rows:
  assumes "0 < cap" "vi_inv cap vi" "uncommitted t"
  shows "list_all (\<lambda>row. row_ins cap vi row = t) [startRow..<startRow + numRows] \<Longrightarrow> ins_in cap {t} (startRow, numRows) vi"
    "list_all (\<lambda>row. row_del cap vi row = t) [startRow..<startRow + numRows] \<Longrightarrow> del_in cap {t} (startRow, numRows) vi"
  using assms by (auto simp: ins_in_def del_in_def list_all_iff)

lemma vi_inv_rollbackInsert:
  assumes own: "ins_in cap {t} (startRow, numRows) vi"
    and del: "list_all (\<lambda>row. deletionStatus (vector_or_new (row div cap) vi) = NO_DELETED) [startRow..<startRow + numRows]"
  shows "vi_inv cap (VersionInfo_rollbackInsert cap startRow numRows vi)"
  unfolding VersionInfo_rollbackInsert_def
proof (rule vi_inv_for_vectors)
  show cap: "0 < cap" "vi_inv cap vi" using own by (simp_all add: ins_in_def)
  fix k s n
  assume r: "0 < n" "s + n \<le> cap" "\<And>i. i < cap \<Longrightarrow> s \<le> i \<and> i < s + n \<longleftrightarrow> startRow \<le> k * cap + i \<and> k * cap + i < startRow + numRows"
  have "k * cap + s \<in> set [startRow..<startRow + numRows]" using r(1,2) r(3) [of s] by simp
  moreover have "(k * cap + s) div cap = k" using r(1,2) by simp
  ultimately have "deletionStatus (vector_or_new k vi) = NO_DELETED" using del unfolding list_all_iff by metis
  moreover from ins_in_vector [OF own r] obtain v where "vector_or_new k vi = v" "vvi_inv cap v"
    "\<And>i. s \<le> i \<Longrightarrow> i < s + n \<Longrightarrow> ins_version v i \<in> {t}" by metis
  moreover have "INVALID_TRANSACTION \<notin> {t}" "0 \<notin> {t}" using own by (auto simp: ins_in_def live_def)
  ultimately show "vvi_inv cap (rollbackInsertions s n (vector_or_new k vi))"
    using rollbackInsertions_versions [of cap v s n "{t}"] r(1,2) by simp
qed

lemma vi_inv_deletions:
  assumes own: "del_in cap {t} (startRow, numRows) vi"
  shows "c \<noteq> INVALID_TRANSACTION \<Longrightarrow> vi_inv cap (VersionInfo_commitDelete cap startRow numRows c vi)"
    "vi_inv cap (VersionInfo_rollbackDelete cap startRow numRows vi)"
proof -
  have t: "INVALID_TRANSACTION \<notin> {t}" using own by (auto simp: del_in_def live_def)
  show "c \<noteq> INVALID_TRANSACTION \<Longrightarrow> vi_inv cap (VersionInfo_commitDelete cap startRow numRows c vi)"
    unfolding VersionInfo_commitDelete_def by (rule vi_inv_del_record [OF own]) (use setDeleteCommitTS_versions [OF _ _ _ _ t] in blast)
  show "vi_inv cap (VersionInfo_rollbackDelete cap startRow numRows vi)"
    unfolding VersionInfo_rollbackDelete_def by (rule vi_inv_del_record [OF own]) (use rollbackDeletions_versions [OF _ _ _ _ t] in blast)
qed

section \<open>Properties\<close>



end
