(* ===== verification/Buffered_File.thy ===== *)
theory Buffered_File
  imports Serializer
begin

text \<open>
  The byte streams under the serializer: pages in memory (\<^verbatim>\<open>common/serializer/in_mem_file_writer.cpp\<close>)
  and files read and written through a buffer of one page (\<^verbatim>\<open>common/serializer/buffered_file.cpp\<close>). A
  file is the list of its bytes; \<^verbatim>\<open>RYU_PAGE_SIZE\<close>, set by the build, is the argument \<open>pageSize\<close>, and the
  content of a newly allocated page, which is not initialized, the argument \<open>blank\<close>. Reading copies
  into a destination whose former content is an argument, because a short read leaves a part of it.
\<close>

section \<open>Memory and files\<close>

definition memcpy :: "byte list \<Rightarrow> nat \<Rightarrow> byte list \<Rightarrow> byte list" where
  "memcpy dst off data = take off dst @ data @ drop (off + length data) dst"

definition writeFile :: "byte list \<Rightarrow> nat \<Rightarrow> byte list \<Rightarrow> byte list" where
  "writeFile data off f =
     take off f @ replicate (off - length f) 0 @ data @ drop (off + length data) f"

text \<open>
  \<^verbatim>\<open>LocalFileSystem::readFromFile\<close>: a read that ends at the end of the file is short and leaves the
  rest of the destination, one that starts behind it throws.
\<close>

definition readFromFile :: "byte list \<Rightarrow> nat \<Rightarrow> byte list \<Rightarrow> exn + byte list" where
  "readFromFile dst position f =
     (let bytes = take (length dst) (drop position f) in
      if length bytes \<noteq> length dst \<and> length f \<noteq> position + length bytes then Inl (IOException ''Cannot read from file'')
      else Inr (memcpy dst 0 bytes))"

section \<open>Pages in memory\<close>

record InMemFileWriter =
  pages :: "byte list list"
  pageOffset :: nat

definition InMemFileWriter_new :: InMemFileWriter where
  "InMemFileWriter_new = \<lparr>pages = [], pageOffset = 0\<rparr>"

definition needNewBuffer :: "nat \<Rightarrow> nat \<Rightarrow> InMemFileWriter \<Rightarrow> bool" where
  "needNewBuffer pageSize sz w \<longleftrightarrow> pages w = [] \<or> pageSize < pageOffset w + sz"

definition copy_to_page :: "byte list \<Rightarrow> InMemFileWriter \<Rightarrow> InMemFileWriter" where
  "copy_to_page data w =
     w\<lparr>pages := butlast (pages w) @ [memcpy (last (pages w)) (pageOffset w) data]\<rparr>"

text \<open>One round of the loop of \<^verbatim>\<open>InMemFileWriter::write\<close> with \<open>remaining\<close> bytes of the data left: a new
  page where the data do not fit, then as many bytes as the page takes.\<close>

definition next_page :: "nat \<Rightarrow> byte list \<Rightarrow> byte list \<Rightarrow> nat \<times> InMemFileWriter \<Rightarrow> nat \<times> InMemFileWriter" where
  "next_page pageSize blank data = (\<lambda>(remaining, w).
     let sz = length data in
     if needNewBuffer pageSize sz w
     then let (remaining, w) =
                (if pages w = [] then (remaining, w)
                 else let toCopy = min sz (pageSize - pageOffset w)
                      in (remaining - toCopy, copy_to_page (take toCopy (drop (sz - remaining) data)) w))
          in (remaining, w\<lparr>pages := pages w @ [blank], pageOffset := 0\<rparr>)
     else (remaining, w))"

definition fill_page :: "nat \<Rightarrow> byte list \<Rightarrow> nat \<times> InMemFileWriter \<Rightarrow> nat \<times> InMemFileWriter" where
  "fill_page pageSize data = (\<lambda>(remaining, w).
     let toCopy = min remaining (pageSize - pageOffset w);
         w = copy_to_page (take toCopy (drop (length data - remaining) data)) w
     in (remaining - toCopy, w\<lparr>pageOffset := pageOffset w + toCopy\<rparr>))"

definition write_round :: "nat \<Rightarrow> byte list \<Rightarrow> byte list \<Rightarrow> nat \<times> InMemFileWriter \<Rightarrow> nat \<times> InMemFileWriter" where
  "write_round pageSize blank data rw = fill_page pageSize data (next_page pageSize blank data rw)"

partial_function (option) write_rounds :: "nat \<Rightarrow> byte list \<Rightarrow> byte list \<Rightarrow> nat \<Rightarrow> InMemFileWriter \<Rightarrow> InMemFileWriter option" where
  "write_rounds pageSize blank data remaining w =
     (if 0 < remaining
      then (case write_round pageSize blank data (remaining, w) of
              (remaining, w) \<Rightarrow> write_rounds pageSize blank data remaining w)
      else Some w)"

declare write_rounds.simps [code]

definition InMemFileWriter_write :: "nat \<Rightarrow> byte list \<Rightarrow> byte list \<Rightarrow> InMemFileWriter \<Rightarrow> InMemFileWriter option" where
  "InMemFileWriter_write pageSize blank data w = write_rounds pageSize blank data (length data) w"

definition InMemFileWriter_getSize :: "nat \<Rightarrow> InMemFileWriter \<Rightarrow> nat" where
  "InMemFileWriter_getSize pageSize w =
     (if 1 < length (pages w) then pageSize * (length (pages w) - 1) else 0) + pageOffset w"

definition InMemFileWriter_clear :: "InMemFileWriter \<Rightarrow> InMemFileWriter" where
  "InMemFileWriter_clear w = w\<lparr>pages := [], pageOffset := 0\<rparr>"

section \<open>Buffered files: writing\<close>

record BufferedFileWriter =
  contents :: "byte list"
  buffer :: "byte list"
  fileOffset :: nat
  bufferOffset :: nat

definition BufferedFileWriter_new :: "nat \<Rightarrow> byte list \<Rightarrow> BufferedFileWriter" where
  "BufferedFileWriter_new pageSize f =
     \<lparr>contents = f, buffer = replicate pageSize 0, fileOffset = 0, bufferOffset = 0\<rparr>"

definition setFileOffset :: "nat \<Rightarrow> BufferedFileWriter \<Rightarrow> BufferedFileWriter" where
  "setFileOffset off w = w\<lparr>fileOffset := off\<rparr>"

definition BufferedFileWriter_flush :: "nat \<Rightarrow> BufferedFileWriter \<Rightarrow> BufferedFileWriter" where
  "BufferedFileWriter_flush pageSize w =
     (if bufferOffset w = 0 then w
      else w\<lparr>contents := writeFile (take (bufferOffset w) (buffer w)) (fileOffset w) (contents w),
             fileOffset := fileOffset w + bufferOffset w, bufferOffset := 0,
             buffer := replicate pageSize 0\<rparr>)"

definition BufferedFileWriter_write :: "nat \<Rightarrow> byte list \<Rightarrow> BufferedFileWriter \<Rightarrow> BufferedFileWriter" where
  "BufferedFileWriter_write pageSize data w =
     (let sz = length data in
      if pageSize < sz
      then let w = BufferedFileWriter_flush pageSize w
           in w\<lparr>contents := writeFile data (fileOffset w) (contents w), fileOffset := fileOffset w + sz\<rparr>
      else if bufferOffset w + sz \<le> pageSize
      then w\<lparr>buffer := memcpy (buffer w) (bufferOffset w) data, bufferOffset := bufferOffset w + sz\<rparr>
      else let toCopy = pageSize - bufferOffset w;
               w = BufferedFileWriter_flush pageSize
                     (w\<lparr>buffer := memcpy (buffer w) (bufferOffset w) (take toCopy data),
                        bufferOffset := bufferOffset w + toCopy\<rparr>)
           in w\<lparr>buffer := memcpy (buffer w) 0 (drop toCopy data),
                bufferOffset := bufferOffset w + (sz - toCopy)\<rparr>)"

definition BufferedFileWriter_clear :: "BufferedFileWriter \<Rightarrow> BufferedFileWriter" where
  "BufferedFileWriter_clear w = w\<lparr>contents := [], fileOffset := 0, bufferOffset := 0\<rparr>"

definition BufferedFileWriter_getSize :: "BufferedFileWriter \<Rightarrow> nat" where
  "BufferedFileWriter_getSize w = length (contents w) + bufferOffset w"

text \<open>\<^verbatim>\<open>InMemFileWriter::flush(Writer&)\<close>: every page but the last is written whole.\<close>

fun flush_pages :: "nat \<Rightarrow> nat \<Rightarrow> byte list list \<Rightarrow> BufferedFileWriter \<Rightarrow> BufferedFileWriter" where
  "flush_pages pageSize off [] w = w"
| "flush_pages pageSize off (p # ps) w =
     flush_pages pageSize off ps
       (BufferedFileWriter_write pageSize (take (if ps = [] then off else pageSize) p) w)"

definition InMemFileWriter_flush :: "nat \<Rightarrow> InMemFileWriter \<Rightarrow> BufferedFileWriter \<Rightarrow> BufferedFileWriter" where
  "InMemFileWriter_flush pageSize w = flush_pages pageSize (pageOffset w) (pages w)"

section \<open>Buffered files: reading\<close>

record BufferedFileReader =
  rfile :: "byte list"
  rbuffer :: "byte list"
  rfileOffset :: nat
  rbufferOffset :: nat
  bufferSize :: nat

definition readNextPage :: "nat \<Rightarrow> BufferedFileReader \<Rightarrow> exn + BufferedFileReader" where
  "readNextPage pageSize r =
     (if length (rfile r) \<le> rfileOffset r then Inl (RuntimeException ''Reading past the end of the file'')
      else let sz = min (length (rfile r) - rfileOffset r) pageSize
           in Inr (r\<lparr>bufferSize := sz,
                     rbuffer := memcpy (rbuffer r) 0 (take sz (drop (rfileOffset r) (rfile r))),
                     rfileOffset := rfileOffset r + sz, rbufferOffset := 0\<rparr>))"

definition BufferedFileReader_new :: "nat \<Rightarrow> byte list \<Rightarrow> exn + BufferedFileReader" where
  "BufferedFileReader_new pageSize f =
     readNextPage pageSize \<lparr>rfile = f, rbuffer = replicate pageSize 0, rfileOffset = 0, rbufferOffset = 0, bufferSize = 0\<rparr>"

definition resetReadOffset :: "nat \<Rightarrow> BufferedFileReader \<Rightarrow> BufferedFileReader" where
  "resetReadOffset off r = r\<lparr>rfileOffset := off, rbufferOffset := 0, bufferSize := 0\<rparr>"

definition getReadOffset :: "BufferedFileReader \<Rightarrow> nat" where
  "getReadOffset r = rfileOffset r - bufferSize r + rbufferOffset r"

definition finished :: "BufferedFileReader \<Rightarrow> bool" where
  "finished r \<longleftrightarrow> bufferSize r \<le> rbufferOffset r \<and> length (rfile r) \<le> rfileOffset r"

text \<open>
  \<^verbatim>\<open>BufferedFileReader::read\<close> into \<open>dst\<close>. The number of bytes left in the buffer is an unsigned
  difference; where the read offset is behind the buffer it wraps around and the copy leaves the
  buffer, which is undefined behaviour: the result None.
\<close>

definition BufferedFileReader_read :: "nat \<Rightarrow> byte list \<Rightarrow> BufferedFileReader \<Rightarrow>
    ((exn + byte list) \<times> BufferedFileReader) option" where
  "BufferedFileReader_read pageSize dst r =
     (let sz = length dst in
      if pageSize < sz
      then let r = r\<lparr>rfileOffset := rfileOffset r - bufferSize r + rbufferOffset r\<rparr>
           in case readFromFile dst (rfileOffset r) (rfile r) of
                Inl e \<Rightarrow> Some (Inl e, r)
              | Inr bytes \<Rightarrow> Some (Inr bytes, r\<lparr>rfileOffset := rfileOffset r + sz, rbufferOffset := bufferSize r\<rparr>)
      else if rbufferOffset r + sz \<le> bufferSize r
      then Some (Inr (take sz (drop (rbufferOffset r) (rbuffer r))), r\<lparr>rbufferOffset := rbufferOffset r + sz\<rparr>)
      else if bufferSize r < rbufferOffset r then None
      else let toCopy = bufferSize r - rbufferOffset r;
               front = take toCopy (drop (rbufferOffset r) (rbuffer r));
               r = r\<lparr>rbufferOffset := rbufferOffset r + toCopy\<rparr>
           in case readNextPage pageSize r of
                Inl e \<Rightarrow> Some (Inl e, r)
              | Inr r \<Rightarrow> Some (Inr (front @ take (sz - toCopy) (rbuffer r)),
                                r\<lparr>rbufferOffset := rbufferOffset r + (sz - toCopy)\<rparr>))"

text \<open>Reading one destination after the other, until a read fails.\<close>

fun reads :: "nat \<Rightarrow> byte list list \<Rightarrow> BufferedFileReader \<Rightarrow> ((exn + byte list list) \<times> BufferedFileReader) option" where
  "reads pageSize [] r = Some (Inr [], r)"
| "reads pageSize (dst # dsts) r =
     (case BufferedFileReader_read pageSize dst r of
        None \<Rightarrow> None
      | Some (Inl e, r) \<Rightarrow> Some (Inl e, r)
      | Some (Inr bytes, r) \<Rightarrow>
          (case reads pageSize dsts r of
             None \<Rightarrow> None
           | Some (Inl e, r) \<Rightarrow> Some (Inl e, r)
           | Some (Inr rest, r) \<Rightarrow> Some (Inr (bytes # rest), r)))"

fun mem_writes :: "nat \<Rightarrow> byte list \<Rightarrow> byte list list \<Rightarrow> InMemFileWriter \<Rightarrow> InMemFileWriter option" where
  "mem_writes pageSize blank [] w = Some w"
| "mem_writes pageSize blank (d # ds) w =
     Option.bind (InMemFileWriter_write pageSize blank d w) (mem_writes pageSize blank ds)"

section \<open>Pages in memory hold the bytes written\<close>

definition mem_ok :: "nat \<Rightarrow> InMemFileWriter \<Rightarrow> bool" where
  "mem_ok pageSize w \<longleftrightarrow> pageOffset w \<le> pageSize \<and> (pages w = [] \<longrightarrow> pageOffset w = 0) \<and>
     list_all (\<lambda>p. length p = pageSize) (pages w)"

definition mem_bytes :: "InMemFileWriter \<Rightarrow> byte list" where
  "mem_bytes w = (if pages w = [] then [] else concat (butlast (pages w)) @ take (pageOffset w) (last (pages w)))"

lemma length_memcpy: "off + length data \<le> length dst \<Longrightarrow> length (memcpy dst off data) = length dst"
  by (simp add: memcpy_def)

lemma take_memcpy: "off + length data \<le> length dst \<Longrightarrow> take (off + length data) (memcpy dst off data) = take off dst @ data"
  by (simp add: memcpy_def)

lemma copy_to_page_bytes:
  assumes "mem_ok pageSize w" "pages w \<noteq> []" "pageOffset w + length d \<le> pageSize"
  shows "mem_ok pageSize ((copy_to_page d w)\<lparr>pageOffset := pageOffset w + length d\<rparr>)"
    and "mem_bytes ((copy_to_page d w)\<lparr>pageOffset := pageOffset w + length d\<rparr>) = mem_bytes w @ d"
proof -
  have len: "length (last (pages w)) = pageSize" "list_all (\<lambda>p. length p = pageSize) (butlast (pages w))"
    using assms(1,2) by (auto simp: mem_ok_def list_all_iff dest: in_set_butlastD)
  show "mem_ok pageSize ((copy_to_page d w)\<lparr>pageOffset := pageOffset w + length d\<rparr>)"
    using assms len by (simp add: mem_ok_def copy_to_page_def length_memcpy)
  show "mem_bytes ((copy_to_page d w)\<lparr>pageOffset := pageOffset w + length d\<rparr>) = mem_bytes w @ d"
    using assms len by (simp add: mem_bytes_def copy_to_page_def take_memcpy)
qed

lemma new_page_bytes:
  assumes "mem_ok pageSize w" "pages w \<noteq> [] \<Longrightarrow> pageOffset w = pageSize" "length blank = pageSize"
  shows "mem_ok pageSize (w\<lparr>pages := pages w @ [blank], pageOffset := 0\<rparr>)"
    and "mem_bytes (w\<lparr>pages := pages w @ [blank], pageOffset := 0\<rparr>) = mem_bytes w"
proof -
  show "mem_ok pageSize (w\<lparr>pages := pages w @ [blank], pageOffset := 0\<rparr>)"
    using assms by (simp add: mem_ok_def)
  show "mem_bytes (w\<lparr>pages := pages w @ [blank], pageOffset := 0\<rparr>) = mem_bytes w"
  proof (cases "pages w = []")
    case False
    then have "length (last (pages w)) = pageSize" using assms(1) by (simp add: mem_ok_def list_all_iff)
    moreover have "concat (butlast (pages w)) @ last (pages w) = concat (pages w)"
      using append_butlast_last_id [OF False] by (metis append_Nil2 concat.simps concat_append)
    ultimately show ?thesis using False assms(2) by (simp add: mem_bytes_def)
  qed (simp add: mem_bytes_def)
qed

lemma fill_page_bytes:
  assumes "mem_ok pageSize w" "pages w \<noteq> []" "remaining \<le> length data" "0 < remaining"
    and "remaining \<le> pageSize - pageOffset w \<or> pageOffset w = 0" "0 < pageSize"
    and "fill_page pageSize data (remaining, w) = (remaining', w')"
  shows "remaining' < remaining" "mem_ok pageSize w'" "pages w' \<noteq> []" "remaining' = 0 \<or> pageOffset w' = pageSize"
    and "mem_bytes w' = mem_bytes w @ take (remaining - remaining') (drop (length data - remaining) data)"
proof -
  define k where "k = min remaining (pageSize - pageOffset w)"
  define d where "d = take k (drop (length data - remaining) data)"
  have len: "length d = k" using assms(3) by (simp add: d_def k_def)
  have fits: "pageOffset w + length d \<le> pageSize" using assms(1) by (auto simp: len k_def mem_ok_def)
  have "fill_page pageSize data (remaining, w) =
      (remaining - k, (copy_to_page d w)\<lparr>pageOffset := pageOffset w + length d\<rparr>)"
    by (simp add: fill_page_def Let_def len flip: d_def k_def) (simp add: copy_to_page_def)
  then have eqs: "remaining' = remaining - k" "w' = (copy_to_page d w)\<lparr>pageOffset := pageOffset w + length d\<rparr>"
    using assms(7) by simp_all
  have "0 < k" using assms(4-6) by (auto simp: k_def)
  with assms(4) show "remaining' < remaining" by (simp add: eqs)
  have "remaining - remaining' = k" by (simp add: eqs k_def)
  then show "mem_bytes w' = mem_bytes w @ take (remaining - remaining') (drop (length data - remaining) data)"
    by (simp add: eqs(2) copy_to_page_bytes(2) [OF assms(1,2) fits]) (simp add: d_def)
  show "mem_ok pageSize w'" unfolding eqs(2) by (rule copy_to_page_bytes(1) [OF assms(1,2) fits])
  show "pages w' \<noteq> []" by (simp add: eqs copy_to_page_def)
  show "remaining' = 0 \<or> pageOffset w' = pageSize"
    using assms(1,5) by (auto simp: eqs len k_def mem_ok_def)
qed

lemma next_page_bytes:
  assumes "mem_ok pageSize w" "length blank = pageSize" "remaining \<le> length data" "0 < remaining"
    and "remaining = length data \<or> pages w \<noteq> [] \<and> pageOffset w = pageSize"
    and "next_page pageSize blank data (remaining, w) = (remaining', w')"
  shows "0 < remaining'" "remaining' \<le> remaining" "mem_ok pageSize w'" "pages w' \<noteq> []"
    and "remaining' \<le> pageSize - pageOffset w' \<or> pageOffset w' = 0"
    and "mem_bytes w' = mem_bytes w @ take (remaining - remaining') (drop (length data - remaining) data)"
proof -
  let ?goal = "0 < remaining' \<and> remaining' \<le> remaining \<and> mem_ok pageSize w' \<and> pages w' \<noteq> [] \<and>
    (remaining' \<le> pageSize - pageOffset w' \<or> pageOffset w' = 0) \<and>
    mem_bytes w' = mem_bytes w @ take (remaining - remaining') (drop (length data - remaining) data)"
  consider "\<not> needNewBuffer pageSize (length data) w" | "pages w = []" |
    "needNewBuffer pageSize (length data) w" "pages w \<noteq> []" by blast
  then have ?goal
  proof cases
    case 1
    with assms(6) have "remaining' = remaining" "w' = w" by (simp_all add: next_page_def Let_def)
    with 1 assms show ?thesis by (auto simp: needNewBuffer_def)
  next
    case 2
    with assms(6) have "remaining' = remaining" "w' = w\<lparr>pages := pages w @ [blank], pageOffset := 0\<rparr>"
      by (auto simp: next_page_def Let_def needNewBuffer_def)
    with 2 assms(4) new_page_bytes [OF assms(1) _ assms(2)] show ?thesis by simp
  next
    case 3
    define k where "k = pageSize - pageOffset w"
    define d where "d = take k (drop (length data - remaining) data)"
    define v where "v = (copy_to_page d w)\<lparr>pageOffset := pageOffset w + length d\<rparr>"
    have k: "k < remaining" "min (length data) k = k" using 3 assms(1,4,5) by (auto simp: needNewBuffer_def k_def mem_ok_def)
    then have len: "length d = k" using assms(3) by (simp add: d_def)
    have fits: "pageOffset w + length d = pageSize" using assms(1) by (simp add: len k_def mem_ok_def)
    note v = copy_to_page_bytes [OF assms(1) 3(2) eq_refl [OF fits], folded v_def]
    have "pages v \<noteq> [] \<Longrightarrow> pageOffset v = pageSize" using fits by (simp add: v_def)
    note n = new_page_bytes [OF v(1) this assms(2)]
    have "remaining' = remaining - k" "w' = v\<lparr>pages := pages v @ [blank], pageOffset := 0\<rparr>"
      using assms(6) 3 by (simp_all add: next_page_def Let_def k(2) v_def flip: k_def d_def)
    with k(1) n v(2) show ?thesis by (simp add: d_def)
  qed
  then show "0 < remaining'" "remaining' \<le> remaining" "mem_ok pageSize w'" "pages w' \<noteq> []"
    "remaining' \<le> pageSize - pageOffset w' \<or> pageOffset w' = 0"
    "mem_bytes w' = mem_bytes w @ take (remaining - remaining') (drop (length data - remaining) data)"
    by auto
qed

lemma write_rounds_bytes:
  assumes "mem_ok pageSize w" "length blank = pageSize" "0 < pageSize" "remaining \<le> length data"
    and "remaining = length data \<or> pages w \<noteq> [] \<and> (0 < remaining \<longrightarrow> pageOffset w = pageSize)"
  shows "\<exists>w'. write_rounds pageSize blank data remaining w = Some w' \<and> mem_ok pageSize w' \<and>
    mem_bytes w' = mem_bytes w @ drop (length data - remaining) data"
  using assms(1,4,5)
proof (induction remaining arbitrary: w rule: less_induct)
  case (less remaining)
  show ?case
  proof (cases "remaining = 0")
    case True
    with less.prems show ?thesis by (simp add: write_rounds.simps)
  next
    case False
    obtain r1 w1 where n: "next_page pageSize blank data (remaining, w) = (r1, w1)" by fastforce
    obtain r2 w2 where f: "fill_page pageSize data (r1, w1) = (r2, w2)" by fastforce
    have c: "remaining = length data \<or> pages w \<noteq> [] \<and> pageOffset w = pageSize" "0 < remaining"
      using less.prems(3) False by auto
    note nb = next_page_bytes [OF less.prems(1) assms(2) less.prems(2) c(2,1) n]
    have "r1 \<le> length data" using nb(2) less.prems(2) by simp
    note fb = fill_page_bytes [OF nb(3,4) this nb(1,5) assms(3) f]
    have "r2 < remaining" "r2 \<le> length data" using fb(1) nb(2) less.prems(2) by simp_all
    from less.IH [OF this(1) fb(2) this(2)] fb(3,4)
    obtain w' where w': "write_rounds pageSize blank data r2 w2 = Some w'" "mem_ok pageSize w'"
      "mem_bytes w' = mem_bytes w2 @ drop (length data - r2) data" by auto
    have cut: "take (i - j) (drop (length data - i) data) @ drop (length data - j) data = drop (length data - i) data"
      if "j \<le> i" "i \<le> length data" for i j
    proof -
      have "drop (length data - j) data = drop (i - j) (drop (length data - i) data)" using that by simp
      then show ?thesis by (simp only: append_take_drop_id)
    qed
    have "mem_bytes w' = mem_bytes w @ drop (length data - remaining) data"
      unfolding w'(3) fb(5) nb(6) append_assoc
      using cut [of r2 r1] cut [of r1 remaining] fb(1) nb(2) less.prems(2) by simp
    with w' False show ?thesis
      by (subst write_rounds.simps) (simp add: write_round_def n f)
  qed
qed

lemma mem_writes_bytes:
  assumes "length blank = pageSize" "0 < pageSize" "mem_ok pageSize w"
  shows "\<exists>w'. mem_writes pageSize blank ds w = Some w' \<and> mem_ok pageSize w' \<and> mem_bytes w' = mem_bytes w @ concat ds"
  using assms(3)
proof (induction ds arbitrary: w)
  case (Cons d ds)
  from write_rounds_bytes [OF Cons.prems assms(1,2), of "length d" d] obtain v
    where "InMemFileWriter_write pageSize blank d w = Some v" "mem_ok pageSize v" "mem_bytes v = mem_bytes w @ d"
    by (auto simp: InMemFileWriter_write_def)
  with Cons.IH [of v] show ?case by auto
qed simp

section \<open>A buffered file holds the bytes written\<close>

definition writer_ok :: "nat \<Rightarrow> BufferedFileWriter \<Rightarrow> bool" where
  "writer_ok pageSize w \<longleftrightarrow> length (buffer w) = pageSize \<and> bufferOffset w \<le> pageSize \<and>
     fileOffset w = length (contents w)"

definition writer_bytes :: "BufferedFileWriter \<Rightarrow> byte list" where
  "writer_bytes w = contents w @ take (bufferOffset w) (buffer w)"

lemma writeFile_append: "writeFile data (length f) f = f @ data"
  by (simp add: writeFile_def)

lemma flush_bytes:
  assumes "writer_ok pageSize w"
  shows "writer_ok pageSize (BufferedFileWriter_flush pageSize w)"
    and "contents (BufferedFileWriter_flush pageSize w) = writer_bytes w"
    and "bufferOffset (BufferedFileWriter_flush pageSize w) = 0"
    and "writer_bytes (BufferedFileWriter_flush pageSize w) = writer_bytes w"
  using assms by (simp_all add: BufferedFileWriter_flush_def writer_ok_def writer_bytes_def writeFile_append)

lemma write_bytes:
  assumes "writer_ok pageSize w"
  shows "writer_ok pageSize (BufferedFileWriter_write pageSize d w) \<and>
    writer_bytes (BufferedFileWriter_write pageSize d w) = writer_bytes w @ d"
proof -
  have off: "bufferOffset w \<le> pageSize" "length (buffer w) = pageSize" using assms by (simp_all add: writer_ok_def)
  consider "pageSize < length d" | "bufferOffset w + length d \<le> pageSize" |
    "length d \<le> pageSize" "pageSize < bufferOffset w + length d" by linarith
  then show ?thesis
  proof cases
    case 1
    define v where "v = BufferedFileWriter_flush pageSize w"
    note v = flush_bytes [OF assms, folded v_def]
    have "writeFile d (fileOffset v) (contents v) = contents v @ d" "fileOffset v = length (contents v)"
      using v(1) by (simp_all add: writer_ok_def writeFile_append)
    with 1 v(1,3) show ?thesis
      by (simp add: BufferedFileWriter_write_def writer_ok_def writer_bytes_def flip: v_def)
        (simp add: v(2) writer_bytes_def)
  next
    case 2
    with assms off show ?thesis
      by (simp add: BufferedFileWriter_write_def writer_ok_def writer_bytes_def length_memcpy take_memcpy)
  next
    case 3
    define k where "k = pageSize - bufferOffset w"
    define u where "u = w\<lparr>buffer := memcpy (buffer w) (bufferOffset w) (take k d), bufferOffset := bufferOffset w + k\<rparr>"
    define v where "v = BufferedFileWriter_flush pageSize u"
    have k: "k \<le> length d" "bufferOffset w + k = pageSize" "length (take k d) = k" "length d - k \<le> pageSize"
      using 3 off by (simp_all add: k_def)
    have u: "writer_ok pageSize u" "writer_bytes u = writer_bytes w @ take k d"
      using assms off k by (simp_all add: u_def writer_ok_def writer_bytes_def memcpy_def flip: k_def)
    note v = flush_bytes [OF u(1), folded v_def]
    have eq: "BufferedFileWriter_write pageSize d w =
        v\<lparr>buffer := memcpy (buffer v) 0 (drop k d), bufferOffset := bufferOffset v + (length d - k)\<rparr>"
      using 3 by (simp add: BufferedFileWriter_write_def Let_def u_def v_def k_def)
    from v(1,3) k have "writer_ok pageSize (BufferedFileWriter_write pageSize d w)"
      unfolding eq using length_memcpy [of 0 "drop k d" "buffer v"] by (simp add: writer_ok_def)
    moreover have "writer_bytes (BufferedFileWriter_write pageSize d w) = contents v @ drop k d"
      unfolding eq using v(1,3) k take_memcpy [of 0 "drop k d" "buffer v"] by (simp add: writer_ok_def writer_bytes_def)
    ultimately show ?thesis by (simp add: v(2) u(2))
  qed
qed

lemma flush_pages_bytes:
  assumes "writer_ok pageSize w" "list_all (\<lambda>p. length p = pageSize) ps"
  shows "writer_ok pageSize (flush_pages pageSize off ps w) \<and>
    writer_bytes (flush_pages pageSize off ps w) = writer_bytes w @ (if ps = [] then [] else concat (butlast ps) @ take off (last ps))"
  using assms
proof (induction ps arbitrary: w)
  case (Cons p ps)
  define v where "v = BufferedFileWriter_write pageSize (take (if ps = [] then off else pageSize) p) w"
  have "writer_ok pageSize v" "writer_bytes v = writer_bytes w @ take (if ps = [] then off else pageSize) p"
    using write_bytes [OF Cons.prems(1)] by (simp_all add: v_def)
  with Cons.IH [of v] Cons.prems(2) show ?case by (simp flip: v_def)
qed simp

lemma mem_flush_bytes:
  assumes "mem_ok pageSize m" "writer_ok pageSize w"
  shows "writer_ok pageSize (InMemFileWriter_flush pageSize m w) \<and>
    writer_bytes (InMemFileWriter_flush pageSize m w) = writer_bytes w @ mem_bytes m"
  using flush_pages_bytes [OF assms(2)] assms(1)
  by (simp add: InMemFileWriter_flush_def mem_ok_def mem_bytes_def)

section \<open>Reads return the bytes of the file\<close>

definition reader_ok :: "nat \<Rightarrow> BufferedFileReader \<Rightarrow> bool" where
  "reader_ok pageSize r \<longleftrightarrow> length (rbuffer r) = pageSize \<and> rbufferOffset r \<le> bufferSize r \<and> bufferSize r \<le> pageSize \<and>
     bufferSize r \<le> rfileOffset r \<and> rfileOffset r \<le> length (rfile r) \<and>
     drop (rbufferOffset r) (take (bufferSize r) (rbuffer r)) =
       take (bufferSize r - rbufferOffset r) (drop (getReadOffset r) (rfile r))"

lemma readNextPage_ok:
  assumes "length (rbuffer r) = pageSize" "rfileOffset r < length (rfile r)"
  shows "\<exists>r'. readNextPage pageSize r = Inr r' \<and> reader_ok pageSize r' \<and> rfile r' = rfile r \<and>
    getReadOffset r' = rfileOffset r \<and> rbufferOffset r' = 0 \<and>
    bufferSize r' = min (length (rfile r) - rfileOffset r) pageSize \<and>
    take (bufferSize r') (rbuffer r') = take (bufferSize r') (drop (rfileOffset r) (rfile r))"
  using assms by (simp add: readNextPage_def Let_def reader_ok_def getReadOffset_def memcpy_def)

lemma read_bytes:
  assumes "reader_ok pageSize r" "getReadOffset r + length dst \<le> length (rfile r)" "0 < pageSize"
  shows "\<exists>r'. BufferedFileReader_read pageSize dst r = Some (Inr (take (length dst) (drop (getReadOffset r) (rfile r))), r') \<and>
    reader_ok pageSize r' \<and> rfile r' = rfile r \<and> getReadOffset r' = getReadOffset r + length dst"
proof -
  define off where "off = getReadOffset r"
  have r: "length (rbuffer r) = pageSize" "rbufferOffset r \<le> bufferSize r" "bufferSize r \<le> pageSize"
    "bufferSize r \<le> rfileOffset r" "rfileOffset r \<le> length (rfile r)"
    "drop (rbufferOffset r) (take (bufferSize r) (rbuffer r)) = take (bufferSize r - rbufferOffset r) (drop off (rfile r))"
    "off = rfileOffset r - bufferSize r + rbufferOffset r"
    using assms(1) by (simp_all add: reader_ok_def off_def getReadOffset_def)
  consider "pageSize < length dst" | "length dst \<le> pageSize" "rbufferOffset r + length dst \<le> bufferSize r" |
    "length dst \<le> pageSize" "bufferSize r < rbufferOffset r + length dst" by linarith
  then show ?thesis
  proof cases
    case 1
    define bytes where "bytes = take (length dst) (drop off (rfile r))"
    have len: "length bytes = length dst" using assms(2) by (simp add: bytes_def off_def)
    then have "readFromFile dst off (rfile r) = Inr bytes"
      by (simp add: readFromFile_def Let_def memcpy_def flip: bytes_def)
    with 1 show ?thesis
      using r assms(2) by (simp add: BufferedFileReader_read_def Let_def bytes_def reader_ok_def getReadOffset_def off_def)
  next
    case 2
    have "take (length dst) (drop (rbufferOffset r) (rbuffer r)) =
        take (length dst) (drop (rbufferOffset r) (take (bufferSize r) (rbuffer r)))"
      using 2 by (simp add: drop_take)
    also have "\<dots> = take (length dst) (drop off (rfile r))" using 2 by (simp add: r(6))
    finally have bytes: "take (length dst) (drop (rbufferOffset r) (rbuffer r)) = take (length dst) (drop off (rfile r))" .
    have "drop (rbufferOffset r + length dst) (take (bufferSize r) (rbuffer r)) =
        drop (length dst) (take (bufferSize r - rbufferOffset r) (drop off (rfile r)))"
      by (simp only: r(6) [symmetric] drop_drop add.commute)
    then have "drop (rbufferOffset r + length dst) (take (bufferSize r) (rbuffer r)) =
        take (bufferSize r - (rbufferOffset r + length dst)) (drop (off + length dst) (rfile r))"
      by (simp add: drop_take add.commute)
    with 2 r bytes show ?thesis
      by (simp add: BufferedFileReader_read_def Let_def reader_ok_def getReadOffset_def add.assoc flip: off_def)
  next
    case 3
    define k where "k = bufferSize r - rbufferOffset r"
    define u where "u = r\<lparr>rbufferOffset := rbufferOffset r + k\<rparr>"
    have k: "off + k = rfileOffset r" "k < length dst" using r(2,4,7) 3(2) by (simp_all add: k_def)
    have front: "take k (drop (rbufferOffset r) (rbuffer r)) = take k (drop off (rfile r))"
      using r(6) by (simp add: k_def drop_take)
    have "rfileOffset u < length (rfile u)" using assms(2) k by (simp add: u_def flip: off_def)
    from readNextPage_ok [OF _ this, of pageSize] obtain v
      where v: "readNextPage pageSize u = Inr v" "reader_ok pageSize v" "rfile v = rfile r"
        "getReadOffset v = rfileOffset r" "rbufferOffset v = 0"
        "bufferSize v = min (length (rfile r) - rfileOffset r) pageSize"
        "take (bufferSize v) (rbuffer v) = take (bufferSize v) (drop (rfileOffset r) (rfile r))"
      using r(1) by (auto simp: u_def)
    define w where "w = v\<lparr>rbufferOffset := rbufferOffset v + (length dst - k)\<rparr>"
    have m: "length dst - k \<le> bufferSize v" using assms(2) k 3(1) by (auto simp: v(6) simp flip: off_def)
    have "take (length dst - k) (rbuffer v) = take (length dst - k) (take (bufferSize v) (rbuffer v))"
      using m by (simp add: min_def)
    also have "\<dots> = take (length dst - k) (drop (off + k) (rfile r))" using m by (simp add: v(7) k(1) min_def)
    finally have behind: "take (length dst - k) (rbuffer v) = take (length dst - k) (drop (off + k) (rfile r))" .
    have "take k (drop off (rfile r)) @ take (length dst - k) (drop (off + k) (rfile r)) = take (length dst) (drop off (rfile r))"
      using take_add [of k "length dst - k" "drop off (rfile r)"] k(2) by (simp add: add.commute)
    with front behind v(1) have res: "BufferedFileReader_read pageSize dst r = Some (Inr (take (length dst) (drop off (rfile r))), w)"
      using 3 r(2) by (simp add: BufferedFileReader_read_def Let_def w_def flip: k_def u_def)
    have "length dst - k + rfileOffset r = off + length dst" using k by simp
    then have "drop (length dst - k) (take (bufferSize v) (rbuffer v)) =
        take (bufferSize v - (length dst - k)) (drop (off + length dst) (rfile r))"
      by (simp only: v(7) drop_take drop_drop)
    moreover have off': "getReadOffset w = off + length dst" using v(4,5) k by (simp add: w_def getReadOffset_def)
    ultimately have "reader_ok pageSize w"
      using v(2,5) m unfolding reader_ok_def off' by (simp add: w_def v(3))
    with off' show ?thesis using res v(3) by (simp add: w_def flip: off_def)
  qed
qed

lemma reads_bytes:
  assumes "reader_ok pageSize r" "0 < pageSize" "map length dsts = map length ds"
    and "drop (getReadOffset r) (rfile r) = concat ds @ rest" "getReadOffset r \<le> length (rfile r)"
  shows "\<exists>r'. reads pageSize dsts r = Some (Inr ds, r') \<and> drop (getReadOffset r') (rfile r') = rest"
  using assms(1,3-5)
proof (induction dsts arbitrary: r ds)
  case (Cons dst dsts)
  then obtain d ds' where ds: "ds = d # ds'" "length dst = length d" "map length dsts = map length ds'"
    by (cases ds) auto
  have len: "getReadOffset r + length dst \<le> length (rfile r)"
    using arg_cong [OF Cons.prems(3), of length] Cons.prems(4) by (simp add: ds)
  from read_bytes [OF Cons.prems(1) len assms(2)] obtain r'
    where r': "BufferedFileReader_read pageSize dst r = Some (Inr d, r')" "reader_ok pageSize r'" "rfile r' = rfile r"
      "getReadOffset r' = getReadOffset r + length dst"
    using Cons.prems(3) by (auto simp: ds)
  have "drop (getReadOffset r') (rfile r') = drop (length dst) (drop (getReadOffset r) (rfile r))"
    by (simp add: r'(3,4) add.commute)
  then have "drop (getReadOffset r') (rfile r') = concat ds' @ rest" using Cons.prems(3) ds(2) by (simp add: ds(1))
  from Cons.IH [OF r'(2) ds(3) this] len r' ds(1) show ?case by auto
qed simp

section \<open>Properties\<close>

text \<open>
  C36: bytes written piece by piece into pages in memory and flushed to the end of a file arrive in the file
  in order and complete, whatever the sizes of the pieces and pages, and reading the file through the
  buffer in pieces of the same sizes gives the pieces back.
\<close>

theorem file_stream_roundtrip:
  assumes "0 < pageSize" "length blank = pageSize" "map length dsts = map length ds" "f \<noteq> [] \<or> concat ds \<noteq> []"
  shows "\<exists>m r r'. mem_writes pageSize blank ds InMemFileWriter_new = Some m \<and>
    contents (BufferedFileWriter_flush pageSize (InMemFileWriter_flush pageSize m
      (setFileOffset (length f) (BufferedFileWriter_new pageSize f)))) = f @ concat ds \<and>
    BufferedFileReader_new pageSize (f @ concat ds) = Inr r \<and>
    reads pageSize dsts (resetReadOffset (length f) r) = Some (Inr ds, r')"
proof -
  from mem_writes_bytes [OF assms(2,1), of InMemFileWriter_new ds] obtain m
    where m: "mem_writes pageSize blank ds InMemFileWriter_new = Some m" "mem_ok pageSize m" "mem_bytes m = concat ds"
    by (auto simp: mem_ok_def InMemFileWriter_new_def mem_bytes_def)
  define w where "w = setFileOffset (length f) (BufferedFileWriter_new pageSize f)"
  have "writer_ok pageSize w" "writer_bytes w = f"
    by (simp_all add: w_def writer_ok_def writer_bytes_def setFileOffset_def BufferedFileWriter_new_def)
  with mem_flush_bytes [OF m(2) this(1)] m(3)
  have written: "contents (BufferedFileWriter_flush pageSize (InMemFileWriter_flush pageSize m w)) = f @ concat ds"
    by (simp add: flush_bytes(2))
  from assms(4) have "0 < length (f @ concat ds)" by simp
  then obtain r where r: "BufferedFileReader_new pageSize (f @ concat ds) = Inr r" "reader_ok pageSize r"
      "rfile r = f @ concat ds"
    unfolding BufferedFileReader_new_def
    using readNextPage_ok [of "\<lparr>rfile = f @ concat ds, rbuffer = replicate pageSize 0, rfileOffset = 0,
        rbufferOffset = 0, bufferSize = 0\<rparr>" pageSize] by auto
  define u where "u = resetReadOffset (length f) r"
  have "reader_ok pageSize u" "getReadOffset u = length f" "rfile u = f @ concat ds"
    using r(2,3) by (simp_all add: u_def reader_ok_def resetReadOffset_def getReadOffset_def)
  from reads_bytes [OF this(1) assms(1,3), of "[]"] this(2,3)
  obtain r' where "reads pageSize dsts u = Some (Inr ds, r')" by auto
  with m(1) written r(1) show ?thesis by (auto simp: w_def u_def)
qed

theorem file_stream_roundtrip_witness:
  "\<exists>m r r'. mem_writes 4 [9, 9, 9, 9] [[1, 2], [3, 4, 5], [], [6, 7, 8, 9, 10, 11]] InMemFileWriter_new = Some m \<and>
    contents (BufferedFileWriter_flush 4 (InMemFileWriter_flush 4 m
      (setFileOffset (length [7 :: byte]) (BufferedFileWriter_new 4 [7])))) =
        [7] @ concat [[1, 2], [3, 4, 5], [], [6, 7, 8, 9, 10, 11]] \<and>
    BufferedFileReader_new 4 ([7] @ concat [[1, 2], [3, 4, 5], [], [6, 7, 8, 9, 10, 11]]) = Inr r \<and>
    reads 4 [[0, 0], [0, 0, 0], [], [0, 0, 0, 0, 0, 0]] (resetReadOffset (length [7 :: byte]) r) =
      Some (Inr [[1, 2], [3, 4, 5], [], [6, 7, 8, 9, 10, 11]], r')"
  by (rule file_stream_roundtrip) simp_all


end
