(* ===== verification/Spec2Isabelle.thy ===== *)
theory Spec2Isabelle
  imports Statement_Run Durable_Commit Version_Runs Buffered_File
begin

text \<open>
  A verification library for the storage and transaction core of the Ryu graph database. Paths are
  relative to \<^verbatim>\<open>src/src\<close>.

  \<^bold>\<open>The program.\<close> A connection runs each statement in a transaction. The transaction manager gives it
  an identifier above \<^verbatim>\<open>START_TRANSACTION_ID\<close> and a snapshot timestamp. The statement changes rows,
  columns, catalog entries and sequences in place; every change is stamped with the identifier, recorded
  in the undo buffer of the transaction and logged. A commit takes the next timestamp, walks the undo
  buffer forwards and replaces the identifier by the timestamp, and appends the log of the transaction to the
  write-ahead log; a rollback walks it backwards. A reader takes a version whose stamp is its own identifier or a
  timestamp not above its snapshot. After a crash the log is replayed up to its last commit.

  \<^bold>\<open>Foundations.\<close> \<open>Ryu_Prelude\<close>: machine types, constants, exceptions as values, lemmas on lists and words.
  \<open>Snapshot\<close>: the visibility rule, and the locales \<open>stamp_store\<close>, \<open>undo_store\<close> and \<open>version_store\<close>, the
  contract of everything that carries versions, with what readers see of a commit and a rollback proved once.
  \<open>Serializer\<close> (\<^verbatim>\<open>common/serializer\<close>): the locale \<open>codec\<close>, what is written is read back whatever
  follows, interpreted on every type that is written. \<open>Buffered_File\<close>: the byte streams below.
  \<open>Case_Map\<close>: maps with names that ignore case.

  \<^bold>\<open>Rows and columns\<close> (\<^verbatim>\<open>storage/table\<close>). \<open>Version_Info\<close>, \<open>Version_Scan\<close> and \<open>Version_Runs\<close> model
  \<^verbatim>\<open>version_info.cpp\<close>: every operation keeps the compressed version vectors well formed and implements the list of one
  insertion and one deletion version per row; scans select exactly the visible rows (\<open>Selection_Vector\<close>).
  \<open>Update_Info\<close> and \<open>Update_Chain\<close> model \<^verbatim>\<open>update_info.cpp\<close>: the order of the chains, conflicts,
  the optimised scan against the lookup. \<open>Column_Chunk\<close>, \<open>Chunked_Group\<close> and \<open>Node_Group\<close> model \<^verbatim>\<open>column_chunk.cpp\<close>,
  \<^verbatim>\<open>chunked_node_group.cpp\<close>, \<^verbatim>\<open>node_group.cpp\<close> and \<^verbatim>\<open>group_collection.h\<close>: appending in loops that
  return, finding rows, scanning, and commit and rollback of row ranges across groups (locales
  \<open>group_operation\<close>, \<open>group_commit\<close>, \<open>group_rollback\<close>, \<open>versioned_append\<close>).

  \<^bold>\<open>Catalog\<close> (\<^verbatim>\<open>catalog\<close>). \<open>Property_Collection\<close>: the columns of a table under schema changes.
  \<open>Checked_Arith\<close> (\<^verbatim>\<open>function/arithmetic\<close>) and \<open>Sequence_Entry\<close>: integer arithmetic that throws on overflow,
  and sequences that count with it. \<open>Catalog_Entry\<close>: entries and their serialization. \<open>Catalog_Set\<close> and
  \<open>Catalog_Versions\<close> model \<^verbatim>\<open>catalog_set.cpp\<close>: version chains of names, what a transaction reads after
  its changes, and what all others read before, after a commit and after a rollback.

  \<^bold>\<open>Transactions and log\<close> (\<^verbatim>\<open>transaction\<close>, \<^verbatim>\<open>storage\<close>). \<open>Undo_Buffer\<close>: the byte layout
  of undo records and the two walks over them, which visit exactly the records written. \<open>Transaction\<close>: what a transaction
  records and logs. \<open>Undo_Application\<close> and \<open>Undo_Commit\<close>: commit and rollback of all kinds of records over the
  whole database, and that a commit is atomic over it. \<open>WAL_Record\<close> and \<open>Write_Ahead_Log\<close>: records, checksums,
  the log file and its replay (locale \<open>log_format\<close>); the log may be cut at any byte. \<open>Transaction_Manager\<close>:
  \<^verbatim>\<open>transaction_manager.cpp\<close>, \<^verbatim>\<open>transaction_context.cpp\<close>, the transaction helper of \<^verbatim>\<open>main/client_context.cpp\<close>,
  the transaction statements of \<^verbatim>\<open>processor/operator/transaction.cpp\<close>, and the checkpoint as far as the log and
  the manager see it. \<open>Transaction_Runs\<close>, \<open>Durable_Commit\<close> and \<open>Statement_Run\<close> prove what holds after every
  sequence of calls: consistent snapshots, calls that return, commits that a restart replays, and statements that
  end their transaction on every path.

  \<^bold>\<open>Modelling.\<close> Objects are records, pointers are identifiers or addresses. An operation that throws returns the exception
  with the state it leaves behind. A public function of the transaction manager holds one mutex throughout
  and is one step; interleavings of connections are sequences of such steps, and the steps of a transaction
  between them are arbitrary additions to its undo buffer and log (\<open>extends\<close>). Timestamps, identifiers and stored integers
  have their machine width; row numbers and sizes are natural numbers.

  \<^bold>\<open>Bounds.\<close> Loops whose end depends on data are \<open>partial_function (option)\<close>, where \<open>None\<close> means that the loop does
  not return, and are proved to return: the append of a node group, the growth of an undo buffer, the writer of
  pages in memory, the replay of the log, and the wait for active transactions, which gives up after 10000 turns. The vector, group and page capacities the build
  generates are arguments, positive where it matters. Properties of runs assume fewer than \<open>2^63 - 2\<close> calls, the
  number of identifiers the counter can hand out.

  \<^bold>\<open>Parameters.\<close> The local storage of a transaction, the primary key index, the pages a checkpoint writes, and the contents
  of expressions and value vectors in the catalog and the log are arguments. What is assumed of them is
  stated: \<open>local_storage_ok\<close> (the local storage adds undo and log records of its transaction only),
  \<open>statement_ok\<close> (a statement returns, keeps its transaction and throws no checkpoint exception), \<open>codec\<close> and
  \<open>incremental\<close> (their encodings can be read back). The catalog properties are about a single writer, the default mode.

  \<^bold>\<open>Not modelled.\<close> Page, buffer and memory management, compression, the hash index, the layout of
  relationship tables by source node and local storage: they are code over pages, latches and templates of value
  types, and the models above meet them at the interfaces named. Parser, binder, planner, processor and functions other
  than integer arithmetic: the query engine does not take part in versioning, logging and recovery. Settings, language
  bindings, extensions and vendored code. Latches are not modelled, so data races are out of scope. A failure of an
  I/O operation is modelled only where the code handles it.
\<close>

end
